(* ===== verification/Prelude.thy ===== *)
theory Prelude
  imports Main "HOL-Library.Word"
begin

unbundle bit_operations_syntax

text \<open>
  What the components share: the widths of the C types the agent uses, the outcome of running
  a piece of C (a value, undefined behaviour, or the end of the process), memory blocks with
  their bounds and their life time, and \<open>size_t\<close> arithmetic with its wrap-around.
\<close>

section \<open>Machine integers\<close>

text \<open>
  \<open>int\<close> and \<open>jint\<close> are 32 bits wide, \<open>long\<close>, \<open>long long\<close>, \<open>jlong\<close>, \<open>time_t\<close> and
  \<open>int_fast64_t\<close> 64 bits (the LP64 model of the Linux and macOS builds). Arithmetic on them
  is two's complement; \<open>sint\<close> reads the value. A \<open>size_t\<close> is a natural number below
  \<open>2 ^ 64\<close> whose subtraction and addition wrap around, written out below.
\<close>

type_synonym c_int = "32 word"
type_synonym c_uint = "32 word"
type_synonym c_long = "64 word"
type_synonym size_t = nat

abbreviation SIZE_RANGE :: nat where
  "SIZE_RANGE \<equiv> 18446744073709551616"

definition size_add :: "size_t \<Rightarrow> size_t \<Rightarrow> size_t" where
  "size_add a b = (a + b) mod SIZE_RANGE"

definition size_sub :: "size_t \<Rightarrow> size_t \<Rightarrow> size_t" where
  "size_sub a b = (if b \<le> a then a - b else SIZE_RANGE + a - b)"

text \<open>The value \<open>(size_t) -1\<close> that the code uses for "not found".\<close>

definition SIZE_NOT_FOUND :: size_t where
  "SIZE_NOT_FOUND = SIZE_RANGE - 1"

named_theorems size_simps \<open>size_t arithmetic that does not wrap around\<close>

lemma size_add_small [size_simps]: "a + b < SIZE_RANGE \<Longrightarrow> size_add a b = a + b"
  by (simp add: size_add_def)

lemma size_sub_small [size_simps]: "b \<le> a \<Longrightarrow> size_sub a b = a - b"
  by (simp add: size_sub_def)

text \<open>Sign extension keeps the value, as the conversion from \<open>int\<close> to \<open>long\<close> does.\<close>

abbreviation long_of_int :: "c_int \<Rightarrow> c_long" where
  "long_of_int \<equiv> scast"

lemma sint_range32: "- 2147483648 \<le> sint (x :: c_int)" "sint (x :: c_int) < 2147483648"
  using sint_ge [of x] sint_lt [of x] by simp_all

lemma sint_range64:
  "- 9223372036854775808 \<le> sint (x :: c_long)" "sint (x :: c_long) < 9223372036854775808"
  using sint_ge [of x] sint_lt [of x] by simp_all

lemma sint_of_int64:
  assumes "- 9223372036854775808 \<le> k" and "k < 9223372036854775808"
  shows "sint (word_of_int k :: c_long) = k"
  using assms by (simp add: sint_sbintrunc' signed_take_bit_int_eq_self)

lemma sint_of_int32:
  assumes "- 2147483648 \<le> k" and "k < 2147483648"
  shows "sint (word_of_int k :: c_int) = k"
  using assms by (simp add: sint_sbintrunc' signed_take_bit_int_eq_self)

lemma sint_of_nat32: "n < 2147483648 \<Longrightarrow> sint (of_nat n :: c_int) = int n"
  using sint_of_int32 [of "int n"] by simp

lemma sint_inc:
  assumes "sint (x :: c_int) < 2147483647"
  shows "sint (x + 1) = sint x + 1"
proof -
  have "x + 1 = word_of_int (sint x + 1)"
    by (simp only: of_int_add) simp
  then show ?thesis
    using assms sint_range32 [of x] sint_of_int32 [of "sint x + 1"] by simp
qed

lemma sint_Suc32: "sint (x :: c_int) = int n \<Longrightarrow> n < 2147483647 \<Longrightarrow> sint (x + 1) = int n + 1"
  by (simp add: sint_inc)

text \<open>The counter of a loop that runs up to a limit, or down to zero.\<close>

lemma sint_inc_below:
  "sint (x :: c_int) < sint (y :: c_int) \<Longrightarrow> sint (x + 1) = sint x + 1"
  using sint_range32 [of y] by (intro sint_inc) simp

lemma sint_dec:
  assumes "0 < sint (x :: c_int)"
  shows "sint (x - 1) = sint x - 1"
proof -
  have "x - 1 = word_of_int (sint x - 1)"
    by (simp only: of_int_diff) simp
  then show ?thesis
    using assms sint_range32 [of x] sint_of_int32 [of "sint x - 1"] by simp
qed

lemma sint_long_of_int [simp]: "sint (long_of_int x) = sint x"
proof -
  have "sint (word_of_int (sint x) :: c_long) = sint x"
    using sint_range32 [of x] by (intro sint_of_int64) simp_all
  then show ?thesis by simp
qed

text \<open>Division truncates towards zero.\<close>

definition c_sdiv :: "c_long \<Rightarrow> c_long \<Rightarrow> c_long" where
  "c_sdiv a b =
    word_of_int (sgn (sint a) * sgn (sint b) * (\<bar>sint a\<bar> div \<bar>sint b\<bar>))"

section \<open>Running C code\<close>

text \<open>
  Undefined behaviour is a value of the model. \<open>NullDeref\<close> is a use of a null pointer,
  \<open>OutOfBounds\<close> an access outside a block, \<open>Indeterminate\<close> a read of memory never written or
  of a block that was freed, \<open>BadFree\<close> a \<open>free\<close> of such a pointer, \<open>AssertionFailed\<close> a false
  \<open>assert\<close>. \<open>Exit\<close> is a call of \<open>exit(1)\<close>, \<open>Hang\<close> a loop that never ends.
\<close>

datatype fault = NullDeref | OutOfBounds | Indeterminate | BadFree | AssertionFailed

datatype 'a outcome = Done 'a | Fault fault | Exit | Hang

fun obind :: "'a outcome \<Rightarrow> ('a \<Rightarrow> 'b outcome) \<Rightarrow> 'b outcome" where
  "obind (Done x) f = f x"
| "obind (Fault e) f = Fault e"
| "obind Exit f = Exit"
| "obind Hang f = Hang"

fun_cases obind_DoneE: "obind m f = Done y"

lemma obind_Done_iff: "obind m f = Done y \<longleftrightarrow> (\<exists>x. m = Done x \<and> f x = Done y)"
  by (cases m) auto

lemma obind_cong [fundef_cong]:
  "m = n \<Longrightarrow> (\<And>x. n = Done x \<Longrightarrow> f x = g x) \<Longrightarrow> obind m f = obind n g"
  by (cases n) auto

lemma obind_assoc: "obind (obind m f) g = obind m (\<lambda>x. obind (f x) g)"
  by (cases m) auto

lemma obind_Done_right [simp]: "obind m Done = m"
  by (cases m) auto

text \<open>
  Two judgements on an outcome. \<open>returns m Q\<close>: the code returns, and with a value that
  satisfies \<open>Q\<close>. \<open>safe quits m Q\<close>: the same, except that the code may instead end the process
  with \<open>exit\<close> when \<open>quits\<close> holds; undefined behaviour and endless loops are ruled out by both.
\<close>

definition returns :: "'a outcome \<Rightarrow> ('a \<Rightarrow> bool) \<Rightarrow> bool" where
  "returns m Q = (case m of Done x \<Rightarrow> Q x | _ \<Rightarrow> False)"

definition safe :: "bool \<Rightarrow> 'a outcome \<Rightarrow> ('a \<Rightarrow> bool) \<Rightarrow> bool" where
  "safe quits m Q = (case m of Done x \<Rightarrow> Q x | Exit \<Rightarrow> quits | _ \<Rightarrow> False)"

lemma returns_simps [simp]:
  "returns (Done x) Q = Q x" "returns (Fault e) Q = False" "returns Exit Q = False"
  "returns Hang Q = False"
  by (simp_all add: returns_def)

lemma safe_simps [simp]:
  "safe quits (Done x) Q = Q x" "safe quits (Fault e) Q = False" "safe quits Exit Q = quits"
  "safe quits Hang Q = False"
  by (simp_all add: safe_def)

lemma returns_bind: "returns (obind m f) Q = returns m (\<lambda>x. returns (f x) Q)"
  by (cases m) simp_all

lemma safe_bind: "safe quits (obind m f) Q = safe quits m (\<lambda>x. safe quits (f x) Q)"
  by (cases m) simp_all

lemma returns_iff: "returns m Q \<longleftrightarrow> (\<exists>x. m = Done x \<and> Q x)"
  by (cases m) auto

lemma returns_mono: "returns m P \<Longrightarrow> (\<And>x. P x \<Longrightarrow> Q x) \<Longrightarrow> returns m Q"
  by (cases m) auto

lemma safe_mono: "safe quits m P \<Longrightarrow> (\<And>x. P x \<Longrightarrow> Q x) \<Longrightarrow> safe quits m Q"
  by (cases m) auto

lemma safe_quits: "safe quits m Q \<Longrightarrow> (quits \<Longrightarrow> quits') \<Longrightarrow> safe quits' m Q"
  by (cases m) auto

lemma safe_returns: "safe False m Q = returns m Q"
  by (cases m) auto

lemma returns_safe: "returns m Q \<Longrightarrow> safe quits m Q"
  by (cases m) auto

section \<open>Memory blocks\<close>

text \<open>
  A pointer to a block that belongs to one structure. \<open>Indet\<close> is a pointer never assigned or
  a block already freed, \<open>Null\<close> the null pointer, \<open>Buf xs\<close> a live block of \<open>length xs\<close> cells.
\<close>

datatype 'a buf = Indet | Null | Buf "'a list"

fun buf_get :: "'a buf \<Rightarrow> size_t \<Rightarrow> 'a outcome" where
  "buf_get Indet i = Fault Indeterminate"
| "buf_get Null i = Fault NullDeref"
| "buf_get (Buf xs) i = (if i < length xs then Done (xs ! i) else Fault OutOfBounds)"

fun buf_set :: "'a buf \<Rightarrow> size_t \<Rightarrow> 'a \<Rightarrow> 'a buf outcome" where
  "buf_set Indet i x = Fault Indeterminate"
| "buf_set Null i x = Fault NullDeref"
| "buf_set (Buf xs) i x = (if i < length xs then Done (Buf (xs[i := x])) else Fault OutOfBounds)"

fun buf_free :: "'a buf \<Rightarrow> 'a buf outcome" where
  "buf_free Indet = Fault BadFree"
| "buf_free Null = Done Null"
| "buf_free (Buf xs) = Done Indet"

text \<open>
  \<open>realloc\<close> of a block: the cells up to the smaller size are kept, new cells hold \<open>fill\<close>
  (what the model writes for memory that was never written). Only called where the library
  reports success; its failure leaves the block as it is and is a branch of the caller.
\<close>

fun buf_realloc :: "'a \<Rightarrow> 'a buf \<Rightarrow> size_t \<Rightarrow> 'a buf outcome" where
  "buf_realloc fill Indet n = Fault BadFree"
| "buf_realloc fill Null n = Done (Buf (replicate n fill))"
| "buf_realloc fill (Buf xs) n = Done (Buf (take n xs @ replicate (n - length xs) fill))"

fun cells :: "'a buf \<Rightarrow> 'a list" where
  "cells (Buf xs) = xs"
| "cells _ = []"

fun is_live :: "'a buf \<Rightarrow> bool" where
  "is_live (Buf xs) = True"
| "is_live _ = False"

lemma is_live_iff: "is_live b \<longleftrightarrow> (\<exists>xs. b = Buf xs)"
  by (cases b) auto

lemma buf_get_cells [simp]: "i < length (cells b) \<Longrightarrow> buf_get b i = Done (cells b ! i)"
  by (cases b) auto

lemma buf_set_cells: "i < length (cells b) \<Longrightarrow> buf_set b i x = Done (Buf ((cells b)[i := x]))"
  by (cases b) auto

lemma buf_set_Done_iff:
  "buf_set b i x = Done b' \<longleftrightarrow> i < length (cells b) \<and> b' = Buf ((cells b)[i := x])"
  by (cases b) auto

lemma buf_realloc_cells:
  "b \<noteq> Indet \<Longrightarrow> buf_realloc fill b n =
    Done (Buf (take n (cells b) @ replicate (n - length (cells b)) fill))"
  by (cases b) auto

section \<open>Lists\<close>

text \<open>The index of the first element that satisfies a predicate, or the length.\<close>

fun first_index :: "('a \<Rightarrow> bool) \<Rightarrow> 'a list \<Rightarrow> nat" where
  "first_index p [] = 0"
| "first_index p (x # xs) = (if p x then 0 else Suc (first_index p xs))"

lemma first_index_le: "first_index p xs \<le> length xs"
  by (induction xs) auto

lemma first_index_less: "first_index p xs < length xs \<longleftrightarrow> (\<exists>x \<in> set xs. p x)"
  by (induction xs) auto

lemma first_index_hit: "first_index p xs < length xs \<Longrightarrow> p (xs ! first_index p xs)"
  by (induction xs) auto

lemma first_index_before: "i < first_index p xs \<Longrightarrow> \<not> p (xs ! i)"
proof (induction xs arbitrary: i)
  case Nil
  then show ?case by simp
next
  case (Cons x xs)
  then show ?case by (cases i) (auto split: if_splits)
qed

end
