(* ===== verification/Platform.thy ===== *)
theory Platform
  imports Prelude
begin

text \<open>
  The data that crosses component borders (\<open>ubench.h\<close>), and everything the agent calls that is
  not part of the repository: the C library and the operating system, PAPI, the JNI and JVMTI
  functions of the virtual machine. The latter is one record, \<open>platform\<close>, passed to every
  definition that uses it; each of its functions reads and updates an abstract environment
  of type \<open>'w\<close>, so clocks advance, allocations fail and libraries keep state as they like.
\<close>

section \<open>Time stamps and resource usage\<close>

record timespec =
  ts_sec :: c_long
  ts_nsec :: c_long

record timeval =
  tv_sec :: c_long
  tv_usec :: c_long

record rusage =
  ru_utime :: timeval
  ru_stime :: timeval
  ru_nivcsw :: c_long

text \<open>
  The two typedefs of \<open>ubench.h\<close> choose one of three types by build flags. The model carries
  one member for each choice; a build reads and writes its own member only.
\<close>

record timestamp_t =
  stamp_timespec :: timespec
  stamp_quad :: c_long
  stamp_int :: c_int

record threadtime_t =
  thread_timespec :: timespec
  thread_kernel :: c_long
  thread_user :: c_long
  thread_int :: c_int

section \<open>Snapshots\<close>

definition UBENCH_MAX_PAPI_EVENTS :: nat where
  "UBENCH_MAX_PAPI_EVENTS = 20"

definition UBENCH_SNAPSHOT_TYPE_START :: c_int where
  "UBENCH_SNAPSHOT_TYPE_START = - 1"

definition UBENCH_SNAPSHOT_TYPE_END :: c_int where
  "UBENCH_SNAPSHOT_TYPE_END = - 2"

record ubench_events_snapshot_t =
  timestamp :: timestamp_t
  threadtime :: threadtime_t
  resource_usage :: rusage
  compilations :: c_long
  garbage_collections :: c_int
  papi_events :: "c_long list"
  papi_rc1 :: c_int
  papi_rc2 :: c_int
  snap_type :: c_int

type_synonym snapshot = ubench_events_snapshot_t

text \<open>A snapshot as \<open>calloc\<close> leaves it: every byte zero.\<close>

definition zero_timespec :: timespec where
  "zero_timespec = \<lparr>ts_sec = 0, ts_nsec = 0\<rparr>"

definition zero_timeval :: timeval where
  "zero_timeval = \<lparr>tv_sec = 0, tv_usec = 0\<rparr>"

definition zero_snapshot :: ubench_events_snapshot_t where
  "zero_snapshot =
    \<lparr>timestamp = \<lparr>stamp_timespec = zero_timespec, stamp_quad = 0, stamp_int = 0\<rparr>,
     threadtime =
       \<lparr>thread_timespec = zero_timespec, thread_kernel = 0, thread_user = 0, thread_int = 0\<rparr>,
     resource_usage =
       \<lparr>ru_utime = zero_timeval, ru_stime = zero_timeval, ru_nivcsw = 0\<rparr>,
     compilations = 0, garbage_collections = 0,
     papi_events = replicate UBENCH_MAX_PAPI_EVENTS 0,
     papi_rc1 = 0, papi_rc2 = 0, snap_type = 0\<rparr>"

section \<open>Event backends\<close>

definition UBENCH_EVENT_BACKEND_RESOURCE_USAGE :: c_uint where
  "UBENCH_EVENT_BACKEND_RESOURCE_USAGE = 2"

definition UBENCH_EVENT_BACKEND_PAPI :: c_uint where
  "UBENCH_EVENT_BACKEND_PAPI = 4"

definition UBENCH_EVENT_BACKEND_SYS_WALLCLOCK :: c_uint where
  "UBENCH_EVENT_BACKEND_SYS_WALLCLOCK = 8"

definition UBENCH_EVENT_BACKEND_JVM_COMPILATIONS :: c_uint where
  "UBENCH_EVENT_BACKEND_JVM_COMPILATIONS = 16"

definition UBENCH_EVENT_BACKEND_SYS_THREADTIME :: c_uint where
  "UBENCH_EVENT_BACKEND_SYS_THREADTIME = 32"

lemmas backend_defs =
  UBENCH_EVENT_BACKEND_RESOURCE_USAGE_def UBENCH_EVENT_BACKEND_PAPI_def
  UBENCH_EVENT_BACKEND_SYS_WALLCLOCK_def UBENCH_EVENT_BACKEND_JVM_COMPILATIONS_def
  UBENCH_EVENT_BACKEND_SYS_THREADTIME_def

text \<open>The test \<open>(used_backends & bit) > 0\<close> of the code.\<close>

abbreviation uses_backend :: "c_uint \<Rightarrow> c_uint \<Rightarrow> bool" where
  "uses_backend backends flag \<equiv> 0 < backends AND flag"

section \<open>Event descriptions\<close>

text \<open>
  The two function pointers of an event description point to one of the getters of \<open>events.c\<close>;
  the model names the getter, \<open>None\<close> is a null pointer. One tag stands for the pair
  \<open>getter_X\<close> and \<open>getter_raw_X\<close>.
\<close>

datatype getter =
    WallClockTime
  | ThreadTime
  | JvmCompilations
  | ContextSwitchForced
  | ThreadTimeRusage
  | Papi

record ubench_event_info_t =
  backend :: c_uint
  event_id :: c_int
  event_papi_component :: c_int
  papi_index :: size_t
  op_get_raw :: "getter option"
  op_get :: "getter option"
  event_name :: "string option"

definition zero_event_info :: ubench_event_info_t where
  "zero_event_info =
    \<lparr>backend = 0, event_id = 0, event_papi_component = 0, papi_index = 0,
     op_get_raw = None, op_get = None, event_name = None\<rparr>"

section \<open>The configuration of one event set\<close>

text \<open>
  \<open>used_events\<close> and \<open>data\<close> own the two blocks a configuration allocates. The array
  \<open>used_papi_events\<close> has \<open>UBENCH_MAX_PAPI_EVENTS\<close> cells of which the code writes a prefix;
  the model holds that prefix, whose length is \<open>used_papi_events_count\<close>.
\<close>

record benchmark_configuration_t =
  used_backends :: c_uint
  used_events :: "ubench_event_info_t buf"
  used_events_count :: size_t
  used_papi_events :: "c_int list"
  papi_eventset :: c_int
  papi_component :: c_int
  data :: "ubench_events_snapshot_t buf"
  data_size :: size_t
  data_index :: size_t

abbreviation used_papi_events_count :: "benchmark_configuration_t \<Rightarrow> size_t" where
  "used_papi_events_count c \<equiv> length (used_papi_events c)"

section \<open>JVMTI contexts\<close>

datatype jvmti_event =
    JVMTI_EVENT_VM_INIT
  | JVMTI_EVENT_THREAD_START
  | JVMTI_EVENT_THREAD_END
  | JVMTI_EVENT_COMPILED_METHOD_LOAD
  | JVMTI_EVENT_GARBAGE_COLLECTION_FINISH

datatype jvmti_callback =
    On_vm_init
  | On_thread_start
  | On_thread_end
  | On_compiled_method_load
  | On_garbage_collection_finish

record jvmti_capabilities =
  can_generate_compiled_method_load_events :: bool
  can_generate_garbage_collection_events :: bool

type_synonym jvmti_env = nat

section \<open>The platform\<close>

type_synonym ('w, 'r) ext = "'w \<Rightarrow> 'r \<times> 'w"

text \<open>First the build flags and the C library.\<close>

record 'w c_platform =
  HAS_PAPI :: bool
  HAS_GETRUSAGE :: bool
  HAS_TIMESPEC :: bool
  HAS_QUERY_PERFORMANCE_COUNTER :: bool
  HAS_GET_THREAD_TIMES :: bool
  MSC_VER :: bool
  APPLE :: bool
  UNIX :: bool
  malloc_ok :: "('w, bool) ext"
  clock_monotonic :: "('w, timespec option) ext"
  clock_thread_cputime :: "('w, timespec option) ext"
  query_performance_counter :: "('w, c_long) ext"
  query_performance_frequency :: "('w, c_long) ext"
  get_thread_times :: "('w, c_long \<times> c_long) ext"
  getrusage_thread :: "('w, rusage option) ext"
  getrusage_self :: "('w, rusage option) ext"
  syscall_gettid :: "('w, c_int) ext"
  GetCurrentThreadId :: "('w, c_uint) ext"
  pthread_self :: "('w, c_long) ext"

text \<open>
  The PAPI library. Functions return their status code and, where they have one, the value
  they store through a pointer; \<open>PAPI_read\<close> and \<open>PAPI_stop\<close> return the values they write to the
  front of the array they are given, one for each event of the set.
\<close>

record 'w papi_platform = "'w c_platform" +
  PAPI_OK :: c_int
  PAPI_NULL :: c_int
  PAPI_VER_CURRENT :: c_int
  PAPI_PRESET_MASK :: c_int
  PAPI_NATIVE_MASK :: c_int
  IS_PRESET :: "c_int \<Rightarrow> bool"
  PAPI_strerror :: "c_int \<Rightarrow> string"
  PAPI_library_init :: "('w, c_int) ext"
  PAPI_thread_init :: "('w, c_int) ext"
  PAPI_event_name_to_code :: "string \<Rightarrow> ('w, c_int \<times> c_int) ext"
  PAPI_get_event_info :: "c_int \<Rightarrow> ('w, c_int \<times> c_uint \<times> c_int) ext"
  PAPI_event_code_to_name :: "c_int \<Rightarrow> ('w, c_int \<times> string) ext"
  PAPI_enum_first :: "c_int \<Rightarrow> ('w, c_int \<times> c_int) ext"
  PAPI_enum_preset_avail :: "c_int \<Rightarrow> ('w, c_int \<times> c_int) ext"
  PAPI_num_components :: "('w, c_int) ext"
  PAPI_enum_cmp_first :: "c_int \<Rightarrow> c_int \<Rightarrow> ('w, c_int \<times> c_int) ext"
  PAPI_enum_cmp_events :: "c_int \<Rightarrow> c_int \<Rightarrow> ('w, c_int \<times> c_int) ext"
  PAPI_create_eventset :: "c_int \<Rightarrow> ('w, c_int \<times> c_int) ext"
  PAPI_assign_eventset_component :: "c_int \<Rightarrow> c_int \<Rightarrow> ('w, c_int) ext"
  PAPI_set_opt_inherit_all :: "c_int \<Rightarrow> ('w, c_int) ext"
  PAPI_add_event :: "c_int \<Rightarrow> c_int \<Rightarrow> ('w, c_int) ext"
  PAPI_attach :: "c_int \<Rightarrow> c_long \<Rightarrow> ('w, c_int) ext"
  PAPI_start :: "c_int \<Rightarrow> ('w, c_int) ext"
  PAPI_read :: "c_int \<Rightarrow> ('w, c_int \<times> c_long list) ext"
  PAPI_stop :: "c_int \<Rightarrow> ('w, c_int \<times> c_long list) ext"

text \<open>
  The virtual machine. A function that returns a reference or an identifier returns whether
  it is not null; \<open>None\<close> is a null string or array. The Java arrays and strings passed to a
  native method are the lists and strings themselves.
\<close>

record 'w platform = "'w papi_platform" +
  JNI_OK :: c_int
  JNI_ERR :: c_int
  JNI_VERSION_1_8 :: c_int
  JVMTI_ERROR_NONE :: c_int
  jni_FindClass :: "string \<Rightarrow> ('w, bool) ext"
  jni_GetMethodID :: "string \<Rightarrow> string \<Rightarrow> string \<Rightarrow> ('w, bool) ext"
  jni_NewObject :: "string \<Rightarrow> ('w, bool) ext"
  jni_NewObjectArray :: "size_t \<Rightarrow> ('w, bool) ext"
  jni_NewLongArray :: "size_t \<Rightarrow> ('w, bool) ext"
  jni_NewStringUTF :: "string option \<Rightarrow> ('w, string option) ext"
  jni_GetStringUTFChars :: "string \<Rightarrow> ('w, string option) ext"
  jni_GetIntArrayElements :: "c_int list \<Rightarrow> ('w, bool) ext"
  jni_Thread_getId :: "('w, c_long) ext"
  jni_GetJavaVM :: "('w, c_int) ext"
  jvm_GetEnv_jni :: "('w, c_int) ext"
  jvm_GetEnv_jvmti :: "('w, c_int \<times> jvmti_env) ext"
  jvmti_AddCapabilities :: "jvmti_env \<Rightarrow> jvmti_capabilities \<Rightarrow> ('w, c_int) ext"
  jvmti_SetEventNotificationMode_enable :: "jvmti_env \<Rightarrow> jvmti_event \<Rightarrow> ('w, c_int) ext"
  jvmti_SetEventCallbacks ::
    "jvmti_env \<Rightarrow> (jvmti_event \<times> jvmti_callback) list \<Rightarrow> ('w, c_int) ext"
  jvmti_DisposeEnvironment :: "jvmti_env \<Rightarrow> ('w, c_int) ext"

text \<open>Memory never runs out.\<close>

definition memory_suffices :: "('w, 'x) c_platform_scheme \<Rightarrow> bool" where
  "memory_suffices P \<longleftrightarrow> (\<forall>w. fst (malloc_ok P w))"

end
