(* ===== verification/SamplePlatform.thy ===== *)
theory SamplePlatform
  imports Platform
begin

text \<open>
  A concrete platform for the examples of the other theories: a Linux build with PAPI whose
  environment is a counter. Every call that looks at the environment advances it, so the clocks
  and the PAPI counters grow; all calls succeed; two PAPI events and two components exist.
\<close>

fun sample_event_code :: "string \<Rightarrow> nat \<Rightarrow> (c_int \<times> c_int) \<times> nat" where
  "sample_event_code name w =
    (if name = ''PAPI_TOT_INS'' then ((0, 50), w)
     else if name = ''PAPI_L1_DCM'' then ((0, 51), w)
     else if name = ''rapl:ENERGY'' then ((0, 52), w)
     else ((- 7, 0), w))"

definition sample_event_name :: "c_int \<Rightarrow> c_int \<times> string" where
  "sample_event_name c =
    (if c = 50 then (0, ''PAPI_TOT_INS'') else if c = 51 then (0, ''PAPI_L1_DCM'')
     else if c = 52 then (0, ''rapl:ENERGY'') else (- 14, []))"

definition sample_platform :: "nat platform" where
  "sample_platform =
    \<lparr>HAS_PAPI = True, HAS_GETRUSAGE = True, HAS_TIMESPEC = True,
     HAS_QUERY_PERFORMANCE_COUNTER = False, HAS_GET_THREAD_TIMES = False,
     MSC_VER = False, APPLE = False, UNIX = True,
     malloc_ok = (\<lambda>w. (True, w)),
     clock_monotonic = (\<lambda>w. (Some \<lparr>ts_sec = 1, ts_nsec = of_nat (100 * w)\<rparr>, w + 1)),
     clock_thread_cputime = (\<lambda>w. (Some \<lparr>ts_sec = 0, ts_nsec = of_nat (10 * w)\<rparr>, w + 1)),
     query_performance_counter = (\<lambda>w. (of_nat w, w + 1)),
     query_performance_frequency = (\<lambda>w. (1000, w)),
     get_thread_times = (\<lambda>w. ((of_nat w, of_nat w), w + 1)),
     getrusage_thread = (\<lambda>w. (Some
       \<lparr>ru_utime = \<lparr>tv_sec = 0, tv_usec = of_nat w\<rparr>, ru_stime = \<lparr>tv_sec = 0, tv_usec = 0\<rparr>,
        ru_nivcsw = of_nat w\<rparr>, w + 1)),
     getrusage_self = (\<lambda>w. (Some
       \<lparr>ru_utime = \<lparr>tv_sec = 0, tv_usec = of_nat w\<rparr>, ru_stime = \<lparr>tv_sec = 0, tv_usec = 0\<rparr>,
        ru_nivcsw = of_nat w\<rparr>, w + 1)),
     syscall_gettid = (\<lambda>w. (of_nat (1000 + w), w)),
     GetCurrentThreadId = (\<lambda>w. (of_nat (1000 + w), w)),
     pthread_self = (\<lambda>w. (of_nat (1000 + w), w)),
     PAPI_OK = 0, PAPI_NULL = - 1, PAPI_VER_CURRENT = 5,
     PAPI_PRESET_MASK = 128, PAPI_NATIVE_MASK = 64,
     IS_PRESET = (\<lambda>c. False),
     PAPI_strerror = (\<lambda>rc. ''error''),
     PAPI_library_init = (\<lambda>w. (5, w)),
     PAPI_thread_init = (\<lambda>w. (0, w)),
     PAPI_event_name_to_code = sample_event_code,
     PAPI_get_event_info = (\<lambda>c w. ((0, 1, if c = 52 then 1 else 0), w)),
     PAPI_event_code_to_name = (\<lambda>c w. (sample_event_name c, w)),
     PAPI_enum_first = (\<lambda>c w. ((0, 50), w)),
     PAPI_enum_preset_avail = (\<lambda>c w. ((if c = 50 then 0 else - 7, c + 1), w)),
     PAPI_num_components = (\<lambda>w. (0, w)),
     PAPI_enum_cmp_first = (\<lambda>c k w. ((- 7, c), w)),
     PAPI_enum_cmp_events = (\<lambda>c k w. ((- 7, c), w)),
     PAPI_create_eventset = (\<lambda>h w. ((0, of_nat w), w + 1)),
     PAPI_assign_eventset_component = (\<lambda>h k w. (0, w)),
     PAPI_set_opt_inherit_all = (\<lambda>h w. (0, w)),
     PAPI_add_event = (\<lambda>h e w. (0, w)),
     PAPI_attach = (\<lambda>h t w. (0, w)),
     PAPI_start = (\<lambda>h w. (0, w)),
     PAPI_read = (\<lambda>h w. ((0, [of_nat (7 * w)]), w + 1)),
     PAPI_stop = (\<lambda>h w. ((0, [of_nat (7 * w)]), w + 1)),
     JNI_OK = 0, JNI_ERR = - 1, JNI_VERSION_1_8 = 65544, JVMTI_ERROR_NONE = 0,
     jni_FindClass = (\<lambda>c w. (True, w)),
     jni_GetMethodID = (\<lambda>c m s w. (True, w)),
     jni_NewObject = (\<lambda>c w. (True, w)),
     jni_NewObjectArray = (\<lambda>n w. (True, w)),
     jni_NewLongArray = (\<lambda>n w. (True, w)),
     jni_NewStringUTF = (\<lambda>s w. (s, w)),
     jni_GetStringUTFChars = (\<lambda>s w. (Some s, w)),
     jni_GetIntArrayElements = (\<lambda>xs w. (True, w)),
     jni_Thread_getId = (\<lambda>w. (of_nat w, w)),
     jni_GetJavaVM = (\<lambda>w. (0, w)),
     jvm_GetEnv_jni = (\<lambda>w. (0, w)),
     jvm_GetEnv_jvmti = (\<lambda>w. ((0, w), w + 1)),
     jvmti_AddCapabilities = (\<lambda>e c w. (0, w)),
     jvmti_SetEventNotificationMode_enable = (\<lambda>e v w. (0, w)),
     jvmti_SetEventCallbacks = (\<lambda>e cs w. (0, w)),
     jvmti_DisposeEnvironment = (\<lambda>e w. (0, w))\<rparr>"

end
