(* ===== verification/Counters.thy ===== *)
theory Counters
  imports SamplePlatform
begin

text \<open>
  The atomic integers of \<open>myatomic.h\<close> and the three counters of \<open>counter.c\<close>, which the virtual
  machine's callbacks advance and Java reads.
\<close>

section \<open>Atomic integers\<close>

record ubench_atomic_int_t =
  atomic_value :: c_int

definition ubench_atomic_int_get :: "ubench_atomic_int_t \<Rightarrow> c_int" where
  "ubench_atomic_int_get a = atomic_value a"

text \<open>
  \<open>InterlockedIncrement\<close> returns the new value and the Windows build subtracts one;
  \<open>__sync_fetch_and_add\<close> returns the old value.
\<close>

definition ubench_atomic_int_inc ::
    "('w, 'x) c_platform_scheme \<Rightarrow> ubench_atomic_int_t \<Rightarrow> c_int \<times> ubench_atomic_int_t" where
  "ubench_atomic_int_inc P a =
    (if MSC_VER P
     then let new = atomic_value a + 1 in (new - 1, a\<lparr>atomic_value := new\<rparr>)
     else (atomic_value a, a\<lparr>atomic_value := atomic_value a + 1\<rparr>))"

definition ubench_atomic_int_reset ::
    "ubench_atomic_int_t \<Rightarrow> c_int \<times> ubench_atomic_int_t" where
  "ubench_atomic_int_reset a = (atomic_value a, a\<lparr>atomic_value := atomic_value a AND 0\<rparr>)"

text \<open>
  What a client of an atomic counter relies on. \<open>counts\<close> is the number of increments since the
  last reset that the counter stands for.
\<close>

locale atomic_counter =
  fixes get :: "'a \<Rightarrow> c_int"
    and inc :: "'a \<Rightarrow> c_int \<times> 'a"
    and reset :: "'a \<Rightarrow> c_int \<times> 'a"
  assumes inc_law: "fst (inc a) = get a" "get (snd (inc a)) = get a + 1"
    and reset_law: "fst (reset a) = get a" "get (snd (reset a)) = 0"
begin

definition counts :: "'a \<Rightarrow> nat \<Rightarrow> bool" where
  "counts a n \<longleftrightarrow> get a = of_nat n"

lemma counts_inc: "counts a n \<Longrightarrow> counts (snd (inc a)) (Suc n)"
  by (simp add: counts_def inc_law)

lemma counts_reset: "counts a n \<Longrightarrow> fst (reset a) = of_nat n \<and> counts (snd (reset a)) 0"
  by (simp add: counts_def reset_law)

lemma counts_exact: "counts a n \<Longrightarrow> n < 2147483648 \<Longrightarrow> sint (get a) = int n"
  using sint_of_int32 [of "int n"] by (simp add: counts_def)

end

interpretation counter: atomic_counter
  ubench_atomic_int_get "ubench_atomic_int_inc P" ubench_atomic_int_reset for P
  by unfold_locales
     (simp_all add: ubench_atomic_int_get_def ubench_atomic_int_inc_def
       ubench_atomic_int_reset_def Let_def)

section \<open>The counters of the agent\<close>

record counters =
  counter_compilation :: ubench_atomic_int_t
  counter_compilation_total :: ubench_atomic_int_t
  counter_gc_total :: ubench_atomic_int_t

definition initial_counters :: counters where
  "initial_counters =
    \<lparr>counter_compilation = \<lparr>atomic_value = 0\<rparr>, counter_compilation_total = \<lparr>atomic_value = 0\<rparr>,
     counter_gc_total = \<lparr>atomic_value = 0\<rparr>\<rparr>"

definition jvmti_callback_on_compiled_method_load ::
    "('w, 'x) c_platform_scheme \<Rightarrow> counters \<Rightarrow> counters" where
  "jvmti_callback_on_compiled_method_load P c =
    (let c1 = c\<lparr>counter_compilation := snd (ubench_atomic_int_inc P (counter_compilation c))\<rparr> in
     c1\<lparr>counter_compilation_total :=
       snd (ubench_atomic_int_inc P (counter_compilation_total c1))\<rparr>)"

definition jvmti_callback_on_garbage_collection_finish ::
    "('w, 'x) c_platform_scheme \<Rightarrow> counters \<Rightarrow> counters" where
  "jvmti_callback_on_garbage_collection_finish P c =
    c\<lparr>counter_gc_total := snd (ubench_atomic_int_inc P (counter_gc_total c))\<rparr>"

definition CompilationCounter_getCompilationCountAndReset :: "counters \<Rightarrow> c_int \<times> counters" where
  "CompilationCounter_getCompilationCountAndReset c =
    (case ubench_atomic_int_reset (counter_compilation c) of
       (old, a) \<Rightarrow> (old, c\<lparr>counter_compilation := a\<rparr>))"

text \<open>What happens to the counters over time, in any order, and the values Java got.\<close>

datatype counter_event = Method_compiled | Collection_finished | Count_requested

fun run_counters ::
    "('w, 'x) c_platform_scheme \<Rightarrow> counters \<Rightarrow> counter_event list \<Rightarrow> c_int list \<times> counters" where
  "run_counters P c [] = ([], c)"
| "run_counters P c (Method_compiled # es) =
     run_counters P (jvmti_callback_on_compiled_method_load P c) es"
| "run_counters P c (Collection_finished # es) =
     run_counters P (jvmti_callback_on_garbage_collection_finish P c) es"
| "run_counters P c (Count_requested # es) =
     (case CompilationCounter_getCompilationCountAndReset c of (n, c') \<Rightarrow>
      case run_counters P c' es of (ns, c'') \<Rightarrow> (n # ns, c''))"

lemma run_counters_counts:
  assumes "counter.counts (counter_compilation c) k"
    and "counter.counts (counter_compilation_total c) t"
    and "counter.counts (counter_gc_total c) g"
    and "run_counters P c es = (ns, c')"
  shows "\<exists>ks k'. ns = map of_nat ks \<and> counter.counts (counter_compilation c') k' \<and>
    sum_list ks + k' = k + count_list es Method_compiled \<and>
    counter.counts (counter_compilation_total c') (t + count_list es Method_compiled) \<and>
    counter.counts (counter_gc_total c') (g + count_list es Collection_finished)"
  using assms
proof (induction P c es arbitrary: k t g ns rule: run_counters.induct)
  case (1 P c)
  then show ?case
    by (intro exI [of _ "[]"] exI [of _ k]) auto
next
  case (2 P c es)
  then show ?case
    using "2.IH" [of "Suc k" "Suc t" g ns]
    by (simp add: jvmti_callback_on_compiled_method_load_def Let_def counter.counts_inc)
next
  case (3 P c es)
  then show ?case
    using "3.IH" [of k t "Suc g" ns]
    by (simp add: jvmti_callback_on_garbage_collection_finish_def counter.counts_inc)
next
  case (4 P c es)
  obtain n c1 where req: "CompilationCounter_getCompilationCountAndReset c = (n, c1)"
    by fastforce
  have c1: "n = of_nat k" "counter.counts (counter_compilation c1) 0"
    "counter_compilation_total c1 = counter_compilation_total c"
    "counter_gc_total c1 = counter_gc_total c"
    using counter.counts_reset [OF "4.prems"(1)] req
    by (auto simp: CompilationCounter_getCompilationCountAndReset_def split: prod.splits)
  obtain ms where ms: "run_counters P c1 es = (ms, c')" "ns = of_nat k # ms"
    using "4.prems"(4) req c1(1) by (auto split: prod.splits)
  from "4.IH" [OF req [symmetric] c1(2) _ _ ms(1), of t g] "4.prems"(2,3) c1(3,4)
  obtain ks k' where "ms = map of_nat ks" "counter.counts (counter_compilation c') k'"
    "sum_list ks + k' = 0 + count_list es Method_compiled"
    "counter.counts (counter_compilation_total c') (t + count_list es Method_compiled)"
    "counter.counts (counter_gc_total c') (g + count_list es Collection_finished)"
    by auto
  then show ?case
    using ms(2) by (intro exI [of _ "k # ks"] exI [of _ k']) simp
qed

text \<open>
  C34: However compilations, collections and requests interleave, every compilation is reported by
  exactly one request: up to \<open>2 ^ 31\<close> compilations, the values the requests returned and the
  value still in the counter add up to their number, and the two totals are exact.
\<close>

theorem compilations_reported_once:
  assumes "run_counters P initial_counters es = (ns, c)"
    and "count_list es Method_compiled < 2147483648"
    and "count_list es Collection_finished < 2147483648"
  shows "sum_list (map sint ns) + sint (ubench_atomic_int_get (counter_compilation c)) =
      int (count_list es Method_compiled) \<and>
    sint (ubench_atomic_int_get (counter_compilation_total c)) = int (count_list es Method_compiled) \<and>
    sint (ubench_atomic_int_get (counter_gc_total c)) = int (count_list es Collection_finished)"
proof -
  have zero: "counter.counts \<lparr>atomic_value = 0\<rparr> 0"
    by (simp add: counter.counts_def ubench_atomic_int_get_def)
  obtain ks k' where ks: "ns = map of_nat ks" "counter.counts (counter_compilation c) k'"
    "sum_list ks + k' = count_list es Method_compiled"
    "counter.counts (counter_compilation_total c) (count_list es Method_compiled)"
    "counter.counts (counter_gc_total c) (count_list es Collection_finished)"
    using run_counters_counts [OF _ _ _ assms(1), of 0 0 0] zero
    by (auto simp: initial_counters_def)
  have "sint (of_nat x :: c_int) = int x" if "x \<in> set ks" for x
    using member_le_sum_list [OF that] ks(3) assms(2) sint_of_int32 [of "int x"] by simp
  then have "sum_list (map sint ns) = int (sum_list ks)"
    unfolding ks(1) by (induction ks) simp_all
  moreover have "sint (ubench_atomic_int_get (counter_compilation c)) = int k'"
    using ks(2,3) assms(2) by (intro counter.counts_exact) simp_all
  ultimately show ?thesis
    using ks assms by (simp add: counter.counts_exact flip: of_nat_add)
qed

theorem compilations_reported_once_witness:
  "run_counters sample_platform initial_counters
      [Method_compiled, Method_compiled, Count_requested, Method_compiled, Count_requested] =
      ([2, 1], \<lparr>counter_compilation = \<lparr>atomic_value = 0\<rparr>,
        counter_compilation_total = \<lparr>atomic_value = 3\<rparr>, counter_gc_total = \<lparr>atomic_value = 0\<rparr>\<rparr>) \<and>
    sum_list (map sint [2 :: c_int, 1]) + sint (0 :: c_int) = 3"
proof -
  have run: "run_counters sample_platform initial_counters
      [Method_compiled, Method_compiled, Count_requested, Method_compiled, Count_requested] =
      ([2, 1], \<lparr>counter_compilation = \<lparr>atomic_value = 0\<rparr>,
        counter_compilation_total = \<lparr>atomic_value = 3\<rparr>, counter_gc_total = \<lparr>atomic_value = 0\<rparr>\<rparr>)"
    by (simp add: initial_counters_def jvmti_callback_on_compiled_method_load_def Let_def
      CompilationCounter_getCompilationCountAndReset_def ubench_atomic_int_inc_def
      ubench_atomic_int_reset_def sample_platform_def)
  from compilations_reported_once [OF run] show ?thesis
    using run by (simp add: ubench_atomic_int_get_def)
qed

end
