(* ===== verification/Getters.thy ===== *)
theory Getters
  imports SamplePlatform
begin

text \<open>
  The getters of \<open>events.c\<close> (lines 60 to 278): how a value is computed from one snapshot (raw) or
  from the snapshots at the start and the end of a measurement.
\<close>

section \<open>Time arithmetic\<close>

definition TIMESPEC_TO_NANOS :: "timespec \<Rightarrow> c_long" where
  "TIMESPEC_TO_NANOS val = ts_sec val * 1000 * 1000 * 1000 + ts_nsec val"

definition TIMEVAL_TO_MICROS :: "timeval \<Rightarrow> c_long" where
  "TIMEVAL_TO_MICROS val = tv_sec val * 1000 * 1000 + tv_usec val"

definition timespec_diff_ns :: "timespec \<Rightarrow> timespec \<Rightarrow> c_long" where
  "timespec_diff_ns a b =
    (let sec_diff = ts_sec b - ts_sec a; nanosec_diff = ts_nsec b - ts_nsec a in
     sec_diff * 1000 * 1000 * 1000 + nanosec_diff)"

definition timeval_diff_us :: "timeval \<Rightarrow> timeval \<Rightarrow> c_long" where
  "timeval_diff_us a b =
    (let sec_diff = tv_sec b - tv_sec a; usec_diff = tv_usec b - tv_usec a in
     sec_diff * 1000 * 1000 + usec_diff)"

text \<open>\<open>freq\<close> is the static \<open>windows_timer_frequency\<close>, used by the builds that have the counter.\<close>

definition timestamp_diff_ns ::
    "('w, 'x) c_platform_scheme \<Rightarrow> c_long \<Rightarrow> timestamp_t \<Rightarrow> timestamp_t \<Rightarrow> c_long" where
  "timestamp_diff_ns P freq a b =
    (if HAS_TIMESPEC P then timespec_diff_ns (stamp_timespec a) (stamp_timespec b)
     else if HAS_QUERY_PERFORMANCE_COUNTER P then
       if freq = 0 then - 1
       else c_sdiv ((stamp_quad b - stamp_quad a) * 1000 * 1000 * 1000) freq
     else long_of_int (stamp_int b - stamp_int a))"

definition filetime_diff_us :: "c_long \<Rightarrow> c_long \<Rightarrow> c_long" where
  "filetime_diff_us a b = (let result = b - a in c_sdiv result 10)"

definition filetime_us :: "c_long \<Rightarrow> c_long" where
  "filetime_us val = c_sdiv val 10"

section \<open>Getters\<close>

definition getter_wall_clock_time ::
    "('w, 'x) c_platform_scheme \<Rightarrow> c_long \<Rightarrow> snapshot \<Rightarrow> snapshot \<Rightarrow> c_long" where
  "getter_wall_clock_time P freq start end' =
    timestamp_diff_ns P freq (timestamp start) (timestamp end')"

definition getter_raw_wall_clock_time ::
    "('w, 'x) c_platform_scheme \<Rightarrow> c_long \<Rightarrow> snapshot \<Rightarrow> c_long" where
  "getter_raw_wall_clock_time P freq value =
    (if HAS_TIMESPEC P then TIMESPEC_TO_NANOS (stamp_timespec (timestamp value))
     else if HAS_QUERY_PERFORMANCE_COUNTER P then
       if freq = 0 then - 1
       else c_sdiv (stamp_quad (timestamp value) * 1000 * 1000 * 1000) freq
     else long_of_int (stamp_int (timestamp value)))"

definition getter_thread_time ::
    "('w, 'x) c_platform_scheme \<Rightarrow> snapshot \<Rightarrow> snapshot \<Rightarrow> c_long" where
  "getter_thread_time P start end' =
    (if HAS_TIMESPEC P then
       timespec_diff_ns (thread_timespec (threadtime start)) (thread_timespec (threadtime end'))
     else if HAS_GET_THREAD_TIMES P then
       let kernel_us = filetime_diff_us (thread_kernel (threadtime start)) (thread_kernel (threadtime end'));
           user_us = filetime_diff_us (thread_user (threadtime start)) (thread_user (threadtime end'))
       in (user_us + kernel_us) * 1000
     else 0)"

definition getter_raw_thread_time :: "('w, 'x) c_platform_scheme \<Rightarrow> snapshot \<Rightarrow> c_long" where
  "getter_raw_thread_time P value =
    (if HAS_TIMESPEC P then
       ts_sec (thread_timespec (threadtime value)) * 1000 * 1000 * 1000
         + ts_nsec (thread_timespec (threadtime value))
     else if HAS_GET_THREAD_TIMES P then
       (filetime_us (thread_kernel (threadtime value)) + filetime_us (thread_user (threadtime value)))
         * 1000
     else 0)"

definition getter_jvm_compilations :: "snapshot \<Rightarrow> snapshot \<Rightarrow> c_long" where
  "getter_jvm_compilations start end' = compilations end' - compilations start"

definition getter_raw_jvm_compilations :: "snapshot \<Rightarrow> c_long" where
  "getter_raw_jvm_compilations value = compilations value"

definition getter_context_switch_forced :: "snapshot \<Rightarrow> snapshot \<Rightarrow> c_long" where
  "getter_context_switch_forced start end' =
    ru_nivcsw (resource_usage end') - ru_nivcsw (resource_usage start)"

definition getter_raw_context_switch_forced :: "snapshot \<Rightarrow> c_long" where
  "getter_raw_context_switch_forced value = ru_nivcsw (resource_usage value)"

definition getter_thread_time_rusage :: "snapshot \<Rightarrow> snapshot \<Rightarrow> c_long" where
  "getter_thread_time_rusage start end' =
    (let user_us = timeval_diff_us (ru_utime (resource_usage start)) (ru_utime (resource_usage end'));
         system_us = timeval_diff_us (ru_stime (resource_usage start)) (ru_stime (resource_usage end'))
     in (user_us + system_us) * 1000)"

definition getter_raw_thread_time_rusage :: "snapshot \<Rightarrow> c_long" where
  "getter_raw_thread_time_rusage value =
    (let user_us = TIMEVAL_TO_MICROS (ru_utime (resource_usage value));
         system_us = TIMEVAL_TO_MICROS (ru_stime (resource_usage value))
     in (user_us + system_us) * 1000)"

text \<open>The PAPI getters read the array of 20 counters at the event's index.\<close>

definition getter_papi ::
    "('w, 'x) papi_platform_scheme \<Rightarrow> snapshot \<Rightarrow> snapshot \<Rightarrow> ubench_event_info_t \<Rightarrow> c_long outcome"
where
  "getter_papi P start end' info =
    (if papi_rc1 start \<noteq> PAPI_OK P then Done (long_of_int (papi_rc1 start))
     else if papi_rc2 start \<noteq> PAPI_OK P then Done (long_of_int (papi_rc2 start))
     else if papi_rc1 end' \<noteq> PAPI_OK P then Done (long_of_int (papi_rc1 end'))
     else obind (buf_get (Buf (papi_events end')) (papi_index info)) (\<lambda>b.
       obind (buf_get (Buf (papi_events start)) (papi_index info)) (\<lambda>a. Done (b - a))))"

definition getter_raw_papi ::
    "('w, 'x) papi_platform_scheme \<Rightarrow> snapshot \<Rightarrow> ubench_event_info_t \<Rightarrow> c_long outcome" where
  "getter_raw_papi P value info =
    (if papi_rc1 value \<noteq> PAPI_OK P then Done (long_of_int (papi_rc1 value))
     else if papi_rc2 value \<noteq> PAPI_OK P then Done (long_of_int (papi_rc2 value))
     else buf_get (Buf (papi_events value)) (papi_index info))"

text \<open>The calls through the pointers \<open>op_get\<close> and \<open>op_get_raw\<close>.\<close>

definition call_op_get ::
    "('w, 'x) papi_platform_scheme \<Rightarrow> c_long \<Rightarrow> snapshot \<Rightarrow> snapshot \<Rightarrow> ubench_event_info_t \<Rightarrow>
      c_long outcome" where
  "call_op_get P freq start end' info =
    (case op_get info of
       None \<Rightarrow> Fault NullDeref
     | Some WallClockTime \<Rightarrow> Done (getter_wall_clock_time P freq start end')
     | Some ThreadTime \<Rightarrow> Done (getter_thread_time P start end')
     | Some JvmCompilations \<Rightarrow> Done (getter_jvm_compilations start end')
     | Some ContextSwitchForced \<Rightarrow> Done (getter_context_switch_forced start end')
     | Some ThreadTimeRusage \<Rightarrow> Done (getter_thread_time_rusage start end')
     | Some Papi \<Rightarrow> getter_papi P start end' info)"

definition call_op_get_raw ::
    "('w, 'x) papi_platform_scheme \<Rightarrow> c_long \<Rightarrow> snapshot \<Rightarrow> ubench_event_info_t \<Rightarrow>
      c_long outcome" where
  "call_op_get_raw P freq value info =
    (case op_get_raw info of
       None \<Rightarrow> Fault NullDeref
     | Some WallClockTime \<Rightarrow> Done (getter_raw_wall_clock_time P freq value)
     | Some ThreadTime \<Rightarrow> Done (getter_raw_thread_time P value)
     | Some JvmCompilations \<Rightarrow> Done (getter_raw_jvm_compilations value)
     | Some ContextSwitchForced \<Rightarrow> Done (getter_raw_context_switch_forced value)
     | Some ThreadTimeRusage \<Rightarrow> Done (getter_raw_thread_time_rusage value)
     | Some Papi \<Rightarrow> getter_raw_papi P value info)"

section \<open>Differences of readings\<close>

text \<open>
  The contract of a pair of getters: what they compute for a measurement is the difference of the
  two raw readings. Then consecutive measurements add up, and the value is exact when the true
  difference fits into 64 bits.
\<close>

locale difference_getter =
  fixes reading :: "'s \<Rightarrow> c_long"
    and elapsed :: "'s \<Rightarrow> 's \<Rightarrow> c_long"
  assumes elapsed_law: "elapsed a b = reading b - reading a"
begin

lemma elapsed_self: "elapsed a a = 0"
  by (simp add: elapsed_law)

lemma elapsed_chain: "elapsed a b + elapsed b c = elapsed a c"
  by (simp add: elapsed_law)

lemma elapsed_exact:
  assumes "- 9223372036854775808 \<le> sint (reading b) - sint (reading a)"
    and "sint (reading b) - sint (reading a) < 9223372036854775808"
  shows "sint (elapsed a b) = sint (reading b) - sint (reading a)"
proof -
  have "elapsed a b = word_of_int (sint (reading b) - sint (reading a))"
    by (simp add: elapsed_law wi_hom_sub [symmetric])
  then show ?thesis
    using sint_of_int64 [OF assms] by simp
qed

end

interpretation timespecs: difference_getter TIMESPEC_TO_NANOS timespec_diff_ns
  by unfold_locales (simp add: TIMESPEC_TO_NANOS_def timespec_diff_ns_def Let_def algebra_simps)

interpretation compiled: difference_getter getter_raw_jvm_compilations getter_jvm_compilations
  by unfold_locales (simp add: getter_raw_jvm_compilations_def getter_jvm_compilations_def)

interpretation switches: difference_getter
  getter_raw_context_switch_forced getter_context_switch_forced
  by unfold_locales
     (simp add: getter_raw_context_switch_forced_def getter_context_switch_forced_def)

interpretation rusages: difference_getter
  getter_raw_thread_time_rusage getter_thread_time_rusage
  by unfold_locales
     (simp add: getter_raw_thread_time_rusage_def getter_thread_time_rusage_def Let_def
       TIMEVAL_TO_MICROS_def timeval_diff_us_def algebra_simps)

section \<open>What the getters report\<close>

lemma sint_cases: "sint x < sint y \<or> x = y \<or> sint y < sint x"
  using signed_word_eqI [where 'a = int, of x y] by fastforce

lemma raw_thread_time_timespec:
  "HAS_TIMESPEC P \<Longrightarrow>
    getter_raw_thread_time P v = TIMESPEC_TO_NANOS (thread_timespec (threadtime v))"
  by (simp add: getter_raw_thread_time_def TIMESPEC_TO_NANOS_def)

lemma sint_c_sdiv:
  assumes "0 \<le> sint a" and "0 < sint b"
  shows "sint (c_sdiv a b) = sint a div sint b"
proof -
  have "sint a div sint b \<le> sint a div 1"
    using assms by (intro zdiv_mono2) auto
  moreover have "0 \<le> sint a div sint b"
    using assms by (simp add: pos_imp_zdiv_nonneg_iff)
  ultimately have "sint (word_of_int (sint a div sint b) :: c_long) = sint a div sint b"
    using sint_range64 [of a] by (intro sint_of_int64) simp_all
  moreover have "sgn (sint a) * sgn (sint b) * (\<bar>sint a\<bar> div \<bar>sint b\<bar>) = sint a div sint b"
    using assms by (cases "sint a = 0") (auto simp: sgn_if)
  ultimately show ?thesis by (simp only: c_sdiv_def)
qed

lemma sint_billions:
  fixes x :: c_long
  assumes "0 \<le> sint x" and "sint x \<le> 9223372036"
  shows "sint (x * 1000 * 1000 * 1000) = sint x * 1000000000"
proof -
  have "x * 1000 * 1000 * 1000 = word_of_int (sint x) * 1000000000"
    by (simp add: mult.assoc)
  also have "\<dots> = word_of_int (sint x * 1000000000)"
    by (simp only: of_int_mult) simp
  finally have "x * 1000 * 1000 * 1000 = word_of_int (sint x * 1000000000)" .
  moreover have "sint (word_of_int (sint x * 1000000000) :: c_long) = sint x * 1000000000"
    using assms by (intro sint_of_int64) simp_all
  ultimately show ?thesis by (simp only:)
qed

text \<open>PAPI has started and read the counters of a snapshot, among them that of the event.\<close>

definition papi_counted :: "('w, 'x) papi_platform_scheme \<Rightarrow> ubench_event_info_t \<Rightarrow> snapshot \<Rightarrow> bool" where
  "papi_counted P info s \<longleftrightarrow> papi_rc1 s = PAPI_OK P \<and> papi_rc2 s = PAPI_OK P \<and>
    papi_index info < length (papi_events s)"

text \<open>
  C20: On a build with \<open>clock_gettime\<close>, every event reports for a measurement the difference of its raw
  readings at the end and at the start, for all 64-bit readings, a PAPI one when PAPI has counted
  in both snapshots; so the values of adjacent measurements add up to the value of the whole.
\<close>

theorem getters_report_differences:
  assumes "HAS_TIMESPEC P" and "op_get info = Some g" and "op_get_raw info = Some g"
    and "g = Papi \<Longrightarrow> papi_counted P info start \<and> papi_counted P info end'"
  shows "returns (call_op_get_raw P freq start info) (\<lambda>x.
    returns (call_op_get_raw P freq end' info) (\<lambda>y.
      call_op_get P freq start end' info = Done (y - x)))"
  using assms
  by (cases g)
     (simp_all add: call_op_get_def call_op_get_raw_def getter_wall_clock_time_def
       getter_raw_wall_clock_time_def timestamp_diff_ns_def getter_thread_time_def
       raw_thread_time_timespec timespecs.elapsed_law compiled.elapsed_law switches.elapsed_law
       rusages.elapsed_law getter_papi_def getter_raw_papi_def papi_counted_def)

theorem getters_report_differences_witness:
  "call_op_get sample_platform 0 (zero_snapshot\<lparr>compilations := 3\<rparr>) (zero_snapshot\<lparr>compilations := 5\<rparr>)
    (zero_event_info\<lparr>op_get := Some JvmCompilations, op_get_raw := Some JvmCompilations\<rparr>) = Done 2"
  using getters_report_differences [where P = sample_platform and g = JvmCompilations and freq = 0
      and info = "zero_event_info\<lparr>op_get := Some JvmCompilations, op_get_raw := Some JvmCompilations\<rparr>"
      and start = "zero_snapshot\<lparr>compilations := 3\<rparr>" and end' = "zero_snapshot\<lparr>compilations := 5\<rparr>"]
  by (simp add: sample_platform_def call_op_get_raw_def getter_raw_jvm_compilations_def)

text \<open>Clock readings are ordered by their seconds, then by their nanoseconds.\<close>

instantiation timespec_ext :: (linorder) linorder
begin

definition less_eq_timespec_ext :: "'a timespec_scheme \<Rightarrow> 'a timespec_scheme \<Rightarrow> bool" where
  "less_eq_timespec_ext a b \<longleftrightarrow> sint (ts_sec a) < sint (ts_sec b) \<or>
    ts_sec a = ts_sec b \<and> (sint (ts_nsec a) < sint (ts_nsec b) \<or>
      ts_nsec a = ts_nsec b \<and> timespec.more a \<le> timespec.more b)"

definition less_timespec_ext :: "'a timespec_scheme \<Rightarrow> 'a timespec_scheme \<Rightarrow> bool" where
  "less_timespec_ext a b \<longleftrightarrow> a \<le> b \<and> \<not> b \<le> a"

instance
proof
  fix a b c :: "'a timespec_scheme"
  show "a < b \<longleftrightarrow> a \<le> b \<and> \<not> b \<le> a"
    by (rule less_timespec_ext_def)
  show "a \<le> a"
    by (simp add: less_eq_timespec_ext_def)
  show "a \<le> b \<Longrightarrow> b \<le> c \<Longrightarrow> a \<le> c"
    by (auto simp: less_eq_timespec_ext_def)
  show "a \<le> b \<Longrightarrow> b \<le> a \<Longrightarrow> a = b"
    by (auto simp: less_eq_timespec_ext_def intro: timespec.equality)
  show "a \<le> b \<or> b \<le> a"
    using sint_cases [of "ts_sec a" "ts_sec b"] sint_cases [of "ts_nsec a" "ts_nsec b"] linear
    unfolding less_eq_timespec_ext_def by metis
qed

end

text \<open>A time stamp of a clock: nanoseconds below a second, and seconds below 292 years.\<close>

definition clock_range :: "timespec \<Rightarrow> bool" where
  "clock_range t \<longleftrightarrow> 0 \<le> sint (ts_nsec t) \<and> sint (ts_nsec t) < 1000000000 \<and>
    0 \<le> sint (ts_sec t) \<and> sint (ts_sec t) \<le> 9223372035"

definition nanoseconds :: "timespec \<Rightarrow> int" where
  "nanoseconds t = sint (ts_sec t) * 1000000000 + sint (ts_nsec t)"

lemma TIMESPEC_TO_NANOS_word: "TIMESPEC_TO_NANOS t = word_of_int (nanoseconds t)"
proof -
  have "TIMESPEC_TO_NANOS t =
      word_of_int (sint (ts_sec t)) * 1000 * 1000 * 1000 + word_of_int (sint (ts_nsec t))"
    by (simp add: TIMESPEC_TO_NANOS_def)
  also have "\<dots> = word_of_int (nanoseconds t)"
    unfolding nanoseconds_def by (simp only: of_int_add of_int_mult) simp
  finally show ?thesis .
qed

lemma nanoseconds_range: "clock_range t \<Longrightarrow> 0 \<le> nanoseconds t \<and> nanoseconds t < 9223372036854775808"
  by (simp add: clock_range_def nanoseconds_def)

lemma nanoseconds_le:
  fixes a b :: timespec
  assumes "clock_range a" and "clock_range b"
  shows "nanoseconds a \<le> nanoseconds b \<longleftrightarrow> a \<le> b"
  using assms sint_cases [of "ts_sec a" "ts_sec b"] sint_cases [of "ts_nsec a" "ts_nsec b"]
  by (auto simp: clock_range_def nanoseconds_def less_eq_timespec_ext_def)

lemma sint_TIMESPEC_TO_NANOS: "clock_range t \<Longrightarrow> sint (TIMESPEC_TO_NANOS t) = nanoseconds t"
  using nanoseconds_range [of t] by (simp add: TIMESPEC_TO_NANOS_word sint_of_int64)

text \<open>
  C31: For clock readings in range, neither the raw wall-clock value nor the difference overflows:
  they are the exact numbers of nanoseconds, whatever the borrow between the two fields, and the
  time is negative exactly when the clock went back.
\<close>

theorem wall_clock_exact:
  assumes "HAS_TIMESPEC P"
    and a: "clock_range (stamp_timespec (timestamp start))"
    and b: "clock_range (stamp_timespec (timestamp end'))"
  shows "sint (getter_raw_wall_clock_time P freq end') = nanoseconds (stamp_timespec (timestamp end')) \<and>
    sint (getter_wall_clock_time P freq start end') =
      nanoseconds (stamp_timespec (timestamp end')) - nanoseconds (stamp_timespec (timestamp start)) \<and>
    (0 \<le> sint (getter_wall_clock_time P freq start end') \<longleftrightarrow>
      stamp_timespec (timestamp start) \<le> stamp_timespec (timestamp end'))"
proof -
  let ?a = "stamp_timespec (timestamp start)" and ?b = "stamp_timespec (timestamp end')"
  have "sint (timespec_diff_ns ?a ?b) = sint (TIMESPEC_TO_NANOS ?b) - sint (TIMESPEC_TO_NANOS ?a)"
    using nanoseconds_range [OF a] nanoseconds_range [OF b]
    by (intro timespecs.elapsed_exact) (simp_all add: sint_TIMESPEC_TO_NANOS a b)
  then show ?thesis
    using assms nanoseconds_le [OF a b] by (simp add: getter_wall_clock_time_def
      getter_raw_wall_clock_time_def timestamp_diff_ns_def sint_TIMESPEC_TO_NANOS)
qed

theorem wall_clock_exact_witness:
  "sint (getter_wall_clock_time sample_platform 0
    (zero_snapshot\<lparr>timestamp := (timestamp zero_snapshot)
      \<lparr>stamp_timespec := \<lparr>ts_sec = 5, ts_nsec = 999999999\<rparr>\<rparr>\<rparr>)
    (zero_snapshot\<lparr>timestamp := (timestamp zero_snapshot)
      \<lparr>stamp_timespec := \<lparr>ts_sec = 6, ts_nsec = 1\<rparr>\<rparr>\<rparr>)) = 2"
  using wall_clock_exact [of sample_platform
    "zero_snapshot\<lparr>timestamp := (timestamp zero_snapshot)
      \<lparr>stamp_timespec := \<lparr>ts_sec = 5, ts_nsec = 999999999\<rparr>\<rparr>\<rparr>"
    "zero_snapshot\<lparr>timestamp := (timestamp zero_snapshot)
      \<lparr>stamp_timespec := \<lparr>ts_sec = 6, ts_nsec = 1\<rparr>\<rparr>\<rparr>" 0]
  by (simp add: sample_platform_def clock_range_def nanoseconds_def)

text \<open>
  C38: On a Windows build the multiplication comes before the division, so the wall-clock value is
  exact only up to 9223372036 ticks of the performance counter: a clock at 10 MHz leaves that range
  after about 15 minutes, and 1000 seconds are reported as a negative time.
\<close>

theorem performance_counter_range:
  fixes P :: "('w, 'x) c_platform_scheme"
  assumes "\<not> HAS_TIMESPEC P" and "HAS_QUERY_PERFORMANCE_COUNTER P"
  shows "(0 \<le> sint (stamp_quad (timestamp value)) \<and> sint (stamp_quad (timestamp value)) \<le> 9223372036 \<and>
      0 < sint freq \<longrightarrow>
      sint (getter_raw_wall_clock_time P freq value) =
        sint (stamp_quad (timestamp value)) * 1000000000 div sint freq) \<and>
    sint (getter_raw_wall_clock_time P 10000000
      (value\<lparr>timestamp := (timestamp value)\<lparr>stamp_quad := 10000000000\<rparr>\<rparr>)) = - 844674407370"
proof (intro conjI impI)
  let ?q = "sint (stamp_quad (timestamp value))"
  assume q: "0 \<le> ?q \<and> ?q \<le> 9223372036 \<and> 0 < sint freq"
  then have num: "sint (stamp_quad (timestamp value) * 1000 * 1000 * 1000) = ?q * 1000000000"
    by (intro sint_billions) simp_all
  have "freq \<noteq> 0"
    using q by auto
  then have "getter_raw_wall_clock_time P freq value =
      c_sdiv (stamp_quad (timestamp value) * 1000 * 1000 * 1000) freq"
    using assms by (simp only: getter_raw_wall_clock_time_def if_True if_False simp_thms)
  also have "sint \<dots> = ?q * 1000000000 div sint freq"
    using q by (subst sint_c_sdiv) (simp_all only: num, simp_all)
  finally show "sint (getter_raw_wall_clock_time P freq value) = ?q * 1000000000 div sint freq" .
next
  show "sint (getter_raw_wall_clock_time P 10000000
      (value\<lparr>timestamp := (timestamp value)\<lparr>stamp_quad := 10000000000\<rparr>\<rparr>)) = - 844674407370"
    using assms by (simp add: getter_raw_wall_clock_time_def c_sdiv_def)
qed

theorem performance_counter_range_witness:
  "sint (getter_raw_wall_clock_time
      (sample_platform\<lparr>HAS_TIMESPEC := False, HAS_QUERY_PERFORMANCE_COUNTER := True\<rparr>) 10000000
      (zero_snapshot\<lparr>timestamp := (timestamp zero_snapshot)\<lparr>stamp_quad := 9000000000\<rparr>\<rparr>)) = 900000000000"
  using performance_counter_range [of
      "sample_platform\<lparr>HAS_TIMESPEC := False, HAS_QUERY_PERFORMANCE_COUNTER := True\<rparr>"
      "zero_snapshot\<lparr>timestamp := (timestamp zero_snapshot)\<lparr>stamp_quad := 9000000000\<rparr>\<rparr>" 10000000]
  by simp

end
