(* ===== verification/Measure.thy ===== *)
theory Measure
  imports Counters Getters
begin

text \<open>
  Taking a snapshot (\<open>measure.c\<close>): which clocks and counters are read for the backends of an event
  set, in which order, and which members of the snapshot they fill.
\<close>

section \<open>Clocks\<close>

text \<open>A failing \<open>clock_gettime\<close> (\<open>None\<close>) leaves its argument as it is.\<close>

definition store_wallclock ::
    "('w, 'x) c_platform_scheme \<Rightarrow> timestamp_t \<Rightarrow> ('w, timestamp_t) ext" where
  "store_wallclock P ts w =
    (if HAS_TIMESPEC P then
       case clock_monotonic P w of (t, w') \<Rightarrow>
         ((case t of None \<Rightarrow> ts | Some v \<Rightarrow> ts\<lparr>stamp_timespec := v\<rparr>), w')
     else if HAS_QUERY_PERFORMANCE_COUNTER P then
       case query_performance_counter P w of (v, w') \<Rightarrow> (ts\<lparr>stamp_quad := v\<rparr>, w')
     else (ts\<lparr>stamp_int := - 1\<rparr>, w))"

definition store_threadtime ::
    "('w, 'x) c_platform_scheme \<Rightarrow> threadtime_t \<Rightarrow> ('w, threadtime_t) ext" where
  "store_threadtime P ts w =
    (if HAS_TIMESPEC P then
       case clock_thread_cputime P w of (t, w') \<Rightarrow>
         ((case t of None \<Rightarrow> ts | Some v \<Rightarrow> ts\<lparr>thread_timespec := v\<rparr>), w')
     else if HAS_GET_THREAD_TIMES P then
       case get_thread_times P w of ((t_kernel, t_user), w') \<Rightarrow>
         (ts\<lparr>thread_kernel := t_kernel, thread_user := t_user\<rparr>, w')
     else (ts\<lparr>thread_int := - 1\<rparr>, w))"

section \<open>The steps of a snapshot\<close>

text \<open>One definition for each conditional statement of the three functions below.\<close>

definition step_resource_usage ::
    "('w, 'x) c_platform_scheme \<Rightarrow> benchmark_configuration_t \<Rightarrow> snapshot \<Rightarrow> ('w, snapshot) ext"
where
  "step_resource_usage P config s w =
    (if HAS_GETRUSAGE P \<and> uses_backend (used_backends config) UBENCH_EVENT_BACKEND_RESOURCE_USAGE then
       case getrusage_thread P w of (r, w') \<Rightarrow>
         ((case r of None \<Rightarrow> s | Some v \<Rightarrow> s\<lparr>resource_usage := v\<rparr>), w')
     else (s, w))"

definition step_compilations ::
    "counters \<Rightarrow> benchmark_configuration_t \<Rightarrow> snapshot \<Rightarrow> snapshot" where
  "step_compilations cs config s =
    (if uses_backend (used_backends config) UBENCH_EVENT_BACKEND_JVM_COMPILATIONS
     then s\<lparr>compilations := long_of_int (ubench_atomic_int_get (counter_compilation_total cs))\<rparr>
     else s)"

definition step_collections :: "counters \<Rightarrow> snapshot \<Rightarrow> snapshot" where
  "step_collections cs s = s\<lparr>garbage_collections := ubench_atomic_int_get (counter_gc_total cs)\<rparr>"

definition step_threadtime ::
    "('w, 'x) c_platform_scheme \<Rightarrow> benchmark_configuration_t \<Rightarrow> snapshot \<Rightarrow> ('w, snapshot) ext"
where
  "step_threadtime P config s w =
    (if uses_backend (used_backends config) UBENCH_EVENT_BACKEND_SYS_THREADTIME then
       case store_threadtime P (threadtime s) w of (t, w') \<Rightarrow> (s\<lparr>threadtime := t\<rparr>, w')
     else (s, w))"

definition step_wallclock ::
    "('w, 'x) c_platform_scheme \<Rightarrow> benchmark_configuration_t \<Rightarrow> snapshot \<Rightarrow> ('w, snapshot) ext"
where
  "step_wallclock P config s w =
    (if uses_backend (used_backends config) UBENCH_EVENT_BACKEND_SYS_WALLCLOCK then
       case store_wallclock P (timestamp s) w of (t, w') \<Rightarrow> (s\<lparr>timestamp := t\<rparr>, w')
     else (s, w))"

definition step_papi_start ::
    "('w, 'x) papi_platform_scheme \<Rightarrow> benchmark_configuration_t \<Rightarrow> snapshot \<Rightarrow> ('w, snapshot) ext"
where
  "step_papi_start P config s w =
    (if HAS_PAPI P \<and> uses_backend (used_backends config) UBENCH_EVENT_BACKEND_PAPI then
       case PAPI_start P (papi_eventset config) w of (rc, w') \<Rightarrow> (s\<lparr>papi_rc2 := rc\<rparr>, w')
     else (s, w))"

text \<open>
  PAPI writes one value for each event of its set, and the agent adds at most 20 events
  (\<open>UBENCH_MAX_PAPI_EVENTS\<close>): the values fit into the array, and what follows them stays.
\<close>

definition write_counters :: "c_long list \<Rightarrow> c_long list \<Rightarrow> c_long list" where
  "write_counters vs old = take (length old) vs @ drop (length vs) old"

lemma write_counters_length [simp]: "length (write_counters vs old) = length old"
  by (simp add: write_counters_def)

definition step_papi_read ::
    "('w, 'x) papi_platform_scheme \<Rightarrow> benchmark_configuration_t \<Rightarrow> snapshot \<Rightarrow> ('w, snapshot) ext"
where
  "step_papi_read P config s w =
    (if HAS_PAPI P \<and> uses_backend (used_backends config) UBENCH_EVENT_BACKEND_PAPI then
       case PAPI_read P (papi_eventset config) w of ((rc, vs), w') \<Rightarrow>
         (s\<lparr>papi_rc1 := rc, papi_events := write_counters vs (papi_events s)\<rparr>, w')
     else (s, w))"

definition step_papi_stop ::
    "('w, 'x) papi_platform_scheme \<Rightarrow> benchmark_configuration_t \<Rightarrow> snapshot \<Rightarrow> ('w, snapshot) ext"
where
  "step_papi_stop P config s w =
    (if HAS_PAPI P \<and> uses_backend (used_backends config) UBENCH_EVENT_BACKEND_PAPI then
       case PAPI_stop P (papi_eventset config) w of ((rc, vs), w') \<Rightarrow>
         (s\<lparr>papi_rc1 := rc, papi_events := write_counters vs (papi_events s)\<rparr>, w')
     else (s, w))"

section \<open>Snapshots\<close>

definition do_snapshot ::
    "('w, 'x) papi_platform_scheme \<Rightarrow> counters \<Rightarrow> benchmark_configuration_t \<Rightarrow> snapshot \<Rightarrow>
      ('w, snapshot) ext" where
  "do_snapshot P cs config s w =
    (case step_resource_usage P config s w of (s1, w1) \<Rightarrow>
     let s2 = step_collections cs (step_compilations cs config s1) in
     case step_threadtime P config s2 w1 of (s3, w3) \<Rightarrow>
     case step_papi_read P config s3 w3 of (s4, w4) \<Rightarrow>
     step_wallclock P config s4 w4)"

definition ubench_measure_start ::
    "('w, 'x) papi_platform_scheme \<Rightarrow> counters \<Rightarrow> benchmark_configuration_t \<Rightarrow> snapshot \<Rightarrow>
      ('w, snapshot) ext" where
  "ubench_measure_start P cs config s w =
    (case step_papi_start P config s w of (s1, w1) \<Rightarrow>
     do_snapshot P cs config (s1\<lparr>snap_type := UBENCH_SNAPSHOT_TYPE_START\<rparr>) w1)"

definition ubench_measure_sample ::
    "('w, 'x) papi_platform_scheme \<Rightarrow> counters \<Rightarrow> benchmark_configuration_t \<Rightarrow> snapshot \<Rightarrow> c_int \<Rightarrow>
      ('w, snapshot) ext" where
  "ubench_measure_sample P cs config s user_id w =
    do_snapshot P cs config (s\<lparr>snap_type := user_id\<rparr>) w"

definition ubench_measure_stop ::
    "('w, 'x) papi_platform_scheme \<Rightarrow> counters \<Rightarrow> benchmark_configuration_t \<Rightarrow> snapshot \<Rightarrow>
      ('w, snapshot) ext" where
  "ubench_measure_stop P cs config s w =
    (case step_wallclock P config s w of (s1, w1) \<Rightarrow>
     case step_papi_stop P config s1 w1 of (s2, w2) \<Rightarrow>
     case step_threadtime P config s2 w2 of (s3, w3) \<Rightarrow>
     let s4 = step_collections cs (step_compilations cs config s3) in
     case step_resource_usage P config s4 w3 of (s5, w5) \<Rightarrow>
     (s5\<lparr>snap_type := UBENCH_SNAPSHOT_TYPE_END\<rparr>, w5))"

section \<open>Which members a snapshot fills\<close>

text \<open>
  Every step changes one group of members and only when its backend is used. \<open>fills\<close> says of two
  snapshots that the second has the counters of the agent, the given type, and differs from the
  first in members of the used backends only.
\<close>

definition fills ::
    "('w, 'x) c_platform_scheme \<Rightarrow> counters \<Rightarrow> c_uint \<Rightarrow> c_int \<Rightarrow> snapshot \<Rightarrow> snapshot \<Rightarrow> bool" where
  "fills P cs backends type s s' \<longleftrightarrow>
    snap_type s' = type \<and> length (papi_events s') = length (papi_events s) \<and>
    garbage_collections s' = atomic_value (counter_gc_total cs) \<and>
    compilations s' = (if uses_backend backends UBENCH_EVENT_BACKEND_JVM_COMPILATIONS
      then long_of_int (atomic_value (counter_compilation_total cs)) else compilations s) \<and>
    (\<not> uses_backend backends UBENCH_EVENT_BACKEND_SYS_WALLCLOCK \<longrightarrow> timestamp s' = timestamp s) \<and>
    (\<not> uses_backend backends UBENCH_EVENT_BACKEND_SYS_THREADTIME \<longrightarrow> threadtime s' = threadtime s) \<and>
    (\<not> (HAS_GETRUSAGE P \<and> uses_backend backends UBENCH_EVENT_BACKEND_RESOURCE_USAGE) \<longrightarrow>
      resource_usage s' = resource_usage s) \<and>
    (\<not> (HAS_PAPI P \<and> uses_backend backends UBENCH_EVENT_BACKEND_PAPI) \<longrightarrow>
      papi_events s' = papi_events s \<and> papi_rc1 s' = papi_rc1 s \<and> papi_rc2 s' = papi_rc2 s)"

text \<open>What each step leaves alone.\<close>

lemma step_papi_length [simp]:
  "length (papi_events (fst (step_papi_read P config s w))) = length (papi_events s)"
  "length (papi_events (fst (step_papi_stop P config s w))) = length (papi_events s)"
  by (simp_all add: step_papi_read_def step_papi_stop_def split: prod.splits)

lemma step_resource_usage_keeps [simp]:
  "timestamp (fst (step_resource_usage P config s w)) = timestamp s"
  "threadtime (fst (step_resource_usage P config s w)) = threadtime s"
  "compilations (fst (step_resource_usage P config s w)) = compilations s"
  "garbage_collections (fst (step_resource_usage P config s w)) = garbage_collections s"
  "papi_events (fst (step_resource_usage P config s w)) = papi_events s"
  "papi_rc1 (fst (step_resource_usage P config s w)) = papi_rc1 s"
  "papi_rc2 (fst (step_resource_usage P config s w)) = papi_rc2 s"
  "snap_type (fst (step_resource_usage P config s w)) = snap_type s"
  by (simp_all add: step_resource_usage_def split: prod.splits option.splits)

lemma step_resource_usage_unused [simp]:
  "\<not> (HAS_GETRUSAGE P \<and> uses_backend (used_backends config) UBENCH_EVENT_BACKEND_RESOURCE_USAGE) \<Longrightarrow> fst (step_resource_usage P config s w) = s"
  by (auto simp: step_resource_usage_def)

lemma step_threadtime_keeps [simp]:
  "timestamp (fst (step_threadtime P config s w)) = timestamp s"
  "resource_usage (fst (step_threadtime P config s w)) = resource_usage s"
  "compilations (fst (step_threadtime P config s w)) = compilations s"
  "garbage_collections (fst (step_threadtime P config s w)) = garbage_collections s"
  "papi_events (fst (step_threadtime P config s w)) = papi_events s"
  "papi_rc1 (fst (step_threadtime P config s w)) = papi_rc1 s"
  "papi_rc2 (fst (step_threadtime P config s w)) = papi_rc2 s"
  "snap_type (fst (step_threadtime P config s w)) = snap_type s"
  by (simp_all add: step_threadtime_def split: prod.splits option.splits)

lemma step_threadtime_unused [simp]:
  "\<not> (uses_backend (used_backends config) UBENCH_EVENT_BACKEND_SYS_THREADTIME) \<Longrightarrow> fst (step_threadtime P config s w) = s"
  by (auto simp: step_threadtime_def)

lemma step_wallclock_keeps [simp]:
  "threadtime (fst (step_wallclock P config s w)) = threadtime s"
  "resource_usage (fst (step_wallclock P config s w)) = resource_usage s"
  "compilations (fst (step_wallclock P config s w)) = compilations s"
  "garbage_collections (fst (step_wallclock P config s w)) = garbage_collections s"
  "papi_events (fst (step_wallclock P config s w)) = papi_events s"
  "papi_rc1 (fst (step_wallclock P config s w)) = papi_rc1 s"
  "papi_rc2 (fst (step_wallclock P config s w)) = papi_rc2 s"
  "snap_type (fst (step_wallclock P config s w)) = snap_type s"
  by (simp_all add: step_wallclock_def split: prod.splits option.splits)

lemma step_wallclock_unused [simp]:
  "\<not> (uses_backend (used_backends config) UBENCH_EVENT_BACKEND_SYS_WALLCLOCK) \<Longrightarrow> fst (step_wallclock P config s w) = s"
  by (auto simp: step_wallclock_def)

lemma step_papi_start_keeps [simp]:
  "timestamp (fst (step_papi_start P config s w)) = timestamp s"
  "threadtime (fst (step_papi_start P config s w)) = threadtime s"
  "resource_usage (fst (step_papi_start P config s w)) = resource_usage s"
  "compilations (fst (step_papi_start P config s w)) = compilations s"
  "garbage_collections (fst (step_papi_start P config s w)) = garbage_collections s"
  "papi_events (fst (step_papi_start P config s w)) = papi_events s"
  "papi_rc1 (fst (step_papi_start P config s w)) = papi_rc1 s"
  "snap_type (fst (step_papi_start P config s w)) = snap_type s"
  by (simp_all add: step_papi_start_def split: prod.splits option.splits)

lemma step_papi_start_unused [simp]:
  "\<not> (HAS_PAPI P \<and> uses_backend (used_backends config) UBENCH_EVENT_BACKEND_PAPI) \<Longrightarrow> fst (step_papi_start P config s w) = s"
  by (auto simp: step_papi_start_def)

lemma step_papi_read_keeps [simp]:
  "timestamp (fst (step_papi_read P config s w)) = timestamp s"
  "threadtime (fst (step_papi_read P config s w)) = threadtime s"
  "resource_usage (fst (step_papi_read P config s w)) = resource_usage s"
  "compilations (fst (step_papi_read P config s w)) = compilations s"
  "garbage_collections (fst (step_papi_read P config s w)) = garbage_collections s"
  "papi_rc2 (fst (step_papi_read P config s w)) = papi_rc2 s"
  "snap_type (fst (step_papi_read P config s w)) = snap_type s"
  by (simp_all add: step_papi_read_def split: prod.splits option.splits)

lemma step_papi_read_unused [simp]:
  "\<not> (HAS_PAPI P \<and> uses_backend (used_backends config) UBENCH_EVENT_BACKEND_PAPI) \<Longrightarrow> fst (step_papi_read P config s w) = s"
  by (auto simp: step_papi_read_def)

lemma step_papi_stop_keeps [simp]:
  "timestamp (fst (step_papi_stop P config s w)) = timestamp s"
  "threadtime (fst (step_papi_stop P config s w)) = threadtime s"
  "resource_usage (fst (step_papi_stop P config s w)) = resource_usage s"
  "compilations (fst (step_papi_stop P config s w)) = compilations s"
  "garbage_collections (fst (step_papi_stop P config s w)) = garbage_collections s"
  "papi_rc2 (fst (step_papi_stop P config s w)) = papi_rc2 s"
  "snap_type (fst (step_papi_stop P config s w)) = snap_type s"
  by (simp_all add: step_papi_stop_def split: prod.splits option.splits)

lemma step_papi_stop_unused [simp]:
  "\<not> (HAS_PAPI P \<and> uses_backend (used_backends config) UBENCH_EVENT_BACKEND_PAPI) \<Longrightarrow> fst (step_papi_stop P config s w) = s"
  by (auto simp: step_papi_stop_def)

lemma step_compilations_keeps [simp]:
  "timestamp (step_compilations cs config s) = timestamp s"
  "threadtime (step_compilations cs config s) = threadtime s"
  "resource_usage (step_compilations cs config s) = resource_usage s"
  "garbage_collections (step_compilations cs config s) = garbage_collections s"
  "papi_events (step_compilations cs config s) = papi_events s"
  "papi_rc1 (step_compilations cs config s) = papi_rc1 s"
  "papi_rc2 (step_compilations cs config s) = papi_rc2 s"
  "snap_type (step_compilations cs config s) = snap_type s"
  by (simp_all add: step_compilations_def)

lemma step_collections_keeps [simp]:
  "timestamp (step_collections cs s) = timestamp s"
  "threadtime (step_collections cs s) = threadtime s"
  "resource_usage (step_collections cs s) = resource_usage s"
  "compilations (step_collections cs s) = compilations s"
  "papi_events (step_collections cs s) = papi_events s"
  "papi_rc1 (step_collections cs s) = papi_rc1 s"
  "papi_rc2 (step_collections cs s) = papi_rc2 s"
  "snap_type (step_collections cs s) = snap_type s"
  by (simp_all add: step_collections_def)

lemma step_counters:
  "compilations (step_compilations cs config s) =
    (if uses_backend (used_backends config) UBENCH_EVENT_BACKEND_JVM_COMPILATIONS
     then long_of_int (atomic_value (counter_compilation_total cs)) else compilations s)"
  "garbage_collections (step_collections cs s) = atomic_value (counter_gc_total cs)"
  by (simp_all add: step_compilations_def step_collections_def ubench_atomic_int_get_def)

lemma do_snapshot_fills:
  "snap_type s = type \<Longrightarrow> fills P cs (used_backends config) type s (fst (do_snapshot P cs config s w))"
  by (simp add: fills_def do_snapshot_def Let_def split_beta step_counters)

lemma measure_start_fills:
  "fills P cs (used_backends config) UBENCH_SNAPSHOT_TYPE_START s
    (fst (ubench_measure_start P cs config s w))"
  by (simp add: ubench_measure_start_def fills_def do_snapshot_def Let_def split_beta step_counters)

lemma measure_sample_fills:
  "fills P cs (used_backends config) id' s (fst (ubench_measure_sample P cs config s id' w))"
  by (simp add: ubench_measure_sample_def fills_def do_snapshot_def Let_def split_beta step_counters)

lemma measure_stop_fills:
  "fills P cs (used_backends config) UBENCH_SNAPSHOT_TYPE_END s
    (fst (ubench_measure_stop P cs config s w))"
  by (simp add: ubench_measure_stop_def fills_def Let_def split_beta step_counters)

text \<open>Only \<open>start\<close> writes \<open>papi_rc2\<close>, which the getters read in every snapshot.\<close>

lemma papi_rc2_kept:
  "papi_rc2 (fst (ubench_measure_sample P cs config s user_id w)) = papi_rc2 s"
  "papi_rc2 (fst (ubench_measure_stop P cs config s w)) = papi_rc2 s"
  by (simp_all add: ubench_measure_sample_def ubench_measure_stop_def do_snapshot_def Let_def split_beta)

lemma raw_papi_stale:
  "op_get_raw info = Some Papi \<Longrightarrow> papi_rc1 value = PAPI_OK P \<Longrightarrow> papi_rc2 value \<noteq> PAPI_OK P \<Longrightarrow>
    call_op_get_raw P freq value info = Done (long_of_int (papi_rc2 value))"
  by (simp add: call_op_get_raw_def getter_raw_papi_def)

text \<open>
  C27: The three measuring functions record the type of the snapshot, the number of collections,
  the number of compilations when that backend is used, and change no member of a backend that
  the event set does not use. Of the used ones, \<open>sample\<close> and \<open>stop\<close> leave the status of \<open>PAPI_start\<close>: if
  the cell of the array held a start that failed, before a reset, the raw value of a PAPI event in
  the new snapshot is that old error code although PAPI has read its counter.
\<close>

theorem snapshots_fill_used_members:
  "fills P cs (used_backends config) UBENCH_SNAPSHOT_TYPE_START s
      (fst (ubench_measure_start P cs config s w)) \<and>
    (\<forall>(type, s') \<in> {(user_id, fst (ubench_measure_sample P cs config s user_id w)),
        (UBENCH_SNAPSHOT_TYPE_END, fst (ubench_measure_stop P cs config s w))}.
      fills P cs (used_backends config) type s s' \<and>
      (op_get_raw info = Some Papi \<and> papi_rc1 s' = PAPI_OK P \<and> papi_rc2 s \<noteq> PAPI_OK P \<longrightarrow>
        call_op_get_raw P freq s' info = Done (long_of_int (papi_rc2 s))))"
  by (simp add: measure_start_fills measure_sample_fills measure_stop_fills raw_papi_stale papi_rc2_kept)

text \<open>A configuration for the examples.\<close>

definition sample_config :: "c_uint \<Rightarrow> benchmark_configuration_t" where
  "sample_config backends =
    \<lparr>used_backends = backends, used_events = Null, used_events_count = 0, used_papi_events = [],
     papi_eventset = 0, papi_component = 0, data = Null, data_size = 0, data_index = 0\<rparr>"

theorem snapshots_fill_used_members_witness:
  "call_op_get_raw sample_platform 0
      (fst (ubench_measure_stop sample_platform initial_counters (sample_config UBENCH_EVENT_BACKEND_PAPI)
        (zero_snapshot\<lparr>papi_rc2 := - 10\<rparr>) 5))
      (zero_event_info\<lparr>op_get_raw := Some Papi\<rparr>) = Done (- 10)"
proof -
  let ?s = "fst (ubench_measure_stop sample_platform initial_counters (sample_config UBENCH_EVENT_BACKEND_PAPI)
    (zero_snapshot\<lparr>papi_rc2 := - 10\<rparr>) 5)"
  have "papi_rc1 ?s = PAPI_OK sample_platform"
    by (simp add: ubench_measure_stop_def sample_config_def step_wallclock_def step_papi_stop_def Let_def
        split_beta backend_defs sample_platform_def)
  then show ?thesis
    using snapshots_fill_used_members [where P = sample_platform and cs = initial_counters
        and config = "sample_config UBENCH_EVENT_BACKEND_PAPI" and s = "zero_snapshot\<lparr>papi_rc2 := - 10\<rparr>"
        and w = 5 and info = "zero_event_info\<lparr>op_get_raw := Some Papi\<rparr>" and freq = 0]
    by (simp add: sample_platform_def)
qed

section \<open>The measured interval\<close>

lemma snapshot_clock_last:
  assumes "HAS_TIMESPEC P" and "uses_backend (used_backends config) UBENCH_EVENT_BACKEND_SYS_WALLCLOCK"
    and clock: "\<And>w. clock_monotonic P w = (Some (now w), tick w)"
  shows "\<exists>w0. snd (do_snapshot P cs config s w) = tick w0 \<and>
    stamp_timespec (timestamp (fst (do_snapshot P cs config s w))) = now w0"
  using assms
  by (auto simp: do_snapshot_def step_wallclock_def store_wallclock_def Let_def split: prod.splits)

lemma stop_clock_first:
  assumes "HAS_TIMESPEC P" and "uses_backend (used_backends config) UBENCH_EVENT_BACKEND_SYS_WALLCLOCK"
    and clock: "clock_monotonic P w = (Some t, w')"
  shows "stamp_timespec (timestamp (fst (ubench_measure_stop P cs config s w))) = t"
  using assms
  by (simp add: ubench_measure_stop_def Let_def split_beta)
     (simp add: step_wallclock_def store_wallclock_def)

text \<open>
  The wall clock is the last thing \<open>start\<close> reads and the first thing \<open>stop\<close> reads: whatever the
  program does in between (\<open>work\<close>), the reported wall-clock time is the difference of two readings
  between which the clock, the work and nothing else of the agent ran.
\<close>

theorem measured_interval_is_tight:
  assumes "HAS_TIMESPEC P" and "uses_backend (used_backends config) UBENCH_EVENT_BACKEND_SYS_WALLCLOCK"
    and "\<And>w. clock_monotonic P w = (Some (now w), tick w)"
  shows "\<exists>w0. snd (ubench_measure_start P cs config s w) = tick w0 \<and>
    getter_wall_clock_time P freq (fst (ubench_measure_start P cs config s w))
      (fst (ubench_measure_stop P cs' config s' (work (snd (ubench_measure_start P cs config s w)))))
    = timespec_diff_ns (now w0) (now (work (tick w0)))"
proof -
  obtain s1 w1 where e1: "step_papi_start P config s w = (s1, w1)" by (metis prod.exhaust)
  show ?thesis
    using snapshot_clock_last [OF assms, of cs "s1\<lparr>snap_type := UBENCH_SNAPSHOT_TYPE_START\<rparr>" w1]
      stop_clock_first [OF assms(1,2,3)] assms(1)
    by (auto simp: ubench_measure_start_def e1 getter_wall_clock_time_def timestamp_diff_ns_def)
qed

theorem measured_interval_is_tight_witness:
  "\<exists>w0. snd (ubench_measure_start sample_platform initial_counters (sample_config 12) zero_snapshot 0)
      = w0 + 1 \<and>
    getter_wall_clock_time sample_platform 0
      (fst (ubench_measure_start sample_platform initial_counters (sample_config 12) zero_snapshot 0))
      (fst (ubench_measure_stop sample_platform initial_counters (sample_config 12) zero_snapshot
        (snd (ubench_measure_start sample_platform initial_counters (sample_config 12) zero_snapshot 0)
          + 50))) =
    timespec_diff_ns \<lparr>ts_sec = 1, ts_nsec = of_nat (100 * w0)\<rparr>
      \<lparr>ts_sec = 1, ts_nsec = of_nat (100 * (w0 + 1 + 50))\<rparr>"
  by (rule measured_interval_is_tight
      [where work = "\<lambda>w. w + 50" and now = "\<lambda>w. \<lparr>ts_sec = 1, ts_nsec = of_nat (100 * w)\<rparr>"
        and tick = "\<lambda>w. w + 1" and P = sample_platform])
     (simp_all add: sample_platform_def sample_config_def UBENCH_EVENT_BACKEND_SYS_WALLCLOCK_def)

end
