(* ===== verification/StrUtil.thy ===== *)
theory StrUtil
  imports Platform
begin

text \<open>
  The string helpers of \<open>strutil.h\<close> over the C library's comparisons, and the contract that the
  event table relies on. A C string is the list of its characters before the terminating zero.
\<close>

section \<open>The C library's comparisons\<close>

text \<open>\<open>tolower\<close> in the C locale.\<close>

definition c_tolower :: "char \<Rightarrow> char" where
  "c_tolower c =
    (if 65 \<le> (of_char c :: nat) \<and> (of_char c :: nat) \<le> 90
     then char_of ((of_char c :: nat) + 32) else c)"

text \<open>Of the result only the sign is specified; the model returns -1, 0 or 1.\<close>

definition compare_chars :: "char \<Rightarrow> char \<Rightarrow> int" where
  "compare_chars a b =
    (if a = b then 0 else if (of_char a :: nat) < of_char b then - 1 else 1)"

fun strcasecmp :: "string \<Rightarrow> string \<Rightarrow> int" where
  "strcasecmp [] [] = 0"
| "strcasecmp [] (y # ys) = - 1"
| "strcasecmp (x # xs) [] = 1"
| "strcasecmp (x # xs) (y # ys) =
     (if c_tolower x = c_tolower y then strcasecmp xs ys
      else compare_chars (c_tolower x) (c_tolower y))"

fun strncasecmp :: "string \<Rightarrow> string \<Rightarrow> size_t \<Rightarrow> int" where
  "strncasecmp xs ys 0 = 0"
| "strncasecmp [] [] (Suc n) = 0"
| "strncasecmp [] (y # ys) (Suc n) = - 1"
| "strncasecmp (x # xs) [] (Suc n) = 1"
| "strncasecmp (x # xs) (y # ys) (Suc n) =
     (if c_tolower x = c_tolower y then strncasecmp xs ys n
      else compare_chars (c_tolower x) (c_tolower y))"

section \<open>The helpers\<close>

definition ubench_str_dup ::
    "('w, 'x) c_platform_scheme \<Rightarrow> string \<Rightarrow> ('w, string option) ext" where
  "ubench_str_dup P str w =
    (case malloc_ok P w of (ok, w') \<Rightarrow> if \<not> ok then (None, w') else (Some str, w'))"

definition ubench_str_is_icase_equal :: "string \<Rightarrow> string \<Rightarrow> bool" where
  "ubench_str_is_icase_equal a b \<longleftrightarrow> strcasecmp a b = 0"

definition ubench_str_starts_with_icase :: "string \<Rightarrow> string \<Rightarrow> bool" where
  "ubench_str_starts_with_icase str prefix \<longleftrightarrow> strncasecmp str prefix (length prefix) = 0"

section \<open>The contract\<close>

lemma strcasecmp_0: "strcasecmp a b = 0 \<longleftrightarrow> map c_tolower a = map c_tolower b"
  by (induction a b rule: strcasecmp.induct) (auto simp: compare_chars_def)

lemma strncasecmp_0:
  "strncasecmp a b n = 0 \<longleftrightarrow> map c_tolower (take n a) = map c_tolower (take n b)"
  by (induction a b n rule: strncasecmp.induct) (auto simp: compare_chars_def)

text \<open>
  A way to compare names up to spelling: equality and prefix of names are equality and prefix of
  their normal forms.
\<close>

locale name_matching =
  fixes norm :: "'c \<Rightarrow> 'c"
    and same :: "'c list \<Rightarrow> 'c list \<Rightarrow> bool"
    and starts :: "'c list \<Rightarrow> 'c list \<Rightarrow> bool"
  assumes same_iff: "same a b \<longleftrightarrow> map norm a = map norm b"
    and starts_iff: "starts a p \<longleftrightarrow> map norm (take (length p) a) = map norm p"
begin

lemma same_refl: "same a a"
  by (simp add: same_iff)

lemma same_sym: "same a b \<Longrightarrow> same b a"
  by (simp add: same_iff)

lemma same_trans: "same a b \<Longrightarrow> same b c \<Longrightarrow> same a c"
  by (simp add: same_iff)

lemma starts_same: "same a b \<Longrightarrow> starts a p = starts b p"
  by (simp add: same_iff starts_iff flip: take_map)

lemma starts_append: "same p q \<Longrightarrow> starts (p @ s) q"
  by (metis append_eq_conv_conj length_map same_iff starts_iff)

lemma starts_length: "starts a p \<Longrightarrow> length p \<le> length a"
  by (auto simp: starts_iff dest: arg_cong [where f = length])

lemma starts_split: "starts a p \<Longrightarrow> \<exists>q s. a = q @ s \<and> same q p"
  by (metis append_take_drop_id same_iff starts_iff)

lemma same_clash: "same a b \<Longrightarrow> starts a p \<Longrightarrow> \<not> starts b p \<Longrightarrow> False"
  by (simp add: starts_same)

end

interpretation icase: name_matching
  c_tolower ubench_str_is_icase_equal ubench_str_starts_with_icase
  by unfold_locales
     (simp_all add: ubench_str_is_icase_equal_def ubench_str_starts_with_icase_def
       strcasecmp_0 strncasecmp_0)

end
