(* ===== verification/Events.thy ===== *)
theory Events
  imports Getters StrUtil
begin

text \<open>
  The table of known events of \<open>events.c\<close> (lines 251 to 528): how a name is resolved to a
  description of the event, and how the supported events are enumerated.
\<close>

section \<open>PAPI events\<close>

text \<open>A resolver returns whether it knows the event, and the description it fills in.\<close>

definition resolve_papi_event ::
    "('w, 'x) papi_platform_scheme \<Rightarrow> string \<Rightarrow> ubench_event_info_t \<Rightarrow>
      ('w, bool \<times> ubench_event_info_t) ext" where
  "resolve_papi_event P name info w =
    (case PAPI_event_name_to_code P name w of ((ok, papi_event_id), w1) \<Rightarrow>
     if ok \<noteq> PAPI_OK P then ((False, info), w1)
     else case PAPI_get_event_info P papi_event_id w1 of ((ok', count, component_index), w2) \<Rightarrow>
       if ok' \<noteq> PAPI_OK P then ((False, info), w2)
       else if IS_PRESET P papi_event_id \<and> count = 0 then ((False, info), w2)
       else ((True, info\<lparr>event_id := papi_event_id, event_papi_component := component_index\<rparr>), w2))"

definition resolve_papi_event_with_prefix ::
    "('w, 'x) papi_platform_scheme \<Rightarrow> string \<Rightarrow> ubench_event_info_t \<Rightarrow>
      ('w, bool \<times> ubench_event_info_t) ext" where
  "resolve_papi_event_with_prefix P name info w = resolve_papi_event P (drop 5 name) info w"

text \<open>
  A listing calls back with each name; the callback updates its argument \<open>'s\<close> and the environment
  and returns whether to terminate. The \<open>for\<close> loops of \<open>list_papi_events\<close> run as long as PAPI
  has a next event, so they are partial.
\<close>

type_synonym ('s, 'w) event_info_iterator_callback_t = "string \<Rightarrow> 's \<times> 'w \<Rightarrow> bool \<times> 's \<times> 'w"

partial_function (option) enum_loop ::
    "c_int \<Rightarrow> (c_int \<Rightarrow> ('w, c_int \<times> c_int) ext) \<Rightarrow> (c_int \<Rightarrow> 's \<times> 'w \<Rightarrow> bool \<times> 's \<times> 'w) \<Rightarrow>
      c_int \<Rightarrow> c_int \<Rightarrow> 's \<times> 'w \<Rightarrow> (bool \<times> 's \<times> 'w) option" where
  "enum_loop ok next body rc event_code st =
    (if rc \<noteq> ok then Some (False, st)
     else case body event_code st of (terminate, s, w) \<Rightarrow>
       if terminate then Some (True, s, w)
       else case next event_code w of ((rc', event_code'), w') \<Rightarrow>
         enum_loop ok next body rc' event_code' (s, w'))"

text \<open>The bodies of the two loops; returning \<open>False\<close> is \<open>continue\<close>.\<close>

definition list_preset_event ::
    "('w, 'x) papi_platform_scheme \<Rightarrow> ('s, 'w) event_info_iterator_callback_t \<Rightarrow>
      c_int \<Rightarrow> 's \<times> 'w \<Rightarrow> bool \<times> 's \<times> 'w" where
  "list_preset_event P callback event_code st =
    (case st of (s, w) \<Rightarrow>
     case PAPI_event_code_to_name P event_code w of ((rc, name), w1) \<Rightarrow>
     if rc \<noteq> PAPI_OK P then (False, s, w1)
     else case PAPI_get_event_info P event_code w1 of ((rc', count, component_index), w2) \<Rightarrow>
       if rc' \<noteq> PAPI_OK P then (False, s, w2)
       else if IS_PRESET P event_code \<and> count = 0 then (False, s, w2)
       else callback (''PAPI:'' @ name) (s, w2))"

definition list_native_event ::
    "('w, 'x) papi_platform_scheme \<Rightarrow> ('s, 'w) event_info_iterator_callback_t \<Rightarrow>
      c_int \<Rightarrow> 's \<times> 'w \<Rightarrow> bool \<times> 's \<times> 'w" where
  "list_native_event P callback event_code st =
    (case st of (s, w) \<Rightarrow>
     case PAPI_event_code_to_name P event_code w of ((rc, name), w1) \<Rightarrow>
     if rc \<noteq> PAPI_OK P then (False, s, w1)
     else callback (''PAPI:'' @ name) (s, w1))"

text \<open>The outer loop over the components \<open>component\<close>, \<open>component + 1\<close>, \dots\<close>

fun list_component_events ::
    "('w, 'x) papi_platform_scheme \<Rightarrow> ('s, 'w) event_info_iterator_callback_t \<Rightarrow>
      c_int list \<Rightarrow> 's \<times> 'w \<Rightarrow> (bool \<times> 's \<times> 'w) option" where
  "list_component_events P callback [] st = Some (False, st)"
| "list_component_events P callback (component # components) st =
    (case st of (s, w) \<Rightarrow>
     case PAPI_enum_cmp_first P (0 OR PAPI_NATIVE_MASK P) component w of ((rc, event_code), w1) \<Rightarrow>
     case enum_loop (PAPI_OK P) (\<lambda>code. PAPI_enum_cmp_events P code component)
       (list_native_event P callback) rc event_code (s, w1) of
       None \<Rightarrow> None
     | Some (terminate, st') \<Rightarrow>
         if terminate then Some (True, st')
         else list_component_events P callback components st')"

definition list_papi_events ::
    "('w, 'x) papi_platform_scheme \<Rightarrow> ('s, 'w) event_info_iterator_callback_t \<Rightarrow>
      's \<times> 'w \<Rightarrow> (bool \<times> 's \<times> 'w) option" where
  "list_papi_events P callback st =
    (case st of (s, w) \<Rightarrow>
     case PAPI_enum_first P (0 OR PAPI_PRESET_MASK P) w of ((rc, event_code), w1) \<Rightarrow>
     case enum_loop (PAPI_OK P) (PAPI_enum_preset_avail P) (list_preset_event P callback)
       rc event_code (s, w1) of
       None \<Rightarrow> None
     | Some (True, st') \<Rightarrow> Some (True, st')
     | Some (False, s', w') \<Rightarrow>
         (case PAPI_num_components P w' of (component_count, w2) \<Rightarrow>
          list_component_events P callback
            (map of_nat [0..<nat (sint component_count)]) (s', w2)))"

section \<open>The table\<close>

text \<open>\<open>None\<close> is a null function pointer; the terminating entry is the end of the list.\<close>

datatype event_resolver = Papi_resolver | Papi_prefix_resolver

datatype event_lister = Papi_lister

record known_event_t =
  known_name :: string
  obsolete :: bool
  resolver :: "event_resolver option"
  lister :: "event_lister option"
  known_backend :: c_uint
  known_getter_raw :: "getter option"
  known_getter :: "getter option"

definition plain_event :: "string \<Rightarrow> bool \<Rightarrow> c_uint \<Rightarrow> getter \<Rightarrow> getter \<Rightarrow> known_event_t" where
  "plain_event name old back raw get =
    \<lparr>known_name = name, obsolete = old, resolver = None, lister = None,
     known_backend = back, known_getter_raw = Some raw, known_getter = Some get\<rparr>"

definition known_events :: "('w, 'x) c_platform_scheme \<Rightarrow> known_event_t list" where
  "known_events P =
    [plain_event ''JVM_COMPILATIONS'' True UBENCH_EVENT_BACKEND_JVM_COMPILATIONS JvmCompilations JvmCompilations,
     plain_event ''SYS_WALLCLOCK'' True UBENCH_EVENT_BACKEND_SYS_WALLCLOCK WallClockTime WallClockTime] @
    (if HAS_GETRUSAGE P then
      [plain_event ''forced-context-switch'' True UBENCH_EVENT_BACKEND_RESOURCE_USAGE
         ContextSwitchForced ContextSwitchForced] else []) @
    [plain_event ''JVM:compilations'' False UBENCH_EVENT_BACKEND_JVM_COMPILATIONS
       JvmCompilations JvmCompilations] @
    (if HAS_PAPI P then
      [\<lparr>known_name = ''PAPI:'', obsolete = False, resolver = Some Papi_prefix_resolver,
        lister = Some Papi_lister, known_backend = UBENCH_EVENT_BACKEND_PAPI,
        known_getter_raw = Some Papi,
        known_getter = Some Papi\<rparr>] else []) @
    (if HAS_GETRUSAGE P then
      [plain_event ''SYS:forced-context-switches'' False UBENCH_EVENT_BACKEND_RESOURCE_USAGE
         ContextSwitchForced ContextSwitchForced] else []) @
    [plain_event ''SYS:thread-time'' False UBENCH_EVENT_BACKEND_SYS_THREADTIME ThreadTime ThreadTime] @
    (if HAS_GETRUSAGE P then
      [plain_event ''SYS:thread-time-rusage'' False UBENCH_EVENT_BACKEND_RESOURCE_USAGE
         ThreadTimeRusage ThreadTimeRusage] else []) @
    [plain_event ''SYS:wallclock-time'' False UBENCH_EVENT_BACKEND_SYS_WALLCLOCK
       WallClockTime WallClockTime] @
    (if HAS_PAPI P then
      [\<lparr>known_name = [], obsolete = True, resolver = Some Papi_resolver, lister = None,
        known_backend = UBENCH_EVENT_BACKEND_PAPI, known_getter_raw = Some Papi,
        known_getter = Some Papi\<rparr>] else [])"

fun call_resolver ::
    "('w, 'x) papi_platform_scheme \<Rightarrow> event_resolver \<Rightarrow> string \<Rightarrow> ubench_event_info_t \<Rightarrow>
      ('w, bool \<times> ubench_event_info_t) ext" where
  "call_resolver P Papi_resolver name info w = resolve_papi_event P name info w"
| "call_resolver P Papi_prefix_resolver name info w = resolve_papi_event_with_prefix P name info w"

section \<open>Resolving an event\<close>

text \<open>What the loop does after the guards of an entry have passed.\<close>

definition fill_event_info ::
    "('w, 'x) c_platform_scheme \<Rightarrow> known_event_t \<Rightarrow> string \<Rightarrow> ubench_event_info_t \<Rightarrow>
      ('w, bool \<times> ubench_event_info_t) ext" where
  "fill_event_info P it event info w =
    (case ubench_str_dup P event w of (name, w') \<Rightarrow>
      ((True, info\<lparr>backend := known_backend it, op_get_raw := known_getter_raw it,
         op_get := known_getter it, event_name := name\<rparr>), w'))"

fun resolve_in ::
    "('w, 'x) papi_platform_scheme \<Rightarrow> known_event_t list \<Rightarrow> string \<Rightarrow> ubench_event_info_t \<Rightarrow>
      ('w, bool \<times> ubench_event_info_t) ext" where
  "resolve_in P [] event info w = ((False, info), w)"
| "resolve_in P (it # its) event info w =
    (case resolver it of
       None \<Rightarrow>
         if \<not> ubench_str_is_icase_equal event (known_name it) then resolve_in P its event info w
         else fill_event_info P it event info w
     | Some r \<Rightarrow>
         if \<not> ubench_str_starts_with_icase event (known_name it) then resolve_in P its event info w
         else case call_resolver P r event info w of ((ok, info'), w') \<Rightarrow>
           if \<not> ok then resolve_in P its event info' w'
           else fill_event_info P it event info' w')"

definition ubench_event_resolve ::
    "('w, 'x) papi_platform_scheme \<Rightarrow> string option \<Rightarrow> ubench_event_info_t \<Rightarrow>
      ('w, bool \<times> ubench_event_info_t) ext" where
  "ubench_event_resolve P event info w =
    (case event of
       None \<Rightarrow> ((False, info), w)
     | Some name \<Rightarrow> resolve_in P (known_events P) name info w)"

section \<open>Enumerating the events\<close>

fun iterate_in ::
    "('w, 'x) papi_platform_scheme \<Rightarrow> known_event_t list \<Rightarrow>
      ('s, 'w) event_info_iterator_callback_t \<Rightarrow> 's \<times> 'w \<Rightarrow> ('s \<times> 'w) option" where
  "iterate_in P [] callback st = Some st"
| "iterate_in P (it # its) callback st =
    (if obsolete it then iterate_in P its callback st
     else case lister it of
       Some Papi_lister \<Rightarrow>
         (case list_papi_events P callback st of
            None \<Rightarrow> None
          | Some (terminate, st') \<Rightarrow>
              if terminate then Some st' else iterate_in P its callback st')
     | None \<Rightarrow>
         if resolver it = None then
           case callback (known_name it) st of (terminate, st') \<Rightarrow>
             if terminate then Some st' else iterate_in P its callback st'
         else iterate_in P its callback st)"

definition ubench_event_iterate ::
    "('w, 'x) papi_platform_scheme \<Rightarrow> ('s, 'w) event_info_iterator_callback_t option \<Rightarrow>
      's \<times> 'w \<Rightarrow> ('s \<times> 'w) option" where
  "ubench_event_iterate P callback st =
    (case callback of None \<Rightarrow> Some st | Some f \<Rightarrow> iterate_in P (known_events P) f st)"

text \<open>The frequency of the performance counter is read once, when the agent starts.\<close>

definition ubench_event_init :: "('w, 'x) c_platform_scheme \<Rightarrow> c_long \<Rightarrow> ('w, c_long \<times> bool) ext"
where
  "ubench_event_init P windows_timer_frequency w =
    (if HAS_QUERY_PERFORMANCE_COUNTER P then
       case query_performance_frequency P w of (freq, w') \<Rightarrow> ((freq, True), w')
     else ((windows_timer_frequency, True), w))"

section \<open>Which entry a name selects\<close>

definition entry_matches :: "known_event_t \<Rightarrow> string \<Rightarrow> bool" where
  "entry_matches it event =
    (if resolver it = None then ubench_str_is_icase_equal event (known_name it)
     else ubench_str_starts_with_icase event (known_name it))"

text \<open>No entry of the table hides a later one that is selected by its name alone.\<close>

fun no_hidden_entry :: "known_event_t list \<Rightarrow> bool" where
  "no_hidden_entry [] = True"
| "no_hidden_entry (it # its) =
    (list_all (\<lambda>k. resolver k = None \<longrightarrow> \<not> entry_matches it (known_name k)) its \<and>
     no_hidden_entry its)"

lemma c_tolower_eq:
  "c_tolower a = c_tolower b \<longleftrightarrow>
    (let m = of_char a :: nat; n = of_char b in
      (if 65 \<le> m \<and> m \<le> 90 then m + 32 else m) = (if 65 \<le> n \<and> n \<le> 90 then n + 32 else n))"
proof -
  have *: "of_char (c_tolower c) =
      (let n = of_char c :: nat in if 65 \<le> n \<and> n \<le> 90 then n + 32 else n)" for c
    by (simp add: c_tolower_def Let_def)
  have "c_tolower a = c_tolower b \<longleftrightarrow> (of_char (c_tolower a) :: nat) = of_char (c_tolower b)"
    by simp
  then show ?thesis
    by (simp only: * Let_def)
qed

lemma no_hidden_entry_table: "no_hidden_entry (known_events P)"
  by (cases "HAS_PAPI P"; cases "HAS_GETRUSAGE P";
      simp add: known_events_def plain_event_def entry_matches_def icase.same_iff
        icase.starts_iff c_tolower_eq)

lemma entry_matches_same:
  "ubench_str_is_icase_equal a b \<Longrightarrow> entry_matches it a = entry_matches it b"
  by (auto simp: entry_matches_def icase.starts_same intro: icase.same_trans icase.same_sym)

lemma resolve_in_skip:
  "\<not> entry_matches it event \<Longrightarrow> resolve_in P (it # its) event info w = resolve_in P its event info w"
  by (auto simp: entry_matches_def split: option.split if_splits)

lemma resolve_in_skip_all:
  "\<forall>it \<in> set its. \<not> entry_matches it event \<Longrightarrow> resolve_in P its event info w = ((False, info), w)"
proof (induction its)
  case (Cons it its)
  then have "\<not> entry_matches it event" by simp
  then show ?case
    using Cons by (simp del: resolve_in.simps(2) add: resolve_in_skip)
qed simp

lemma resolve_in_plain:
  assumes "no_hidden_entry its" and "k \<in> set its" and "resolver k = None"
    and "ubench_str_is_icase_equal event (known_name k)"
  shows "resolve_in P its event info w = fill_event_info P k event info w"
  using assms
proof (induction its)
  case Nil
  then show ?case by simp
next
  case (Cons it its)
  show ?case
  proof (cases "it = k")
    case True
    then show ?thesis using Cons.prems by simp
  next
    case False
    then have "k \<in> set its" using Cons.prems by simp
    then have "\<not> entry_matches it (known_name k)"
      using Cons.prems by (auto simp: list_all_iff)
    then have "\<not> entry_matches it event"
      using entry_matches_same Cons.prems by blast
    then show ?thesis
      using Cons \<open>k \<in> set its\<close> by (simp del: resolve_in.simps(2) add: resolve_in_skip)
  qed
qed

lemma resolve_plain:
  assumes "k \<in> set (known_events P)" and "resolver k = None"
    and "ubench_str_is_icase_equal event (known_name k)"
  shows "ubench_event_resolve P (Some event) info w = fill_event_info P k event info w"
  by (simp add: ubench_event_resolve_def resolve_in_plain [OF no_hidden_entry_table assms])

lemma fill_event_info_eq:
  "fill_event_info P it event info w =
    ((True, info\<lparr>backend := known_backend it, op_get_raw := known_getter_raw it,
       op_get := known_getter it,
       event_name := (if fst (malloc_ok P w) then Some event else None)\<rparr>),
     snd (malloc_ok P w))"
  by (auto simp: fill_event_info_def ubench_str_dup_def split: prod.split)

text \<open>
  C19: An event named like an entry of the table, in any spelling of upper and lower case, resolves
  to that entry: \<open>ubench_event_resolve\<close> succeeds and stores the backend and the getters of
  that entry, whatever other entries come before it, PAPI's included. On a build without PAPI
  any other name, and on every build a null pointer, fails and changes nothing.
\<close>

theorem event_resolution:
  fixes P :: "('w, 'x) papi_platform_scheme"
  shows "(\<forall>k event info w. k \<in> set (known_events P) \<and> resolver k = None \<and>
        ubench_str_is_icase_equal event (known_name k) \<longrightarrow>
      ubench_event_resolve P (Some event) info w =
        ((True, info\<lparr>backend := known_backend k, op_get_raw := known_getter_raw k,
           op_get := known_getter k,
           event_name := (if fst (malloc_ok P w) then Some event else None)\<rparr>),
         snd (malloc_ok P w))) \<and>
    (\<forall>event info w. \<not> HAS_PAPI P \<and>
        (\<forall>k \<in> set (known_events P). \<not> ubench_str_is_icase_equal event (known_name k)) \<longrightarrow>
      ubench_event_resolve P (Some event) info w = ((False, info), w)) \<and>
    (\<forall>info w. ubench_event_resolve P None info w = ((False, info), w))"
proof (intro conjI allI impI)
  fix event info and w :: 'w
  assume a: "\<not> HAS_PAPI P \<and>
    (\<forall>k \<in> set (known_events P). \<not> ubench_str_is_icase_equal event (known_name k))"
  then have "\<forall>it \<in> set (known_events P). resolver it = None"
    by (auto simp: known_events_def plain_event_def)
  with a show "ubench_event_resolve P (Some event) info w = ((False, info), w)"
    by (simp add: ubench_event_resolve_def resolve_in_skip_all entry_matches_def)
next
  fix k event info and w :: 'w
  assume "k \<in> set (known_events P) \<and> resolver k = None \<and>
    ubench_str_is_icase_equal event (known_name k)"
  then show "ubench_event_resolve P (Some event) info w =
        ((True, info\<lparr>backend := known_backend k, op_get_raw := known_getter_raw k,
           op_get := known_getter k,
           event_name := (if fst (malloc_ok P w) then Some event else None)\<rparr>),
         snd (malloc_ok P w))"
    using resolve_plain fill_event_info_eq by metis
next
  show "ubench_event_resolve P None info w = ((False, info), w)" for info w
    by (simp add: ubench_event_resolve_def)
qed

theorem event_resolution_witness:
  "backend (snd (fst (ubench_event_resolve sample_platform (Some ''sys:WALLCLOCK-time'')
    zero_event_info 0))) = UBENCH_EVENT_BACKEND_SYS_WALLCLOCK"
proof -
  let ?k = "plain_event ''SYS:wallclock-time'' False UBENCH_EVENT_BACKEND_SYS_WALLCLOCK
    WallClockTime WallClockTime"
  have k: "?k \<in> set (known_events sample_platform)" "resolver ?k = None" "known_name ?k = ''SYS:wallclock-time''"
    by (simp_all add: known_events_def plain_event_def)
  have "ubench_str_is_icase_equal ''sys:WALLCLOCK-time'' ''SYS:wallclock-time''"
    by code_simp
  with k show ?thesis
    using event_resolution [of sample_platform, THEN conjunct1, rule_format,
      of ?k "''sys:WALLCLOCK-time''" zero_event_info 0]
    by (simp add: plain_event_def)
qed

section \<open>Aliases\<close>

definition legacy_names :: "('w, 'x) c_platform_scheme \<Rightarrow> (string \<times> string) list" where
  "legacy_names P =
    [(''JVM_COMPILATIONS'', ''JVM:compilations''), (''SYS_WALLCLOCK'', ''SYS:wallclock-time'')] @
    (if HAS_GETRUSAGE P then [(''forced-context-switch'', ''SYS:forced-context-switches'')] else [])"

lemma legacy_entries:
  assumes "(old, new) \<in> set (legacy_names P)"
  obtains k k' where "k \<in> set (known_events P)" "k' \<in> set (known_events P)"
    "resolver k = None" "resolver k' = None" "known_name k = old" "known_name k' = new"
    "known_backend k = known_backend k'" "known_getter_raw k = known_getter_raw k'"
    "known_getter k = known_getter k'"
    "obsolete k" "\<not> obsolete k'"
proof -
  have "\<exists>k \<in> set (known_events P). \<exists>k' \<in> set (known_events P).
    resolver k = None \<and> resolver k' = None \<and> known_name k = old \<and> known_name k' = new \<and>
    known_backend k = known_backend k' \<and> known_getter_raw k = known_getter_raw k' \<and>
    known_getter k = known_getter k' \<and>
    obsolete k \<and> \<not> obsolete k'"
    using assms
    by (cases "HAS_GETRUSAGE P") (auto simp: legacy_names_def known_events_def plain_event_def)
  with that show thesis by blast
qed

text \<open>
  C33: The legacy names are aliases: resolving one gives the description of the event of the new
  naming, with the same backend and the same getters; only the recorded name differs.
\<close>

theorem legacy_names_are_aliases:
  assumes "(old, new) \<in> set (legacy_names P)"
  shows "ubench_event_resolve P (Some new) info w =
    (case ubench_event_resolve P (Some old) info w of ((ok, i), w') \<Rightarrow>
      ((ok, i\<lparr>event_name := map_option (\<lambda>_. new) (event_name i)\<rparr>), w')) \<and>
    fst (fst (ubench_event_resolve P (Some old) info w))"
  using assms
  by (rule legacy_entries)
     (simp add: resolve_plain icase.same_refl fill_event_info_eq)

theorem legacy_names_are_aliases_witness:
  "fst (fst (ubench_event_resolve sample_platform (Some ''SYS_WALLCLOCK'') zero_event_info 0))"
  using legacy_names_are_aliases [of "''SYS_WALLCLOCK''" "''SYS:wallclock-time''" sample_platform
    zero_event_info 0]
  by (simp add: legacy_names_def)

section \<open>PAPI names\<close>

lemma resolve_in_append_skip:
  "\<forall>it \<in> set pre. \<not> entry_matches it event \<Longrightarrow>
    resolve_in P (pre @ post) event info w = resolve_in P post event info w"
proof (induction pre)
  case (Cons it pre)
  then have "\<not> entry_matches it event" by simp
  then show ?case
    using Cons by (simp del: resolve_in.simps(2) add: resolve_in_skip)
qed simp

definition papi_entry :: known_event_t where
  "papi_entry = \<lparr>known_name = ''PAPI:'', obsolete = False, resolver = Some Papi_prefix_resolver,
    lister = Some Papi_lister, known_backend = UBENCH_EVENT_BACKEND_PAPI, known_getter_raw = Some Papi,
        known_getter = Some Papi\<rparr>"

definition papi_catch_all :: known_event_t where
  "papi_catch_all = \<lparr>known_name = [], obsolete = True, resolver = Some Papi_resolver,
    lister = None, known_backend = UBENCH_EVENT_BACKEND_PAPI, known_getter_raw = Some Papi,
        known_getter = Some Papi\<rparr>"

lemma known_events_papi:
  assumes "HAS_PAPI P"
  obtains pre mid where "known_events P = pre @ papi_entry # mid @ [papi_catch_all]"
    "\<forall>it \<in> set pre. resolver it = None \<and> \<not> ubench_str_starts_with_icase (known_name it) ''PAPI:''"
    "\<forall>it \<in> set mid. resolver it = None"
proof -
  let ?pre = "takeWhile (\<lambda>k. resolver k = None) (known_events P)"
  let ?mid = "butlast (drop (Suc (length ?pre)) (known_events P))"
  show thesis
    using assms
    by (intro that [of ?pre ?mid]; cases "HAS_GETRUSAGE P")
       (simp_all add: known_events_def plain_event_def papi_entry_def papi_catch_all_def
         icase.starts_iff c_tolower_eq)
qed

lemma resolve_papi_prefixed:
  assumes papi: "HAS_PAPI P" and prefix: "ubench_str_is_icase_equal p ''PAPI:''"
    and known: "resolve_papi_event P n info w = ((True, i), w1)"
  shows "ubench_event_resolve P (Some (p @ n)) info w = fill_event_info P papi_entry (p @ n) i w1"
proof -
  obtain pre mid where table: "known_events P = pre @ papi_entry # mid @ [papi_catch_all]"
    and pre: "\<forall>it \<in> set pre. resolver it = None \<and>
      \<not> ubench_str_starts_with_icase (known_name it) ''PAPI:''"
    using known_events_papi [OF papi] by metis
  have start: "ubench_str_starts_with_icase (p @ n) ''PAPI:''"
    using prefix by (rule icase.starts_append)
  then have "\<forall>it \<in> set pre. \<not> entry_matches it (p @ n)"
    using pre icase.same_clash by (auto simp: entry_matches_def)
  moreover have "length p = 5"
    using prefix by (auto simp: icase.same_iff dest: arg_cong [where f = length])
  ultimately show ?thesis
    using start known
    by (simp add: ubench_event_resolve_def table resolve_in_append_skip papi_entry_def
        resolve_papi_event_with_prefix_def)
qed

lemma resolve_papi_bare:
  assumes papi: "HAS_PAPI P" and known: "resolve_papi_event P n info w = ((True, i), w1)"
    and free: "\<forall>k \<in> set (known_events P). resolver k = None \<longrightarrow> \<not> ubench_str_is_icase_equal n (known_name k)"
      "\<not> ubench_str_starts_with_icase n ''PAPI:''"
  shows "ubench_event_resolve P (Some n) info w = fill_event_info P papi_catch_all n i w1"
proof -
  obtain pre mid where table: "known_events P = pre @ papi_entry # mid @ [papi_catch_all]"
    and plain: "\<forall>it \<in> set pre. resolver it = None" "\<forall>it \<in> set mid. resolver it = None"
    using known_events_papi [OF papi] by metis
  have "\<forall>it \<in> set (pre @ papi_entry # mid). \<not> entry_matches it n"
    using plain free by (auto simp: entry_matches_def table papi_entry_def)
  then have "resolve_in P ((pre @ papi_entry # mid) @ [papi_catch_all]) n info w =
      resolve_in P [papi_catch_all] n info w"
    by (rule resolve_in_append_skip)
  then show ?thesis
    using known by (simp add: ubench_event_resolve_def table papi_catch_all_def icase.starts_iff)
qed

text \<open>
  C32: On a build with PAPI, a PAPI event can be named with the prefix \<open>PAPI:\<close> in any spelling, or
  without it as long as no entry of the table takes the name; both resolve to the same event code
  and component, with the PAPI backend and getters.
\<close>

theorem papi_names_resolve:
  fixes P :: "('w, 'x) papi_platform_scheme"
  assumes papi: "HAS_PAPI P" and prefix: "ubench_str_is_icase_equal p ''PAPI:''"
    and known: "resolve_papi_event P n info w = ((True, i), w1)"
  shows "ubench_event_resolve P (Some (p @ n)) info w = fill_event_info P papi_entry (p @ n) i w1 \<and>
    ((\<forall>k \<in> set (known_events P). resolver k = None \<longrightarrow> \<not> ubench_str_is_icase_equal n (known_name k)) \<and>
      \<not> ubench_str_starts_with_icase n ''PAPI:'' \<longrightarrow>
      ubench_event_resolve P (Some n) info w = fill_event_info P papi_catch_all n i w1)"
  using resolve_papi_prefixed [OF papi prefix known] resolve_papi_bare [OF papi known] by blast

theorem papi_names_resolve_witness:
  "ubench_event_resolve sample_platform (Some ''papi:PAPI_TOT_INS'') zero_event_info 0 =
    fill_event_info sample_platform papi_entry ''papi:PAPI_TOT_INS''
      (zero_event_info\<lparr>event_id := 50\<rparr>) 0"
proof -
  have "ubench_str_is_icase_equal ''papi:'' ''PAPI:''"
    by (simp add: icase.same_iff c_tolower_eq)
  moreover have "resolve_papi_event sample_platform ''PAPI_TOT_INS'' zero_event_info 0 =
      ((True, zero_event_info\<lparr>event_id := 50\<rparr>), 0)"
    by (simp add: resolve_papi_event_def sample_platform_def zero_event_info_def)
  ultimately show ?thesis
    using papi_names_resolve [of sample_platform "''papi:''" "''PAPI_TOT_INS''" zero_event_info 0]
    by (simp add: sample_platform_def)
qed

section \<open>What a successful resolution fills in\<close>

definition resolved :: "('w, 'x) c_platform_scheme \<Rightarrow> ubench_event_info_t \<Rightarrow> bool" where
  "resolved P info \<longleftrightarrow> (\<exists>k \<in> set (known_events P).
    backend info = known_backend k \<and> op_get info = known_getter k \<and>
    op_get_raw info = known_getter_raw k)"

text \<open>The backend that fills the members of a snapshot from which a getter reads.\<close>

fun reads_backend :: "getter \<Rightarrow> c_uint" where
  "reads_backend WallClockTime = UBENCH_EVENT_BACKEND_SYS_WALLCLOCK"
| "reads_backend ThreadTime = UBENCH_EVENT_BACKEND_SYS_THREADTIME"
| "reads_backend JvmCompilations = UBENCH_EVENT_BACKEND_JVM_COMPILATIONS"
| "reads_backend ContextSwitchForced = UBENCH_EVENT_BACKEND_RESOURCE_USAGE"
| "reads_backend ThreadTimeRusage = UBENCH_EVENT_BACKEND_RESOURCE_USAGE"
| "reads_backend Papi = UBENCH_EVENT_BACKEND_PAPI"

lemma reads_papi_backend: "reads_backend g = UBENCH_EVENT_BACKEND_PAPI \<longleftrightarrow> g = Papi"
  by (cases g) (simp_all add: backend_defs)

lemma known_events_backends:
  "k \<in> set (known_events P) \<Longrightarrow>
    (\<exists>g. known_getter k = Some g \<and> known_getter_raw k = Some g \<and> known_backend k = reads_backend g \<and>
      (g = Papi \<longrightarrow> HAS_PAPI P))"
  by (auto simp: known_events_def plain_event_def split: if_splits)

lemma resolved_getters:
  "resolved P info \<Longrightarrow> \<exists>g. op_get info = Some g \<and> op_get_raw info = Some g \<and>
    backend info = reads_backend g \<and> (backend info = UBENCH_EVENT_BACKEND_PAPI \<longleftrightarrow> g = Papi) \<and>
    (g = Papi \<longrightarrow> HAS_PAPI P)"
  by (auto simp: resolved_def reads_papi_backend dest!: known_events_backends)

lemma resolve_papi_event_index:
  "resolve_papi_event P n info w = ((ok, i), w') \<Longrightarrow>
    papi_index i = papi_index info \<and> (\<not> ok \<longrightarrow> i = info)"
  by (auto simp: resolve_papi_event_def split: prod.splits if_splits)

lemma call_resolver_index:
  "call_resolver P r n info w = ((ok, i), w') \<Longrightarrow>
    papi_index i = papi_index info \<and> (\<not> ok \<longrightarrow> i = info)"
  by (cases r) (auto simp: resolve_papi_event_with_prefix_def dest: resolve_papi_event_index)

lemma resolve_in_result:
  assumes "resolve_in P its event info w = ((ok, i), w')" and "set its \<subseteq> set (known_events P)"
  shows "(ok \<longrightarrow> resolved P i \<and> papi_index i = papi_index info) \<and> (\<not> ok \<longrightarrow> i = info)"
  using assms
proof (induction its arbitrary: info w)
  case Nil
  then show ?case by simp
next
  case (Cons it its)
  have fill: "resolved P j \<and> papi_index j = papi_index i1 \<and> ok'"
    if "fill_event_info P it event i1 w1 = ((ok', j), w2)" for i1 w1 ok' j w2
    using that Cons.prems(2) by (auto simp: fill_event_info_eq resolved_def)
  show ?case
    using Cons.prems Cons.IH fill
    by (fastforce split: option.splits if_splits prod.splits dest: call_resolver_index)
qed

lemma resolve_result:
  assumes "ubench_event_resolve P event info w = ((ok, i), w')"
  shows "(ok \<longrightarrow> resolved P i \<and> papi_index i = papi_index info \<and> event \<noteq> None) \<and> (\<not> ok \<longrightarrow> i = info)"
  using assms resolve_in_result [of P "known_events P" _ info w]
  by (auto simp: ubench_event_resolve_def split: option.splits)

section \<open>What a listing calls back with\<close>

text \<open>
  What PAPI enumerates: the code that the first call of an enumeration yields, and those that the
  following calls yield for a code enumerated before. A name is listed if it is a current one of
  the table, or \<open>PAPI:\<close> and the name of a preset that PAPI enumerates and describes or of a code that
  it enumerates for one of its components.
\<close>

inductive enumerated ::
    "c_int \<Rightarrow> ('w, c_int \<times> c_int) ext \<Rightarrow> (c_int \<Rightarrow> ('w, c_int \<times> c_int) ext) \<Rightarrow> c_int \<Rightarrow> bool"
  for ok :: c_int and first :: "('w, c_int \<times> c_int) ext" and nxt :: "c_int \<Rightarrow> ('w, c_int \<times> c_int) ext" where
  first_code: "first w = ((ok, code), w') \<Longrightarrow> enumerated ok first nxt code"
| next_code: "enumerated ok first nxt code \<Longrightarrow> nxt code w = ((ok, code'), w') \<Longrightarrow>
    enumerated ok first nxt code'"

definition preset_code :: "('w, 'x) papi_platform_scheme \<Rightarrow> c_int \<Rightarrow> bool" where
  "preset_code P = enumerated (PAPI_OK P) (PAPI_enum_first P (PAPI_PRESET_MASK P)) (PAPI_enum_preset_avail P)"

definition papi_components :: "('w, 'x) papi_platform_scheme \<Rightarrow> c_int set" where
  "papi_components P = {component. \<exists>w n w'. PAPI_num_components P w = (n, w') \<and>
    component \<in> set (map of_nat [0..<nat (sint n)])}"

definition native_code :: "('w, 'x) papi_platform_scheme \<Rightarrow> c_int \<Rightarrow> bool" where
  "native_code P event_code \<longleftrightarrow> (\<exists>component \<in> papi_components P.
    enumerated (PAPI_OK P) (PAPI_enum_cmp_first P (PAPI_NATIVE_MASK P) component)
      (\<lambda>code. PAPI_enum_cmp_events P code component) event_code)"

definition described_code :: "('w, 'x) papi_platform_scheme \<Rightarrow> c_int \<Rightarrow> bool" where
  "described_code P event_code \<longleftrightarrow>
    (\<exists>w count component w'.
      PAPI_get_event_info P event_code w = ((PAPI_OK P, count, component), w') \<and>
      (IS_PRESET P event_code \<longrightarrow> count \<noteq> 0))"

definition listed_name :: "('w, 'x) papi_platform_scheme \<Rightarrow> string \<Rightarrow> bool" where
  "listed_name P name \<longleftrightarrow>
    (\<exists>k \<in> set (known_events P). \<not> obsolete k \<and> resolver k = None \<and> name = known_name k) \<or>
    HAS_PAPI P \<and> (\<exists>event_code w n w'.
      PAPI_event_code_to_name P event_code w = ((PAPI_OK P, n), w') \<and> name = ''PAPI:'' @ n \<and>
      (preset_code P event_code \<and> described_code P event_code \<or> native_code P event_code))"

text \<open>An invariant of the callback's argument that every callback with a listed name keeps.\<close>

definition callback_keeps ::
    "('s \<Rightarrow> bool) \<Rightarrow> (string \<Rightarrow> bool) \<Rightarrow> ('s, 'w) event_info_iterator_callback_t \<Rightarrow> bool" where
  "callback_keeps I N callback \<longleftrightarrow>
    (\<forall>name s w. N name \<and> I s \<longrightarrow> I (fst (snd (callback name (s, w)))))"

lemma callback_keepsD:
  "callback_keeps I N callback \<Longrightarrow> N name \<Longrightarrow> I s \<Longrightarrow> I (fst (snd (callback name (s, w))))"
  by (simp add: callback_keeps_def)

lemma listed_papi_name:
  "HAS_PAPI P \<Longrightarrow> PAPI_event_code_to_name P event_code w = ((PAPI_OK P, n), w') \<Longrightarrow>
    preset_code P event_code \<and> described_code P event_code \<or> native_code P event_code \<Longrightarrow> listed_name P (''PAPI:'' @ n)"
  unfolding listed_name_def by blast

lemma enum_loop_keeps:
  assumes ret: "enum_loop ok nxt body rc code st = Some r" and "I (fst st)"
    and "rc = ok \<Longrightarrow> J code"
    and "\<And>c w c' w'. J c \<Longrightarrow> nxt c w = ((ok, c'), w') \<Longrightarrow> J c'"
    and "\<And>c s w. J c \<Longrightarrow> I s \<Longrightarrow> I (fst (snd (body c (s, w))))"
  shows "I (fst (snd r))"
proof -
  let ?next = "\<lambda>ok nxt. \<forall>c w c' w'. J c \<longrightarrow> nxt c w = ((ok, c'), w') \<longrightarrow> J c'"
  let ?body = "\<lambda>body. \<forall>c s w. J c \<longrightarrow> I s \<longrightarrow> I (fst (snd (body c (s, w))))"
  have "?next ok nxt \<longrightarrow> ?body body \<longrightarrow> (rc = ok \<longrightarrow> J code) \<longrightarrow> I (fst st) \<longrightarrow> I (fst (snd r))"
  proof (rule enum_loop.raw_induct [where P = "\<lambda>ok nxt body rc code st r.
      ?next ok nxt \<longrightarrow> ?body body \<longrightarrow> (rc = ok \<longrightarrow> J code) \<longrightarrow> I (fst st) \<longrightarrow> I (fst (snd r))", OF _ ret],
      intro impI)
    fix loop ok nxt body rc code and st :: "'a \<times> 'b" and r
    assume IH: "\<And>ok nxt body rc code st r. loop ok nxt body rc code st = Some r \<Longrightarrow>
        ?next ok nxt \<longrightarrow> ?body body \<longrightarrow> (rc = ok \<longrightarrow> J code) \<longrightarrow> I (fst st) \<longrightarrow> I (fst (snd r))"
      and eq: "(if rc \<noteq> ok then Some (False, st)
        else case body code st of (terminate, s, w) \<Rightarrow>
          if terminate then Some (True, s, w)
          else case nxt code w of ((rc', event_code'), w') \<Rightarrow>
            loop ok nxt body rc' event_code' (s, w')) = Some r"
      and nxt: "?next ok nxt" and body: "?body body" and code: "rc = ok \<longrightarrow> J code"
      and st: "I (fst st)"
    obtain t s1 w1 where b: "body code st = (t, s1, w1)" by (metis prod.exhaust)
    obtain rc' code' w2 where n: "nxt code w1 = ((rc', code'), w2)" by (metis prod.exhaust)
    show "I (fst (snd r))"
    proof (cases "rc = ok")
      case False
      then show ?thesis using eq st by auto
    next
      case True
      then have "I (fst (snd (body code st)))"
        using body code st by (cases st) simp
      then have I: "I s1" by (simp add: b)
      have "rc' = ok \<longrightarrow> J code'" using nxt n code True by blast
      then show ?thesis
        using eq True I IH [of ok nxt body rc' code' "(s1, w2)" r] nxt body
        by (cases t) (auto simp add: b n)
    qed
  qed
  with assms show ?thesis by blast
qed

lemma list_preset_event_keeps:
  assumes "callback_keeps I (listed_name P) callback" and "HAS_PAPI P" and "preset_code P code" and "I s"
  shows "I (fst (snd (list_preset_event P callback code (s, w))))"
proof -
  obtain rc name w1 where name: "PAPI_event_code_to_name P code w = ((rc, name), w1)"
    by (metis prod.exhaust)
  obtain rc' count component w2 where info:
    "PAPI_get_event_info P code w1 = ((rc', count, component), w2)"
    by (metis prod.exhaust)
  have "listed_name P (''PAPI:'' @ name)"
    if "rc = PAPI_OK P" "rc' = PAPI_OK P" "\<not> (IS_PRESET P code \<and> count = 0)"
    using that name info by (intro listed_papi_name [OF assms(2)]) (auto simp: described_code_def assms(3))
  then show ?thesis
    using assms(4) callback_keepsD [OF assms(1) _ assms(4)]
    by (auto simp: list_preset_event_def name info)
qed

lemma list_native_event_keeps:
  assumes "callback_keeps I (listed_name P) callback" and "HAS_PAPI P" and "native_code P code"
    and "I s"
  shows "I (fst (snd (list_native_event P callback code (s, w))))"
  using assms(3,4) callback_keepsD [OF assms(1) listed_papi_name [OF assms(2)] assms(4)]
  unfolding list_native_event_def by (auto split: prod.splits)

lemma list_component_events_keeps:
  assumes keeps: "callback_keeps I (listed_name P) callback" "HAS_PAPI P"
  shows "list_component_events P callback cs st = Some r \<Longrightarrow> set cs \<subseteq> papi_components P \<Longrightarrow>
    I (fst st) \<Longrightarrow> I (fst (snd r))"
proof (induction cs arbitrary: st)
  case Nil
  then show ?case by auto
next
  case (Cons c cs)
  obtain s w where st: "st = (s, w)" by (cases st)
  obtain rc code w1 where first:
    "PAPI_enum_cmp_first P (PAPI_NATIVE_MASK P) c w = ((rc, code), w1)"
    by (metis prod.exhaust)
  let ?loop = "enum_loop (PAPI_OK P) (\<lambda>code. PAPI_enum_cmp_events P code c)
      (list_native_event P callback) rc code (s, w1)"
  have "?loop \<noteq> None"
  proof
    assume "?loop = None"
    then show False using Cons.prems(1) by (simp add: st first)
  qed
  then obtain terminate st' where loop: "?loop = Some (terminate, st')"
    by (metis option.exhaust prod.exhaust)
  let ?J = "enumerated (PAPI_OK P) (PAPI_enum_cmp_first P (PAPI_NATIVE_MASK P) c)
    (\<lambda>code. PAPI_enum_cmp_events P code c)"
  have "native_code P code" if "?J code" for code
    using that Cons.prems(2) by (auto simp: native_code_def)
  then have "I (fst (snd (terminate, st')))"
    using Cons.prems(3) st first list_native_event_keeps [OF keeps]
    by - (rule enum_loop_keeps [where I = I and J = ?J, OF loop], auto intro: enumerated.intros)
  then show ?case
    using Cons loop by (auto simp: st first split: if_splits)
qed

lemma list_papi_events_keeps:
  assumes keeps: "callback_keeps I (listed_name P) callback" "HAS_PAPI P"
    and ret: "list_papi_events P callback st = Some r" and "I (fst st)"
  shows "I (fst (snd r))"
proof -
  obtain s w where st: "st = (s, w)" by (cases st)
  obtain rc code w1 where first: "PAPI_enum_first P (PAPI_PRESET_MASK P) w = ((rc, code), w1)"
    by (metis prod.exhaust)
  let ?loop = "enum_loop (PAPI_OK P) (PAPI_enum_preset_avail P) (list_preset_event P callback)
      rc code (s, w1)"
  have "?loop \<noteq> None"
  proof
    assume "?loop = None"
    then show False using ret by (simp add: list_papi_events_def st first)
  qed
  then obtain terminate s' w' where loop: "?loop = Some (terminate, s', w')"
    by (metis option.exhaust prod.exhaust)
  have "I (fst (snd (terminate, s', w')))"
    using assms(4) st first list_preset_event_keeps [OF keeps]
    by - (rule enum_loop_keeps [where I = I and J = "preset_code P", OF loop],
        auto simp: preset_code_def intro: enumerated.intros)
  then have I: "I s'" by simp
  obtain n w2 where n: "PAPI_num_components P w' = (n, w2)" by (metis prod.exhaust)
  show ?thesis
  proof (cases terminate)
    case True
    then show ?thesis using ret loop I by (simp add: list_papi_events_def st first) auto
  next
    case False
    then have rest: "list_component_events P callback (map of_nat [0..<nat (sint n)]) (s', w2) = Some r"
      using ret loop by (simp add: list_papi_events_def st first n)
    have "set (map of_nat [0..<nat (sint n)]) \<subseteq> papi_components P"
      unfolding papi_components_def using n by blast
    from list_component_events_keeps [OF keeps rest this] I show ?thesis by simp
  qed
qed

lemma iterate_in_keeps:
  assumes keeps: "callback_keeps I (listed_name P) callback"
  shows "iterate_in P its callback st = Some r \<Longrightarrow> set its \<subseteq> set (known_events P) \<Longrightarrow>
    I (fst st) \<Longrightarrow> I (fst r)"
proof (induction its arbitrary: st)
  case Nil
  then show ?case by simp
next
  case (Cons it its)
  have name: "listed_name P (known_name it)" if "\<not> obsolete it" "resolver it = None"
    using that Cons.prems(2) by (auto simp: listed_name_def)
  have "HAS_PAPI P" if "lister it = Some Papi_lister"
    using that Cons.prems(2) by (auto simp: known_events_def plain_event_def split: if_splits)
  then have papi: "I (fst (snd q))"
    if "lister it = Some Papi_lister" "list_papi_events P callback st = Some q" for q
    using that Cons.prems list_papi_events_keeps [OF keeps] by blast
  have call: "I (fst (snd (callback (known_name it) st)))" if "\<not> obsolete it" "resolver it = None"
    using callback_keepsD [OF keeps name [OF that], of "fst st" "snd st"] Cons.prems by simp
  show ?case
  proof (cases "obsolete it")
    case True
    then show ?thesis using Cons by simp
  next
    case False
    show ?thesis
    proof (cases "lister it")
      case None
      then show ?thesis
        using Cons False call by (auto split: if_splits prod.splits)
    next
      case (Some l)
      then have l: "lister it = Some Papi_lister" by (cases l) simp
      then obtain terminate st' where ret: "list_papi_events P callback st = Some (terminate, st')"
        using Cons.prems(1) False by (auto split: option.splits)
      then have "I (fst st')" using papi [OF l] by fastforce
      then show ?thesis
        using Cons False l ret by (auto split: if_splits)
    qed
  qed
qed

lemma event_iterate_keeps:
  assumes "callback_keeps I (listed_name P) callback"
    and "ubench_event_iterate P (Some callback) st = Some r" and "I (fst st)"
  shows "I (fst r)"
  using assms iterate_in_keeps [OF assms(1)] by (simp add: ubench_event_iterate_def)

section \<open>When a listing returns\<close>

text \<open>
  PAPI's enumeration of events is finite: each next event has a smaller rank (PAPI hands out
  increasing codes below a bound).
\<close>

definition papi_enumeration_ends :: "('w, 'x) papi_platform_scheme \<Rightarrow> (c_int \<Rightarrow> nat) \<Rightarrow> bool" where
  "papi_enumeration_ends P rank \<longleftrightarrow>
    (\<forall>c w c' w'. PAPI_enum_preset_avail P c w = ((PAPI_OK P, c'), w') \<longrightarrow> rank c' < rank c) \<and>
    (\<forall>c k w c' w'. PAPI_enum_cmp_events P c k w = ((PAPI_OK P, c'), w') \<longrightarrow> rank c' < rank c)"

lemma enum_loop_returns:
  assumes rank: "\<And>c w c' w'. nxt c w = ((ok, c'), w') \<Longrightarrow> rank c' < (rank c :: nat)"
  shows "\<exists>r. enum_loop ok nxt body rc code st = Some r"
proof (induction "rank code" arbitrary: rc code st rule: less_induct)
  case less
  obtain t s1 w1 where b: "body code st = (t, s1, w1)" by (metis prod.exhaust)
  obtain rc' code' w2 where n: "nxt code w1 = ((rc', code'), w2)" by (metis prod.exhaust)
  have stop: "\<exists>r. enum_loop ok nxt body rc' code' (s1, w2) = Some r" if "rc' \<noteq> ok"
    using that by (simp add: enum_loop.simps [of ok nxt body rc'] del: split_paired_Ex)
  have more: "\<exists>r. enum_loop ok nxt body rc' code' (s1, w2) = Some r" if "rc' = ok"
    using less [of code'] rank n that by blast
  from stop more have "\<exists>r. enum_loop ok nxt body rc' code' (s1, w2) = Some r" by blast
  then show ?case by (simp add: enum_loop.simps [of ok nxt body rc code] b n del: split_paired_Ex)
qed

lemma list_component_events_returns:
  assumes "papi_enumeration_ends P rank"
  shows "\<exists>r. list_component_events P callback cs st = Some r"
proof (induction cs arbitrary: st)
  case Nil
  show ?case by (simp del: split_paired_Ex)
next
  case (Cons c cs)
  obtain s w where st: "st = (s, w)" by (cases st)
  obtain rc code w1 where first: "PAPI_enum_cmp_first P (PAPI_NATIVE_MASK P) c w = ((rc, code), w1)"
    by (metis prod.exhaust)
  have "\<exists>r. enum_loop (PAPI_OK P) (\<lambda>code. PAPI_enum_cmp_events P code c)
      (list_native_event P callback) rc code (s, w1) = Some r"
    using assms unfolding papi_enumeration_ends_def by (intro enum_loop_returns [of _ _ rank]) blast
  then obtain t st' where "enum_loop (PAPI_OK P) (\<lambda>code. PAPI_enum_cmp_events P code c)
      (list_native_event P callback) rc code (s, w1) = Some (t, st')"
    by (metis prod.exhaust)
  then show ?case using Cons by (simp add: st first del: split_paired_Ex)
qed

lemma list_papi_events_returns:
  assumes "papi_enumeration_ends P rank"
  shows "\<exists>r. list_papi_events P callback st = Some r"
proof -
  obtain s w where st: "st = (s, w)" by (cases st)
  obtain rc code w1 where first: "PAPI_enum_first P (PAPI_PRESET_MASK P) w = ((rc, code), w1)"
    by (metis prod.exhaust)
  have "\<exists>r. enum_loop (PAPI_OK P) (PAPI_enum_preset_avail P) (list_preset_event P callback)
      rc code (s, w1) = Some r"
    using assms unfolding papi_enumeration_ends_def by (intro enum_loop_returns [of _ _ rank]) blast
  then obtain t s' w' where loop: "enum_loop (PAPI_OK P) (PAPI_enum_preset_avail P)
      (list_preset_event P callback) rc code (s, w1) = Some (t, s', w')"
    by (metis prod.exhaust)
  obtain n w2 where n: "PAPI_num_components P w' = (n, w2)" by (metis prod.exhaust)
  show ?thesis
    using list_component_events_returns [OF assms]
    by (cases t) (simp_all add: list_papi_events_def st first loop n del: split_paired_Ex)
qed

lemma iterate_in_returns:
  assumes "papi_enumeration_ends P rank"
  shows "\<exists>r. iterate_in P its callback st = Some r"
proof (induction its arbitrary: st)
  case Nil
  then show ?case by simp
next
  case (Cons it its)
  obtain t st1 where list: "list_papi_events P callback st = Some (t, st1)"
    using list_papi_events_returns [OF assms] by (metis prod.exhaust)
  obtain t2 st2 where call: "callback (known_name it) st = (t2, st2)" by (metis prod.exhaust)
  have "lister it = None \<or> lister it = Some Papi_lister"
    by (metis event_lister.exhaust option.exhaust)
  then show ?case
    using Cons by (elim disjE) (simp_all add: list call del: split_paired_Ex)
qed

lemma event_iterate_returns:
  "papi_enumeration_ends P rank \<Longrightarrow> \<exists>r. ubench_event_iterate P callback st = Some r"
  by (cases callback)
     (simp_all add: ubench_event_iterate_def iterate_in_returns del: split_paired_Ex)

text \<open>
  What PAPI documents about its names: the name it gives to an event code translates back to that
  code, the description of an event is a property of the event, and the codes that the components
  enumerate are native events, which have a description.
\<close>

definition papi_names_consistent :: "('w, 'x) papi_platform_scheme \<Rightarrow> bool" where
  "papi_names_consistent P \<longleftrightarrow>
    (\<forall>c n w w1. PAPI_event_code_to_name P c w = ((PAPI_OK P, n), w1) \<longrightarrow>
      (\<forall>w2. fst (PAPI_event_name_to_code P n w2) = (PAPI_OK P, c))) \<and>
    (\<forall>c w w'. fst (PAPI_get_event_info P c w) = fst (PAPI_get_event_info P c w')) \<and>
    (\<forall>c w. native_code P c \<longrightarrow> \<not> IS_PRESET P c \<and> fst (fst (PAPI_get_event_info P c w)) = PAPI_OK P)"

lemma papi_name_resolves:
  assumes papi: "papi_names_consistent P"
    and name: "PAPI_event_code_to_name P c w0 = ((PAPI_OK P, n), w1)"
    and code: "described_code P c \<or> native_code P c"
  shows "\<exists>i w'. resolve_papi_event P n info w = ((True, i), w') \<and> event_id i = c"
proof -
  note laws = papi [unfolded papi_names_consistent_def]
  obtain w2 where code_of: "PAPI_event_name_to_code P n w = ((PAPI_OK P, c), w2)"
    using laws name by (metis prod.collapse)
  obtain ok count component w3 where info: "PAPI_get_event_info P c w2 = ((ok, count, component), w3)"
    by (metis prod.exhaust)
  have "fst (PAPI_get_event_info P c w') = (ok, count, component)" for w'
    using laws info by (metis fst_conv)
  then have "ok = PAPI_OK P \<and> (IS_PRESET P c \<longrightarrow> count \<noteq> 0)"
    using code laws unfolding described_code_def by (metis fst_conv prod.inject)
  then show ?thesis
    by (simp add: resolve_papi_event_def code_of info)
qed

lemma listed_name_resolves:
  assumes papi: "papi_names_consistent P" and name: "listed_name P name"
  shows "fst (fst (ubench_event_resolve P (Some name) info w))"
  using name unfolding listed_name_def
proof (elim disjE bexE conjE exE)
  fix k assume "k \<in> set (known_events P)" "resolver k = None" "name = known_name k"
  then show ?thesis
    using icase.same_refl by (simp add: resolve_plain fill_event_info_eq)
next
  fix c w0 n w1
  assume a: "HAS_PAPI P" "PAPI_event_code_to_name P c w0 = ((PAPI_OK P, n), w1)" "name = ''PAPI:'' @ n"
    and code: "described_code P c"
  from papi_name_resolves [OF papi a(2)] code show ?thesis
    using resolve_papi_prefixed [OF a(1) icase.same_refl] a(3) by (metis fill_event_info_eq fst_conv)
next
  fix c w0 n w1
  assume a: "HAS_PAPI P" "PAPI_event_code_to_name P c w0 = ((PAPI_OK P, n), w1)" "name = ''PAPI:'' @ n"
    and code: "native_code P c"
  from papi_name_resolves [OF papi a(2)] code show ?thesis
    using resolve_papi_prefixed [OF a(1) icase.same_refl] a(3) by (metis fill_event_info_eq fst_conv)
qed

text \<open>Without PAPI the listing is the current names of the table, in order.\<close>

definition current_names :: "('w, 'x) c_platform_scheme \<Rightarrow> string list" where
  "current_names P = map known_name (filter (\<lambda>k. \<not> obsolete k \<and> lister k = None) (known_events P))"

lemma iterate_in_plain:
  assumes "\<And>name st. \<not> fst (callback name st)"
  shows "\<forall>it \<in> set its. lister it = None \<and> resolver it = None \<Longrightarrow>
    iterate_in P its callback st =
      Some (fold (\<lambda>name st. snd (callback name st))
        (map known_name (filter (\<lambda>k. \<not> obsolete k \<and> lister k = None) its)) st)"
proof (induction its arbitrary: st)
  case (Cons it its)
  have "fst (callback (known_name it) st) = False" using assms by simp
  then have "callback (known_name it) st = (False, snd (callback (known_name it) st))"
    by (metis prod.collapse)
  then obtain st' where "callback (known_name it) st = (False, st')" by blast
  then show ?case using Cons by simp
qed simp

lemma event_iterate_plain:
  assumes "\<not> HAS_PAPI P" and "\<And>name st. \<not> fst (callback name st)"
  shows "ubench_event_iterate P (Some callback) st =
    Some (fold (\<lambda>name st. snd (callback name st)) (current_names P) st)"
proof -
  have "\<forall>it \<in> set (known_events P). lister it = None \<and> resolver it = None"
    using assms(1) by (auto simp: known_events_def plain_event_def)
  from iterate_in_plain [OF assms(2) this] show ?thesis
    by (simp add: ubench_event_iterate_def current_names_def)
qed

end
