(* ===== verification/ThreadMap.thy ===== *)
theory ThreadMap
  imports Platform
begin

text \<open>
  The map from Java thread identifiers to native ones (\<open>threads.c\<close>, lines 63 to 222): a
  growable array searched from the front, which never holds a Java thread twice.
\<close>

section \<open>Data\<close>

type_synonym java_tid_t = c_long
type_synonym native_tid_t = c_long

definition UBENCH_THREAD_ID_INVALID :: native_tid_t where
  "UBENCH_THREAD_ID_INVALID = - 1"

record thread_map_entry_t =
  native_id :: native_tid_t
  java_id :: java_tid_t

text \<open>
  \<open>entries\<close> is the block of \<open>capacity\<close> cells; a cell is \<open>None\<close> until it is first written, as
  the tail of a block that \<open>realloc\<close> enlarged. Both counts are \<open>int\<close>s.
\<close>

record thread_map_t =
  tm_length :: c_int
  tm_capacity :: c_int
  tm_entries :: "thread_map_entry_t option buf"

definition empty_thread_map :: thread_map_t where
  "empty_thread_map = \<lparr>tm_length = 0, tm_capacity = 0, tm_entries = Null\<rparr>"

datatype errno = Success | EEXIST | ENOMEM | ENOENT

section \<open>Operations\<close>

text \<open>
  An \<open>int\<close> used as an array index or multiplied with a \<open>sizeof\<close>: a negative one becomes a number
  past the end of any block.
\<close>

definition size_of_int :: "c_int \<Rightarrow> size_t" where
  "size_of_int i = unat (long_of_int i)"

definition thread_map_entry_at :: "thread_map_t \<Rightarrow> c_int \<Rightarrow> thread_map_entry_t outcome" where
  "thread_map_entry_at m i =
    obind (buf_get (tm_entries m) (size_of_int i))
      (\<lambda>c. case c of None \<Rightarrow> Fault Indeterminate | Some e \<Rightarrow> Done e)"

text \<open>The index stays below the length, so it does not overflow and the loop ends.\<close>

function thread_map_index_from ::
    "thread_map_t \<Rightarrow> (thread_map_entry_t \<Rightarrow> bool) \<Rightarrow> c_int \<Rightarrow> c_int outcome" where
  "thread_map_index_from m pred i =
    (if sint i < sint (tm_length m) then
       obind (thread_map_entry_at m i)
         (\<lambda>e. if pred e then Done i else thread_map_index_from m pred (i + 1))
     else Done (- 1))"
  by pat_completeness auto
termination
  by (relation "measure (\<lambda>(m, pred, i). nat (sint (tm_length m) - sint i))")
     (auto simp: sint_inc_below)

declare thread_map_index_from.simps [simp del]

definition thread_map_index_of ::
    "thread_map_t \<Rightarrow> (thread_map_entry_t \<Rightarrow> bool) \<Rightarrow> c_int outcome" where
  "thread_map_index_of m pred = thread_map_index_from m pred 0"

definition thread_map_index_of_java_thread :: "thread_map_t \<Rightarrow> java_tid_t \<Rightarrow> c_int outcome" where
  "thread_map_index_of_java_thread m java_thread_id =
    thread_map_index_of m (\<lambda>e. java_id e = java_thread_id)"

definition thread_map_index_of_native_thread ::
    "thread_map_t \<Rightarrow> native_tid_t \<Rightarrow> c_int outcome" where
  "thread_map_index_of_native_thread m native_thread_id =
    thread_map_index_of m (\<lambda>e. native_id e = native_thread_id)"

definition thread_map_ensure_capacity ::
    "('w, 'x) c_platform_scheme \<Rightarrow> thread_map_t \<Rightarrow> c_int \<Rightarrow> 'w \<Rightarrow>
      (bool \<times> thread_map_t \<times> 'w) outcome" where
  "thread_map_ensure_capacity P m required_capacity w =
    (if sint (tm_capacity m) < sint required_capacity then
       case malloc_ok P w of
         (False, w') \<Rightarrow> Done (False, m, w')
       | (True, w') \<Rightarrow>
           obind (buf_realloc None (tm_entries m) (size_of_int required_capacity))
             (\<lambda>new_entries. Done
               (True, m\<lparr>tm_entries := new_entries, tm_capacity := required_capacity\<rparr>, w'))
     else Done (True, m, w))"

definition thread_map_put_java_thread ::
    "('w, 'x) c_platform_scheme \<Rightarrow> thread_map_t \<Rightarrow> java_tid_t \<Rightarrow> native_tid_t \<Rightarrow> 'w \<Rightarrow>
      (errno \<times> thread_map_t \<times> 'w) outcome" where
  "thread_map_put_java_thread P m java_thread_id native_thread_id w =
    obind (thread_map_index_of_java_thread m java_thread_id) (\<lambda>index.
      if 0 \<le> sint index then Done (EEXIST, m, w)
      else obind (thread_map_ensure_capacity P m (tm_length m + 1) w) (\<lambda>(ok, m', w').
        if \<not> ok then Done (ENOMEM, m', w')
        else obind
          (buf_set (tm_entries m') (size_of_int (tm_length m'))
             (Some \<lparr>native_id = native_thread_id, java_id = java_thread_id\<rparr>))
          (\<lambda>es. Done (Success, m'\<lparr>tm_entries := es, tm_length := tm_length m' + 1\<rparr>, w'))))"

definition thread_map_remove_native_thread ::
    "thread_map_t \<Rightarrow> native_tid_t \<Rightarrow> (errno \<times> thread_map_t) outcome" where
  "thread_map_remove_native_thread m native_thread_id =
    obind (thread_map_index_of_native_thread m native_thread_id) (\<lambda>index.
      if sint index < 0 then Done (ENOENT, m)
      else if \<not> 0 < sint (tm_length m) then Fault AssertionFailed
      else
        let m' = m\<lparr>tm_length := tm_length m - 1\<rparr> in
        obind (thread_map_entry_at m' (tm_length m')) (\<lambda>last_entry.
          obind (buf_set (tm_entries m') (size_of_int index) (Some last_entry)) (\<lambda>es.
            Done (Success, m'\<lparr>tm_entries := es\<rparr>))))"

text \<open>The lookup of \<open>ubench_threads_get_native_id\<close> between its lock and its unlock.\<close>

definition thread_map_native_id :: "thread_map_t \<Rightarrow> java_tid_t \<Rightarrow> native_tid_t outcome" where
  "thread_map_native_id m java_thread_id =
    obind (thread_map_index_of_java_thread m java_thread_id) (\<lambda>index.
      if 0 \<le> sint index then
        obind (thread_map_entry_at m index) (\<lambda>e. Done (native_id e))
      else Done UBENCH_THREAD_ID_INVALID)"

section \<open>Invariant and abstraction\<close>

text \<open>The number of valid entries, these in array order, and the partial map they stand for.\<close>

definition tm_count :: "thread_map_t \<Rightarrow> nat" where
  "tm_count m = nat (sint (tm_length m))"

definition tm_list :: "thread_map_t \<Rightarrow> thread_map_entry_t list" where
  "tm_list m = map the (take (tm_count m) (cells (tm_entries m)))"

definition assoc_of :: "thread_map_entry_t list \<Rightarrow> java_tid_t \<Rightarrow> native_tid_t option" where
  "assoc_of es = map_of (map (\<lambda>e. (java_id e, native_id e)) es)"

definition tm_abs :: "thread_map_t \<Rightarrow> java_tid_t \<Rightarrow> native_tid_t option" where
  "tm_abs m = assoc_of (tm_list m)"

definition tm_inv :: "thread_map_t \<Rightarrow> bool" where
  "tm_inv m \<longleftrightarrow>
    tm_entries m \<noteq> Indet \<and> int (length (cells (tm_entries m))) = sint (tm_capacity m) \<and>
    0 \<le> sint (tm_length m) \<and> sint (tm_length m) \<le> sint (tm_capacity m) \<and>
    None \<notin> set (take (tm_count m) (cells (tm_entries m))) \<and>
    distinct (map java_id (tm_list m))"

lemma tm_inv_empty: "tm_inv empty_thread_map"
  by (simp add: tm_inv_def empty_thread_map_def tm_list_def tm_count_def)

lemma tm_count_int: "tm_inv m \<Longrightarrow> int (tm_count m) = sint (tm_length m)"
  by (simp add: tm_inv_def tm_count_def)

lemma tm_count_cells: "tm_inv m \<Longrightarrow> tm_count m \<le> length (cells (tm_entries m))"
  unfolding tm_inv_def tm_count_def by linarith

lemma tm_count_less: "tm_inv m \<Longrightarrow> tm_count m < 2147483648"
  using sint_range32 [of "tm_length m"] by (simp add: tm_count_def)

lemma length_tm_list [simp]: "tm_inv m \<Longrightarrow> length (tm_list m) = tm_count m"
  using tm_count_cells [of m] by (simp add: tm_list_def)

lemma tm_invD:
  assumes "tm_inv m"
  shows "distinct (map java_id (tm_list m))" "tm_entries m \<noteq> Indet"
  using assms by (simp_all add: tm_inv_def)

lemma size_of_int_nonneg:
  assumes "0 \<le> sint i"
  shows "size_of_int i = nat (sint i)"
proof -
  have "long_of_int i = word_of_int (sint i)"
    by simp
  moreover have "uint (word_of_int (sint i) :: c_long) = sint i"
    using assms sint_range32 [of i] by (simp only: uint_word_of_int) simp
  ultimately show ?thesis
    by (simp only: size_of_int_def unat_eq_nat_uint)
qed

lemma thread_map_entry_at_list:
  assumes "tm_inv m" and i: "0 \<le> sint i" "sint i < sint (tm_length m)"
  shows "thread_map_entry_at m i = Done (tm_list m ! nat (sint i))"
proof -
  let ?i = "nat (sint i)"
  have less: "?i < tm_count m" "?i < length (cells (tm_entries m))"
    using i tm_count_int [OF assms(1)] tm_count_cells [OF assms(1)] by linarith+
  then have "cells (tm_entries m) ! ?i \<in> set (take (tm_count m) (cells (tm_entries m)))"
    by (auto simp: in_set_conv_nth intro!: exI [of _ ?i])
  then have "cells (tm_entries m) ! ?i \<noteq> None"
    using assms(1) unfolding tm_inv_def by metis
  with less i show ?thesis
    by (auto simp: thread_map_entry_at_def tm_list_def size_of_int_nonneg)
qed

lemma thread_map_index_from_list:
  assumes "tm_inv m" and "0 \<le> sint i" and "sint i \<le> sint (tm_length m)"
  shows "thread_map_index_from m pred i =
    (let k = nat (sint i) + first_index pred (drop (nat (sint i)) (tm_list m)) in
     Done (if k < tm_count m then of_nat k else - 1))"
  using assms
proof (induction m pred i rule: thread_map_index_from.induct)
  case (1 m pred i)
  let ?i = "nat (sint i)"
  note count = tm_count_int [OF "1.prems"(1)]
  show ?case
  proof (cases "sint i < sint (tm_length m)")
    case True
    have inc: "sint (i + 1) = sint i + 1"
      by (rule sint_inc_below [OF True])
    have "?i < length (tm_list m)"
      using True "1.prems" count by simp
    then have tail: "drop ?i (tm_list m) = tm_list m ! ?i # drop (Suc ?i) (tm_list m)"
      by (rule Cons_nth_drop_Suc [symmetric])
    have suc: "nat (sint i + 1) = Suc ?i"
      using "1.prems"(2) by simp
    have self: "of_nat ?i = i"
      using "1.prems"(2) by simp
    note entry = thread_map_entry_at_list [OF "1.prems"(1,2) True]
    have rest: "thread_map_index_from m pred (i + 1) =
        (let k = Suc (?i + first_index pred (drop (Suc ?i) (tm_list m))) in
         Done (if k < tm_count m then of_nat k else - 1))" if "\<not> pred (tm_list m ! ?i)"
      using "1.IH" [OF True entry that "1.prems"(1)] "1.prems"(2) True
      by (simp only: inc suc) (simp add: Let_def)
    have "?i < tm_count m"
      using True "1.prems"(2) count by linarith
    with True rest entry self show ?thesis
      by (subst thread_map_index_from.simps) (simp add: tail Let_def)
  next
    case False
    with "1.prems" count show ?thesis
      by (subst thread_map_index_from.simps) (simp add: Let_def)
  qed
qed

lemma thread_map_index_of_list:
  assumes "tm_inv m"
  shows "thread_map_index_of m pred =
    (let k = first_index pred (tm_list m) in Done (if k < tm_count m then of_nat k else - 1))"
  using assms thread_map_index_from_list [of m 0 pred] tm_count_int [OF assms]
  by (simp add: thread_map_index_of_def Let_def)

section \<open>Insertion\<close>

lemma assoc_of_None: "assoc_of es j = None \<longleftrightarrow> j \<notin> java_id ` set es"
  by (auto simp: assoc_of_def map_of_eq_None_iff image_iff)

lemma entry_eta [simp]: "\<lparr>native_id = native_id e, java_id = java_id e\<rparr> = e"
  by simp

lemma assoc_of_Some:
  assumes "distinct (map java_id es)"
  shows "assoc_of es j = Some n \<longleftrightarrow> \<lparr>native_id = n, java_id = j\<rparr> \<in> set es"
proof -
  have "distinct (map fst (map (\<lambda>e. (java_id e, native_id e)) es))"
    using assms by (simp add: comp_def)
  then have "assoc_of es j = Some n \<longleftrightarrow> (j, n) \<in> set (map (\<lambda>e. (java_id e, native_id e)) es)"
    by (simp add: assoc_of_def)
  also have "\<dots> \<longleftrightarrow> \<lparr>native_id = n, java_id = j\<rparr> \<in> set es"
    by force
  finally show ?thesis .
qed

lemma assoc_of_snoc:
  assumes "java_id e \<notin> java_id ` set es"
  shows "assoc_of (es @ [e]) = (assoc_of es)(java_id e \<mapsto> native_id e)"
  using assms by (induction es) (auto simp: assoc_of_def fun_eq_iff)

text \<open>What a search returns is the number of an entry.\<close>

lemma sint_found:
  assumes "tm_inv m" and "k < tm_count m"
  shows "sint (of_nat k :: c_int) = int k" "size_of_int (of_nat k) = k"
proof -
  show s: "sint (of_nat k :: c_int) = int k"
    using assms tm_count_less [OF assms(1)] by (intro sint_of_nat32) simp
  show "size_of_int (of_nat k) = k"
    by (simp only: size_of_int_nonneg s of_nat_0_le_iff nat_int)
qed

lemma index_of_java_thread_list:
  assumes "tm_inv m"
  shows "\<exists>i. thread_map_index_of_java_thread m j = Done i \<and>
    (0 \<le> sint i \<longleftrightarrow> tm_abs m j \<noteq> None) \<and>
    (0 \<le> sint i \<longrightarrow> sint i < sint (tm_length m) \<and> java_id (tm_list m ! nat (sint i)) = j)"
proof -
  let ?k = "first_index (\<lambda>e. java_id e = j) (tm_list m)"
  have run: "thread_map_index_of_java_thread m j =
      Done (if ?k < tm_count m then of_nat ?k else - 1)"
    using assms by (simp add: thread_map_index_of_java_thread_def thread_map_index_of_list Let_def)
  have found: "?k < tm_count m \<longleftrightarrow> tm_abs m j \<noteq> None"
    using first_index_less [of "\<lambda>e. java_id e = j" "tm_list m"] assms
    by (auto simp: tm_abs_def assoc_of_None)
  show ?thesis
  proof (cases "?k < tm_count m")
    case True
    note s = sint_found(1) [OF assms True]
    have "java_id (tm_list m ! ?k) = j"
      using first_index_hit [of "\<lambda>e. java_id e = j" "tm_list m"] True assms by simp
    moreover have "int ?k < sint (tm_length m)"
      using True tm_count_int [OF assms] by linarith
    ultimately show ?thesis
      using True found by (intro exI [of _ "of_nat ?k"]) (simp add: run s)
  next
    case False
    with found show ?thesis by (simp add: run)
  qed
qed

text \<open>Growing the block changes no valid entry, whatever the outcome.\<close>

lemma ensure_capacity_keeps:
  assumes "tm_inv m"
  shows "returns (thread_map_ensure_capacity P m n w)
    (\<lambda>(ok, m', w'). tm_inv m' \<and> tm_list m' = tm_list m \<and> tm_length m' = tm_length m \<and>
      (ok \<longrightarrow> sint n \<le> sint (tm_capacity m')) \<and> (\<not> ok \<longrightarrow> m' = m \<and> \<not> fst (malloc_ok P w)))"
proof (cases "sint (tm_capacity m) < sint n \<and> fst (malloc_ok P w)")
  case True
  have "0 \<le> sint n" "tm_count m \<le> nat (sint n)"
    using assms True unfolding tm_inv_def tm_count_def by linarith+
  moreover have "take (tm_count m) (cells (tm_entries m) @ replicate k None) =
      take (tm_count m) (cells (tm_entries m))" for k
    using tm_count_cells [OF assms] by simp
  moreover have "length (cells (tm_entries m)) = nat (sint (tm_capacity m))"
    using assms unfolding tm_inv_def by linarith
  ultimately show ?thesis
    using True assms
    by (auto simp: thread_map_ensure_capacity_def buf_realloc_cells tm_inv_def tm_list_def
      tm_count_def size_of_int_nonneg split: prod.splits bool.splits)
next
  case False
  with assms show ?thesis
    by (auto simp: thread_map_ensure_capacity_def split: prod.splits bool.splits)
qed

text \<open>Writing the cell after the last valid one appends an entry.\<close>

lemma tm_append:
  assumes "tm_inv m" and "sint (tm_length m) < sint (tm_capacity m)"
    and "java_id e \<notin> java_id ` set (tm_list m)"
    and m': "m' = m\<lparr>tm_entries := Buf ((cells (tm_entries m))[tm_count m := Some e]),
      tm_length := tm_length m + 1\<rparr>"
  shows "tm_inv m'" "tm_list m' = tm_list m @ [e]"
proof -
  have inc: "sint (tm_length m + 1) = sint (tm_length m) + 1"
    by (rule sint_inc_below [OF assms(2)])
  have "0 \<le> sint (tm_length m)"
    using assms(1) by (simp add: tm_inv_def)
  with inc have count: "tm_count m' = Suc (tm_count m)"
    by (simp add: m' tm_count_def nat_add_distrib)
  have len: "tm_count m < length (cells (tm_entries m))"
    using assms(1,2) unfolding tm_inv_def tm_count_def by linarith
  then have taken: "take (Suc (tm_count m)) ((cells (tm_entries m))[tm_count m := Some e]) =
      take (tm_count m) (cells (tm_entries m)) @ [Some e]"
    by (simp add: take_Suc_conv_app_nth)
  then show list: "tm_list m' = tm_list m @ [e]"
    unfolding tm_list_def count by (simp add: m')
  have "None \<notin> set (take (tm_count m') (cells (tm_entries m')))"
    unfolding count using assms(1) taken by (simp add: m' tm_inv_def)
  then show "tm_inv m'"
    using assms inc list by (auto simp: tm_inv_def)
qed

definition put_outcome ::
    "thread_map_t \<Rightarrow> java_tid_t \<Rightarrow> native_tid_t \<Rightarrow> bool \<Rightarrow> errno \<Rightarrow> thread_map_t \<Rightarrow> bool" where
  "put_outcome m j n out_of_memory r m' \<longleftrightarrow> tm_inv m' \<and>
    (r = EEXIST \<and> tm_abs m j \<noteq> None \<and> m' = m \<or>
     r = ENOMEM \<and> out_of_memory \<and> tm_abs m j = None \<and> m' = m \<or>
     r = Success \<and> tm_abs m j = None \<and> tm_abs m' = (tm_abs m)(j \<mapsto> n) \<and>
       tm_list m' = tm_list m @ [\<lparr>native_id = n, java_id = j\<rparr>])"

lemma thread_map_put_room:
  assumes "tm_inv m" and room: "tm_count m < 2147483647"
  shows "returns (thread_map_put_java_thread P m j n w)
    (\<lambda>(r, m', w'). put_outcome m j n (\<not> fst (malloc_ok P w)) r m')"
proof -
  obtain i where i: "thread_map_index_of_java_thread m j = Done i"
    "0 \<le> sint i \<longleftrightarrow> tm_abs m j \<noteq> None"
    using index_of_java_thread_list [OF assms(1)] by metis
  show ?thesis
  proof (cases "0 \<le> sint i")
    case True
    with i assms show ?thesis
      by (simp add: thread_map_put_java_thread_def put_outcome_def)
  next
    case False
    let ?e = "\<lparr>native_id = n, java_id = j\<rparr>"
    from False i have new: "java_id ?e \<notin> java_id ` set (tm_list m)" "tm_abs m j = None"
      by (simp_all add: tm_abs_def assoc_of_None)
    obtain ok m1 w1 where e: "thread_map_ensure_capacity P m (tm_length m + 1) w = Done (ok, m1, w1)"
      and m1: "tm_inv m1" "tm_list m1 = tm_list m" "tm_length m1 = tm_length m"
        "ok \<longrightarrow> sint (tm_length m + 1) \<le> sint (tm_capacity m1)"
        "\<not> ok \<longrightarrow> m1 = m \<and> \<not> fst (malloc_ok P w)"
      using ensure_capacity_keeps [OF assms(1), of P "tm_length m + 1" w]
      by (auto simp: returns_iff)
    show ?thesis
    proof (cases ok)
      case False
      with \<open>\<not> 0 \<le> sint i\<close> i e m1 new assms(1) show ?thesis
        by (simp add: thread_map_put_java_thread_def put_outcome_def)
    next
      case True
      let ?m2 = "m1\<lparr>tm_entries := Buf ((cells (tm_entries m1))[tm_count m1 := Some ?e]),
        tm_length := tm_length m1 + 1\<rparr>"
      have "sint (tm_length m + 1) = sint (tm_length m) + 1"
        using room tm_count_int [OF assms(1)] by (intro sint_inc) linarith
      then have room1: "sint (tm_length m1) < sint (tm_capacity m1)"
        using True m1(3,4) by simp
      have index: "size_of_int (tm_length m1) = tm_count m1" "tm_count m1 < length (cells (tm_entries m1))"
        using m1(1) room1 size_of_int_nonneg [of "tm_length m1"] unfolding tm_inv_def tm_count_def
        by linarith+
      have new1: "java_id ?e \<notin> java_id ` set (tm_list m1)"
        using new m1 by simp
      note app = tm_append [OF m1(1) room1 new1 refl]
      have "tm_abs ?m2 = (tm_abs m)(j \<mapsto> n)"
        using app(2) assoc_of_snoc [OF new1] m1 by (simp add: tm_abs_def)
      with \<open>\<not> 0 \<le> sint i\<close> True i e m1 new app index show ?thesis
        by (simp add: thread_map_put_java_thread_def buf_set_cells put_outcome_def)
    qed
  qed
qed

text \<open>
  A map of the largest length an \<open>int\<close> has: the length overflows, no room is made, and the entry
  is written past the end of the block.
\<close>

lemma thread_map_put_full:
  assumes "tm_inv m" and full: "tm_count m = 2147483647"
  shows "thread_map_put_java_thread P m j n w =
    (if tm_abs m j = None then Fault OutOfBounds else Done (EEXIST, m, w))"
proof -
  obtain i where i: "thread_map_index_of_java_thread m j = Done i"
    "0 \<le> sint i \<longleftrightarrow> tm_abs m j \<noteq> None"
    using index_of_java_thread_list [OF assms(1)] by metis
  have len: "sint (tm_length m) = 2147483647"
    using tm_count_int [OF assms(1)] full by simp
  moreover have "tm_length m = word_of_int (sint (tm_length m))"
    by simp
  ultimately have "tm_length m = word_of_int 2147483647"
    by (simp only:)
  then have wraps: "tm_length m + 1 = word_of_int (- 2147483648)" "size_of_int (tm_length m) = 2147483647"
    using size_of_int_nonneg [of "tm_length m"] len by simp_all
  have "length (cells (tm_entries m)) = 2147483647"
    using assms(1) len sint_range32 [of "tm_capacity m"] unfolding tm_inv_def by linarith
  then obtain xs where xs: "tm_entries m = Buf xs" "length xs = 2147483647"
    by (cases "tm_entries m") auto
  have "sint (word_of_int (- 2147483648) :: c_int) = - 2147483648"
    by (intro sint_of_int32) simp_all
  then have "thread_map_ensure_capacity P m (tm_length m + 1) w = Done (True, m, w)"
    using sint_range32 [of "tm_capacity m"] unfolding wraps(1) thread_map_ensure_capacity_def
    by simp
  then show ?thesis
    using i xs wraps(2) by (simp add: thread_map_put_java_thread_def)
qed

lemma thread_map_put_spec:
  assumes "tm_inv m" and "thread_map_put_java_thread P m j n w = Done (r, m', w')"
  shows "put_outcome m j n (\<not> fst (malloc_ok P w)) r m'"
proof (cases "tm_count m < 2147483647")
  case True
  from thread_map_put_room [OF assms(1) True, of P j n w] assms(2) show ?thesis by simp
next
  case False
  then have "tm_count m = 2147483647"
    using tm_count_less [OF assms(1)] by simp
  from thread_map_put_full [OF assms(1) this, of P j n w] assms show ?thesis
    by (auto simp: put_outcome_def split: if_splits)
qed

section \<open>Removal\<close>

text \<open>Removing entry \<open>k\<close> moves the last entry into its place.\<close>

definition swap_remove :: "nat \<Rightarrow> 'a list \<Rightarrow> 'a list" where
  "swap_remove k xs = (butlast xs)[k := last xs]"

lemma set_swap_remove:
  assumes "distinct xs" and "k < length xs"
  shows "set (swap_remove k xs) = set xs - {xs ! k}"
proof -
  from assms obtain ys x where xs: "xs = ys @ [x]" "x \<notin> set ys" "distinct ys"
    by (cases xs rule: rev_cases) auto
  with assms(2) show ?thesis
    by (cases "k < length ys")
       (auto simp: swap_remove_def set_update_distinct nth_append not_less list_update_beyond)
qed

lemma distinct_map_swap_remove:
  assumes "distinct (map f xs)" and "k < length xs"
  shows "distinct (map f (swap_remove k xs))"
proof -
  from assms obtain ys x where xs: "xs = ys @ [x]" "f x \<notin> set (map f ys)" "distinct (map f ys)"
    by (cases xs rule: rev_cases) auto
  then show ?thesis
    by (auto simp: swap_remove_def map_update intro!: distinct_list_update)
qed

lemma tm_swap_remove:
  assumes "tm_inv m" and k: "k < tm_count m"
    and m': "m' = m\<lparr>tm_length := tm_length m - 1,
      tm_entries := Buf ((cells (tm_entries m))[k := Some (tm_list m ! (tm_count m - 1))])\<rparr>"
  shows "tm_inv m'" "tm_list m' = swap_remove k (tm_list m)"
proof -
  let ?n = "tm_count m - 1" and ?cs = "cells (tm_entries m)"
  have "0 < sint (tm_length m)"
    using k by (simp add: tm_count_def)
  then have dec: "sint (tm_length m - 1) = sint (tm_length m) - 1"
    by (rule sint_dec)
  then have count: "tm_count m' = ?n"
    by (simp add: m' tm_count_def)
  have len: "tm_count m \<le> length ?cs" "?n < length ?cs" "0 < length (tm_list m)"
    using tm_count_cells [OF assms(1)] k assms(1) by simp_all
  have last: "tm_list m ! ?n = last (tm_list m)"
    using length_tm_list [OF assms(1)] last_conv_nth [of "tm_list m"] len(3) by fastforce
  have taken: "take ?n (?cs[k := Some (last (tm_list m))]) = (take ?n ?cs)[k := Some (last (tm_list m))]"
    by (simp add: take_update_swap)
  have but: "butlast (tm_list m) = map the (take ?n ?cs)"
    using len by (simp add: tm_list_def butlast_take flip: map_butlast)
  then show list: "tm_list m' = swap_remove k (tm_list m)"
    unfolding tm_list_def [of m'] count
    using taken last by (simp add: m' swap_remove_def map_update)
  have "set (take ?n ?cs) \<subseteq> set (take (tm_count m) ?cs)"
    by (rule set_take_subset_set_take) simp
  then have "None \<notin> set (take ?n ?cs)"
    using assms(1) by (auto simp: tm_inv_def)
  then have "None \<notin> set (take (tm_count m') (cells (tm_entries m')))"
    unfolding count
    using m' last taken set_update_subset_insert [of "take ?n ?cs" k "Some (last (tm_list m))"] by auto
  moreover have "distinct (map java_id (tm_list m'))"
    unfolding list using assms(1) k
    by (intro distinct_map_swap_remove) (simp_all add: tm_invD)
  ultimately show "tm_inv m'"
    using assms(1) dec \<open>0 < sint (tm_length m)\<close> by (auto simp: tm_inv_def m')
qed

lemma assoc_of_swap_remove:
  assumes d: "distinct (map java_id es)" and k: "k < length es"
  shows "assoc_of (swap_remove k es) = (assoc_of es)(java_id (es ! k) := None)"
proof
  fix j
  note d' = distinct_map_swap_remove [OF d k]
  have set: "set (swap_remove k es) = set es - {es ! k}"
    using d k by (intro set_swap_remove) (simp_all add: distinct_map)
  have inj: "x = es ! k" if "x \<in> set es" "java_id x = java_id (es ! k)" for x
    using d k that by (auto simp: distinct_map inj_on_def)
  have "assoc_of (swap_remove k es) j = Some n \<longleftrightarrow>
      ((assoc_of es)(java_id (es ! k) := None)) j = Some n" for n
  proof (cases "j = java_id (es ! k)")
    case True
    then have "\<lparr>native_id = n, java_id = j\<rparr> \<notin> set es - {es ! k}"
      using inj [of "\<lparr>native_id = n, java_id = j\<rparr>"] by auto
    with True show ?thesis
      using assoc_of_Some [OF d', of j n] set by simp
  next
    case False
    then have "\<lparr>native_id = n, java_id = j\<rparr> \<noteq> es ! k"
      by (metis thread_map_entry_t.select_convs(2))
    with False show ?thesis
      using assoc_of_Some [OF d', of j n] assoc_of_Some [OF d, of j n] set by simp
  qed
  then show "assoc_of (swap_remove k es) j = ((assoc_of es)(java_id (es ! k) := None)) j"
    by (metis option.exhaust)
qed

text \<open>The entry that \<open>remove\<close> overwrites, and the last entry that it moves there.\<close>

lemma tm_last_entry:
  assumes "tm_inv m" and "0 < tm_count m"
  shows "thread_map_entry_at (m\<lparr>tm_length := tm_length m - 1\<rparr>) (tm_length m - 1) =
    Done (tm_list m ! (tm_count m - 1))"
proof -
  have pos: "0 < sint (tm_length m)"
    using assms(2) tm_count_int [OF assms(1)] by linarith
  have dec: "sint (tm_length m - 1) = sint (tm_length m) - 1"
    by (rule sint_dec [OF pos])
  have "nat (sint (tm_length m - 1)) = tm_count m - 1"
    unfolding dec tm_count_def using pos by linarith
  then show ?thesis
    using thread_map_entry_at_list [OF assms(1), of "tm_length m - 1"] pos dec
    by (simp add: thread_map_entry_at_def)
qed

lemma tm_entry_abs:
  assumes inv: "tm_inv m" and k: "k < tm_count m"
  shows "tm_abs m (java_id (tm_list m ! k)) = Some (native_id (tm_list m ! k))"
proof -
  have "\<lparr>native_id = native_id (tm_list m ! k), java_id = java_id (tm_list m ! k)\<rparr> \<in> set (tm_list m)"
    using nth_mem [of k "tm_list m"] entry_eta [of "tm_list m ! k"] inv k by simp
  then show ?thesis
    using assoc_of_Some [OF tm_invD(1) [OF inv]] unfolding tm_abs_def by blast
qed

lemma thread_map_remove_spec:
  assumes "tm_inv m"
  shows "returns (thread_map_remove_native_thread m n)
    (\<lambda>(r, m'). tm_inv m' \<and>
      (r = ENOENT \<and> n \<notin> ran (tm_abs m) \<and> m' = m \<or>
       r = Success \<and> (\<exists>j. tm_abs m j = Some n \<and> tm_abs m' = (tm_abs m)(j := None)) \<and>
         tm_list m' = swap_remove (first_index (\<lambda>e. native_id e = n) (tm_list m)) (tm_list m)))"
proof -
  let ?k = "first_index (\<lambda>e. native_id e = n) (tm_list m)"
  note d = tm_invD(1) [OF assms]
  have run: "thread_map_index_of_native_thread m n = Done (if ?k < tm_count m then of_nat ?k else - 1)"
    using assms by (simp add: thread_map_index_of_native_thread_def thread_map_index_of_list Let_def)
  have found: "?k < tm_count m \<longleftrightarrow> (\<exists>e \<in> set (tm_list m). native_id e = n)"
    using first_index_less [of "\<lambda>e. native_id e = n" "tm_list m"] assms by simp
  show ?thesis
  proof (cases "?k < tm_count m")
    case False
    with found have "n \<notin> ran (tm_abs m)"
      using assoc_of_Some [OF d] by (auto simp: ran_def tm_abs_def)
    with False assms run show ?thesis
      by (simp add: thread_map_remove_native_thread_def)
  next
    case True
    let ?m' = "m\<lparr>tm_length := tm_length m - 1,
      tm_entries := Buf ((cells (tm_entries m))[?k := Some (tm_list m ! (tm_count m - 1))])\<rparr>"
    note sr = tm_swap_remove [OF assms True refl]
    have some: "0 < tm_count m" and k: "?k < length (cells (tm_entries m))"
      using True tm_count_cells [OF assms] by simp_all
    have "native_id (tm_list m ! ?k) = n"
      using first_index_hit [of "\<lambda>e. native_id e = n" "tm_list m"] True assms by simp
    then have "tm_abs m (java_id (tm_list m ! ?k)) = Some n"
      using tm_entry_abs [OF assms True] by simp
    moreover have "tm_abs ?m' = (tm_abs m)(java_id (tm_list m ! ?k) := None)"
      using sr(2) assoc_of_swap_remove [OF d] True assms by (simp add: tm_abs_def)
    moreover have "thread_map_remove_native_thread m n = Done (Success, ?m')"
      using True k tm_count_int [OF assms] tm_last_entry [OF assms some] sint_found [OF assms True]
      by (simp add: thread_map_remove_native_thread_def run Let_def buf_set_cells)
    ultimately show ?thesis
      using sr by auto
  qed
qed

section \<open>Lookup\<close>

lemma thread_map_native_id_spec:
  assumes "tm_inv m"
  shows "thread_map_native_id m j =
    Done (case tm_abs m j of None \<Rightarrow> UBENCH_THREAD_ID_INVALID | Some n \<Rightarrow> n)"
proof -
  obtain i where i: "thread_map_index_of_java_thread m j = Done i"
    "0 \<le> sint i \<longleftrightarrow> tm_abs m j \<noteq> None"
    "0 \<le> sint i \<longrightarrow> sint i < sint (tm_length m) \<and> java_id (tm_list m ! nat (sint i)) = j"
    using index_of_java_thread_list [OF assms] by metis
  show ?thesis
  proof (cases "0 \<le> sint i")
    case True
    have "nat (sint i) < tm_count m"
      using i(3) True tm_count_int [OF assms] by linarith
    with i assms True have "tm_abs m j = Some (native_id (tm_list m ! nat (sint i)))"
      by (auto simp: tm_abs_def assoc_of_Some [OF tm_invD(1) [OF assms]])
    with True i assms show ?thesis
      by (simp add: thread_map_native_id_def thread_map_entry_at_list)
  next
    case False
    with i show ?thesis
      by (simp add: thread_map_native_id_def)
  qed
qed

text \<open>Every valid entry is a thread of the partial map of its own.\<close>

lemma card_dom_tm_abs:
  assumes "tm_inv m"
  shows "finite (dom (tm_abs m))" "card (dom (tm_abs m)) = tm_count m"
proof -
  have dom: "dom (tm_abs m) = set (map java_id (tm_list m))"
    using assoc_of_None [of "tm_list m"] by (auto simp: tm_abs_def dom_def)
  show "finite (dom (tm_abs m))"
    unfolding dom by (rule finite_set)
  show "card (dom (tm_abs m)) = tm_count m"
    unfolding dom using distinct_card [OF tm_invD(1) [OF assms]] assms by simp
qed

end
