(* ===== verification/SpinLock.thy ===== *)
theory SpinLock
  imports Platform
begin

text \<open>
  The spin lock of \<open>mylock.h\<close>: one test of the loop condition as a function, the loop itself as a
  partial function (\<open>None\<close>: it spins forever when nobody else runs), and the interface a client of a
  lock relies on.
\<close>

section \<open>The lock\<close>

record ubench_spinlock_t =
  spin_value :: c_int

definition UBENCH_SPINLOCK_INITIALIZER :: ubench_spinlock_t where
  "UBENCH_SPINLOCK_INITIALIZER = \<lparr>spin_value = 0\<rparr>"

text \<open>
  One evaluation of the loop condition of \<open>ubench_spinlock_lock\<close>: whether the loop ends, and the
  lock after the atomic operation. The Windows build ends the loop unless the old value is 1, the
  others when the old value is 0.
\<close>

definition ubench_spinlock_attempt ::
    "('w, 'x) c_platform_scheme \<Rightarrow> ubench_spinlock_t \<Rightarrow> bool \<times> ubench_spinlock_t" where
  "ubench_spinlock_attempt P l =
    (let old = spin_value l; l' = (if old = 0 then l\<lparr>spin_value := 1\<rparr> else l) in
     if MSC_VER P then (old \<noteq> 1, l') else (old = 0, l'))"

partial_function (option) ubench_spinlock_lock ::
    "('w, 'x) c_platform_scheme \<Rightarrow> ubench_spinlock_t \<Rightarrow> ubench_spinlock_t option" where
  "ubench_spinlock_lock pf l =
    (if fst (ubench_spinlock_attempt pf l) then Some (snd (ubench_spinlock_attempt pf l))
     else ubench_spinlock_lock pf (snd (ubench_spinlock_attempt pf l)))"

definition ubench_spinlock_unlock :: "ubench_spinlock_t \<Rightarrow> ubench_spinlock_t" where
  "ubench_spinlock_unlock l = l\<lparr>spin_value := spin_value l AND 0\<rparr>"

definition spin_wf :: "ubench_spinlock_t \<Rightarrow> bool" where
  "spin_wf l \<longleftrightarrow> spin_value l = 0 \<or> spin_value l = 1"

definition spin_free :: "ubench_spinlock_t \<Rightarrow> bool" where
  "spin_free l \<longleftrightarrow> spin_value l = 0"

section \<open>The interface of a lock\<close>

text \<open>
  What a client relies on: an attempt on a free lock takes it, an attempt on a taken lock changes
  nothing and fails, unlocking frees it. The client's bookkeeping is the set of holders.
\<close>

locale test_and_set_lock =
  fixes attempt :: "'l \<Rightarrow> bool \<times> 'l"
    and unlock :: "'l \<Rightarrow> 'l"
    and wf_lock :: "'l \<Rightarrow> bool"
    and free_lock :: "'l \<Rightarrow> bool"
  assumes attempt_free:
      "wf_lock l \<Longrightarrow> free_lock l \<Longrightarrow>
        fst (attempt l) \<and> wf_lock (snd (attempt l)) \<and> \<not> free_lock (snd (attempt l))"
    and attempt_taken: "wf_lock l \<Longrightarrow> \<not> free_lock l \<Longrightarrow> attempt l = (False, l)"
    and unlock_frees: "wf_lock l \<Longrightarrow> wf_lock (unlock l) \<and> free_lock (unlock l)"
begin

text \<open>\<open>H\<close> is the set of holders of the lock \<open>l\<close>: empty if it is free, else one client.\<close>

definition holders :: "'l \<Rightarrow> 'c set \<Rightarrow> bool" where
  "holders l H \<longleftrightarrow> wf_lock l \<and> (if free_lock l then H = {} else \<exists>c. H = {c})"

lemma holders_unique: "holders l H \<Longrightarrow> c \<in> H \<Longrightarrow> d \<in> H \<Longrightarrow> c = d"
  by (auto simp: holders_def split: if_splits)

lemma holders_attempt:
  assumes "holders l H" and "attempt l = (ok, l')"
  shows "if ok then H = {} \<and> holders l' {c} else l' = l"
proof (cases "free_lock l")
  case True
  with assms attempt_free [of l] show ?thesis by (auto simp: holders_def)
next
  case False
  with assms attempt_taken [of l] show ?thesis by (auto simp: holders_def)
qed

lemma holders_unlock: "holders l H \<Longrightarrow> c \<in> H \<Longrightarrow> holders (unlock l) (H - {c})"
  using unlock_frees [of l] by (auto simp: holders_def split: if_splits)

end

lemma spinlock_attempt_cases:
  "spin_wf l \<Longrightarrow> ubench_spinlock_attempt P l = (spin_free l, l\<lparr>spin_value := 1\<rparr>)"
  by (cases l) (auto simp: spin_wf_def spin_free_def ubench_spinlock_attempt_def Let_def)

interpretation spin: test_and_set_lock
  "ubench_spinlock_attempt P" ubench_spinlock_unlock spin_wf spin_free for P
proof
  show "fst (ubench_spinlock_attempt P l) \<and> spin_wf (snd (ubench_spinlock_attempt P l)) \<and>
      \<not> spin_free (snd (ubench_spinlock_attempt P l))" if "spin_wf l" "spin_free l" for l
    using that by (simp add: spinlock_attempt_cases) (simp add: spin_wf_def spin_free_def)
  show "ubench_spinlock_attempt P l = (False, l)" if "spin_wf l" "\<not> spin_free l" for l
    using that by (cases l) (auto simp: spinlock_attempt_cases spin_wf_def spin_free_def)
  show "spin_wf (ubench_spinlock_unlock l) \<and> spin_free (ubench_spinlock_unlock l)" for l
    by (simp add: ubench_spinlock_unlock_def spin_wf_def spin_free_def)
qed

section \<open>The loop\<close>

lemma spinlock_lock_free:
  "spin_free l \<Longrightarrow> ubench_spinlock_lock P l = Some (l\<lparr>spin_value := 1\<rparr>)"
  by (subst ubench_spinlock_lock.simps) (simp add: spinlock_attempt_cases spin_wf_def spin_free_def)

text \<open>Taking a lock that is taken never returns while nobody else runs.\<close>

lemma spinlock_lock_taken:
  assumes "spin_value l = 1"
  shows "ubench_spinlock_lock P l = None"
proof (rule ccontr)
  assume "ubench_spinlock_lock P l \<noteq> None"
  then obtain l' where ret: "ubench_spinlock_lock P l = Some l'" by auto
  have "spin_value l \<noteq> 1"
  proof (rule ubench_spinlock_lock.raw_induct [where P = "\<lambda>P l l'. spin_value l \<noteq> 1", OF _ ret])
    fix f P l l'
    assume IH: "\<And>P l l'. f P l = Some l' \<Longrightarrow> spin_value l \<noteq> 1"
      and eq: "(if fst (ubench_spinlock_attempt P l) then Some (snd (ubench_spinlock_attempt P l))
        else f P (snd (ubench_spinlock_attempt P l))) = Some l'"
    show "spin_value l \<noteq> 1"
    proof
      assume one: "spin_value l = 1"
      then have "ubench_spinlock_attempt P l = (False, l\<lparr>spin_value := 1\<rparr>)"
        by (simp add: spinlock_attempt_cases spin_wf_def spin_free_def)
      with eq have "f P (l\<lparr>spin_value := 1\<rparr>) = Some l'" by simp
      then show False using IH by fastforce
    qed
  qed
  with assms show False by simp
qed

end
