(* ===== verification/ThreadRegistry.thy ===== *)
theory ThreadRegistry
  imports ThreadMap SpinLock SamplePlatform
begin

text \<open>
  The registry of threads (\<open>threads.c\<close>, lines 226 to 351 and 464 to 516): the thread map behind
  its spin lock, the callbacks that fill and empty it, the native methods that use it, and the
  same operations run by many threads at once.
\<close>

section \<open>The interface of the thread map\<close>

text \<open>What an operation may do to the partial map the thread map stands for.\<close>

datatype registry_op =
    Put java_tid_t native_tid_t
  | Remove native_tid_t
  | Get java_tid_t

datatype registry_result = Status errno | NativeId native_tid_t

fun registry_spec ::
    "(java_tid_t \<Rightarrow> native_tid_t option) \<Rightarrow> registry_op \<Rightarrow> registry_result \<Rightarrow>
      (java_tid_t \<Rightarrow> native_tid_t option) \<Rightarrow> bool" where
  "registry_spec a (Put j n) r a' \<longleftrightarrow>
     r = Status EEXIST \<and> a j \<noteq> None \<and> a' = a \<or>
     r = Status ENOMEM \<and> a j = None \<and> a' = a \<or>
     r = Status Success \<and> a j = None \<and> a' = a(j \<mapsto> n)"
| "registry_spec a (Remove n) r a' \<longleftrightarrow>
     r = Status ENOENT \<and> n \<notin> ran a \<and> a' = a \<or>
     r = Status Success \<and> (\<exists>j. a j = Some n \<and> a' = a(j := None))"
| "registry_spec a (Get j) r a' \<longleftrightarrow>
     r = NativeId (case a j of None \<Rightarrow> UBENCH_THREAD_ID_INVALID | Some n \<Rightarrow> n) \<and> a' = a"

text \<open>
  The map promises to return as long as it holds fewer than \<open>limit\<close> threads, and to refuse a new
  thread for want of memory only where the environment has none.
\<close>

locale thread_registry =
  fixes put :: "'m \<Rightarrow> java_tid_t \<Rightarrow> native_tid_t \<Rightarrow> 'w \<Rightarrow> (errno \<times> 'm \<times> 'w) outcome"
    and remove :: "'m \<Rightarrow> native_tid_t \<Rightarrow> (errno \<times> 'm) outcome"
    and lookup :: "'m \<Rightarrow> java_tid_t \<Rightarrow> native_tid_t outcome"
    and inv :: "'m \<Rightarrow> bool"
    and abs :: "'m \<Rightarrow> java_tid_t \<Rightarrow> native_tid_t option"
    and limit :: nat
    and out_of_memory :: "'w \<Rightarrow> bool"
  assumes put_law: "inv m \<Longrightarrow> put m j n w = Done (r, m', w') \<Longrightarrow>
      inv m' \<and> registry_spec (abs m) (Put j n) (Status r) (abs m') \<and>
      (r = ENOMEM \<longrightarrow> out_of_memory w)"
    and put_returns: "inv m \<Longrightarrow> card (dom (abs m)) < limit \<Longrightarrow> returns (put m j n w) (\<lambda>_. True)"
    and remove_law: "inv m \<Longrightarrow> returns (remove m n)
      (\<lambda>(r, m'). inv m' \<and> registry_spec (abs m) (Remove n) (Status r) (abs m'))"
    and lookup_law: "inv m \<Longrightarrow> returns (lookup m j)
      (\<lambda>n. registry_spec (abs m) (Get j) (NativeId n) (abs m))"
begin

lemma lookup_eq:
  "inv m \<Longrightarrow> lookup m j = Done (case abs m j of None \<Rightarrow> UBENCH_THREAD_ID_INVALID | Some n \<Rightarrow> n)"
  using lookup_law [of m j] by (auto simp: returns_iff)

lemma put_lookup:
  assumes "inv m" and "put m j n w = Done (Success, m', w')"
  shows "lookup m' j = Done n" "i \<noteq> j \<Longrightarrow> lookup m' i = lookup m i"
proof -
  have "inv m'" "abs m' = (abs m)(j \<mapsto> n)"
    using put_law [OF assms] by simp_all
  then show "lookup m' j = Done n" "i \<noteq> j \<Longrightarrow> lookup m' i = lookup m i"
    using assms(1) by (simp_all add: lookup_eq)
qed

lemma put_refused:
  assumes "inv m" and "put m j n w = Done (r, m', w')" and "r \<noteq> Success"
  shows "lookup m' i = lookup m i"
proof -
  have "inv m'" "abs m' = abs m"
    using put_law [OF assms(1,2)] assms(3) by auto
  then show ?thesis
    using assms(1) by (simp add: lookup_eq)
qed

lemma remove_forgets:
  assumes "inv m" and "abs m j = Some n" and sole: "\<And>i. abs m i = Some n \<Longrightarrow> i = j"
  shows "returns (remove m n) (\<lambda>(r, m'). r = Success \<and> inv m' \<and> abs m' = (abs m)(j := None) \<and>
    lookup m' j = Done UBENCH_THREAD_ID_INVALID)"
proof (rule returns_mono [OF remove_law [OF assms(1), of n]], clarify)
  fix r m'
  assume m': "inv m'" and spec: "registry_spec (abs m) (Remove n) (Status r) (abs m')"
  have "n \<in> ran (abs m)"
    using assms(2) by (rule ranI)
  with spec obtain i where "r = Success" "abs m i = Some n" "abs m' = (abs m)(i := None)"
    by auto
  moreover from this sole have "i = j"
    by blast
  ultimately show "r = Success \<and> inv m' \<and> abs m' = (abs m)(j := None) \<and>
      lookup m' j = Done UBENCH_THREAD_ID_INVALID"
    using m' by (simp add: lookup_eq)
qed

text \<open>Registering a native thread that was not registered, then unregistering it.\<close>

lemma put_remove:
  assumes "inv m" and fresh: "n \<notin> ran (abs m)" and put: "put m j n w = Done (Success, m1, w1)"
  shows "lookup m1 j = Done n \<and> returns (remove m1 n) (\<lambda>(r, m2). r = Success \<and> inv m2 \<and>
    (\<forall>i. lookup m2 i = lookup m i))"
proof
  have m1: "inv m1" "abs m j = None" "abs m1 = (abs m)(j \<mapsto> n)"
    using put_law [OF assms(1) put] by simp_all
  have sole: "i = j" if "abs m1 i = Some n" for i
    using that fresh m1(3) by (auto simp: ran_def split: if_splits)
  have undone: "(abs m1)(j := None) = abs m"
    using m1 by (simp add: fun_upd_idem)
  show "lookup m1 j = Done n"
    using put_lookup(1) [OF assms(1) put] .
  show "returns (remove m1 n) (\<lambda>(r, m2). r = Success \<and> inv m2 \<and> (\<forall>i. lookup m2 i = lookup m i))"
  proof (rule returns_mono [OF remove_forgets [OF m1(1) _ sole]])
    show "abs m1 j = Some n" by (simp add: m1(3))
  qed (use assms(1) undone in \<open>auto simp: lookup_eq\<close>)
qed

end

text \<open>The largest \<open>int\<close>.\<close>

abbreviation INT_MAX :: nat where
  "INT_MAX \<equiv> 2147483647"

interpretation tm: thread_registry
  "thread_map_put_java_thread P" thread_map_remove_native_thread thread_map_native_id
  tm_inv tm_abs INT_MAX "\<lambda>w. \<not> fst (malloc_ok P w)" for P
proof
  show "tm_inv m' \<and> registry_spec (tm_abs m) (Put j n) (Status r) (tm_abs m') \<and>
      (r = ENOMEM \<longrightarrow> \<not> fst (malloc_ok P w))"
    if "tm_inv m" "thread_map_put_java_thread P m j n w = Done (r, m', w')" for m j n w r m' w'
    using thread_map_put_spec [OF that] by (auto simp: put_outcome_def)
  show "returns (thread_map_put_java_thread P m j n w) (\<lambda>_. True)"
    if "tm_inv m" "card (dom (tm_abs m)) < INT_MAX" for m j n w
    using thread_map_put_room [OF that(1), of P j n w] that by (auto simp: card_dom_tm_abs returns_iff)
  show "returns (thread_map_remove_native_thread m n)
      (\<lambda>(r, m'). tm_inv m' \<and> registry_spec (tm_abs m) (Remove n) (Status r) (tm_abs m'))"
    if "tm_inv m" for m n
    using thread_map_remove_spec [OF that, of n] by (rule returns_mono) auto
  show "returns (thread_map_native_id m j)
      (\<lambda>n. registry_spec (tm_abs m) (Get j) (NativeId n) (tm_abs m))"
    if "tm_inv m" for m j
    using that by (simp add: thread_map_native_id_spec)
qed

text \<open>
  C16: The two ends of a thread undo each other: once a thread whose native identifier is new has been
  put into the map, its lookup gives that identifier, and removing the identifier succeeds and
  leaves a map that answers every lookup as the original one did, although the removal moved
  another entry into the freed place.
\<close>

theorem thread_map_roundtrip:
  assumes "tm_inv m" and "n \<notin> ran (tm_abs m)"
    and "thread_map_put_java_thread P m j n w = Done (Success, m1, w1)"
  shows "thread_map_native_id m1 j = Done n \<and>
    returns (thread_map_remove_native_thread m1 n) (\<lambda>(r, m2). r = Success \<and> tm_inv m2 \<and>
      (\<forall>i. thread_map_native_id m2 i = thread_map_native_id m i))"
  using assms by (rule tm.put_remove)

theorem thread_map_roundtrip_witness:
  "\<exists>m1. thread_map_put_java_thread sample_platform empty_thread_map 7 1007 0 = Done (Success, m1, 0) \<and>
    returns (thread_map_remove_native_thread m1 1007) (\<lambda>(r, m2). r = Success \<and>
      thread_map_native_id m2 7 = thread_map_native_id empty_thread_map 7)"
proof -
  obtain m1 where put:
    "thread_map_put_java_thread sample_platform empty_thread_map 7 1007 0 = Done (Success, m1, 0)"
    by (simp add: thread_map_put_java_thread_def thread_map_index_of_java_thread_def
        thread_map_index_of_def thread_map_index_from.simps empty_thread_map_def
        thread_map_ensure_capacity_def sample_platform_def buf_realloc_cells buf_set_cells
        size_of_int_def)
  have "(1007 :: native_tid_t) \<notin> ran (tm_abs empty_thread_map)"
    by (simp add: tm_abs_def tm_list_def empty_thread_map_def assoc_of_def)
  from thread_map_roundtrip [OF tm_inv_empty this put] put show ?thesis
    by (auto elim!: returns_mono)
qed

section \<open>The registry behind its lock\<close>

record registry =
  thread_map :: thread_map_t
  thread_map_lock :: ubench_spinlock_t

definition initial_registry :: registry where
  "initial_registry =
    \<lparr>thread_map = empty_thread_map, thread_map_lock = UBENCH_SPINLOCK_INITIALIZER\<rparr>"

definition ubench_register_java_thread ::
    "('w, 'x) c_platform_scheme \<Rightarrow> registry \<Rightarrow> java_tid_t \<Rightarrow> native_tid_t \<Rightarrow> 'w \<Rightarrow>
      (bool \<times> registry \<times> 'w) outcome" where
  "ubench_register_java_thread P r java_thread_id native_thread_id w =
    (case ubench_spinlock_lock P (thread_map_lock r) of
       None \<Rightarrow> Hang
     | Some l \<Rightarrow>
         obind (thread_map_put_java_thread P (thread_map r) java_thread_id native_thread_id w)
           (\<lambda>(result, m, w').
             let r' = r\<lparr>thread_map := m, thread_map_lock := ubench_spinlock_unlock l\<rparr> in
             if result = ENOMEM then Exit else Done (result = Success, r', w')))"

definition ubench_unregister_native_thread ::
    "('w, 'x) c_platform_scheme \<Rightarrow> registry \<Rightarrow> native_tid_t \<Rightarrow> (bool \<times> registry) outcome" where
  "ubench_unregister_native_thread P r native_thread_id =
    (case ubench_spinlock_lock P (thread_map_lock r) of
       None \<Rightarrow> Hang
     | Some l \<Rightarrow>
         obind (thread_map_remove_native_thread (thread_map r) native_thread_id)
           (\<lambda>(result, m). Done
             (result = Success, r\<lparr>thread_map := m, thread_map_lock := ubench_spinlock_unlock l\<rparr>)))"

definition ubench_threads_get_native_id ::
    "('w, 'x) c_platform_scheme \<Rightarrow> registry \<Rightarrow> java_tid_t \<Rightarrow> (native_tid_t \<times> registry) outcome" where
  "ubench_threads_get_native_id P r java_thread_id =
    (case ubench_spinlock_lock P (thread_map_lock r) of
       None \<Rightarrow> Hang
     | Some l \<Rightarrow>
         obind (thread_map_native_id (thread_map r) java_thread_id)
           (\<lambda>result. Done (result, r\<lparr>thread_map_lock := ubench_spinlock_unlock l\<rparr>)))"

definition ubench_get_current_thread_native_id ::
    "('w, 'x) c_platform_scheme \<Rightarrow> 'w \<Rightarrow> native_tid_t \<times> 'w" where
  "ubench_get_current_thread_native_id P w =
    (if MSC_VER P then (case GetCurrentThreadId P w of (tid, w') \<Rightarrow> (ucast tid, w'))
     else if APPLE P then pthread_self P w
     else (case syscall_gettid P w of (answer, w') \<Rightarrow> (scast answer, w')))"

text \<open>The JVMTI callbacks at the start and the end of a thread, run by that thread.\<close>

definition jvmti_callback_on_thread_start ::
    "'w platform \<Rightarrow> registry \<Rightarrow> 'w \<Rightarrow> (registry \<times> 'w) outcome" where
  "jvmti_callback_on_thread_start P r w =
    (case jni_Thread_getId P w of (jid, w1) \<Rightarrow>
     case ubench_get_current_thread_native_id P w1 of (nid, w2) \<Rightarrow>
     obind (ubench_register_java_thread P r jid nid w2)
       (\<lambda>(registered, r', w3). Done (r', w3)))"

definition jvmti_callback_on_thread_end ::
    "'w platform \<Rightarrow> registry \<Rightarrow> 'w \<Rightarrow> (registry \<times> 'w) outcome" where
  "jvmti_callback_on_thread_end P r w =
    (case ubench_get_current_thread_native_id P w of (nid, w1) \<Rightarrow>
     obind (ubench_unregister_native_thread P r nid)
       (\<lambda>(unregistered, r'). Done (r', w1)))"

text \<open>The native methods of the class \<open>NativeThreads\<close>, whose constant is \<open>INVALID_THREAD_ID\<close>.\<close>

definition NativeThreads_INVALID_THREAD_ID :: java_tid_t where
  "NativeThreads_INVALID_THREAD_ID = - 1"

definition NativeThreads_getNativeId ::
    "('w, 'x) c_platform_scheme \<Rightarrow> registry \<Rightarrow> java_tid_t \<Rightarrow> (java_tid_t \<times> registry) outcome" where
  "NativeThreads_getNativeId P r java_thread_id =
    obind (ubench_threads_get_native_id P r java_thread_id) (\<lambda>(native_thread_id, r').
      if native_thread_id = UBENCH_THREAD_ID_INVALID
      then Done (NativeThreads_INVALID_THREAD_ID, r')
      else Done (native_thread_id, r'))"

definition NativeThreads_registerJavaThread ::
    "('w, 'x) c_platform_scheme \<Rightarrow> registry \<Rightarrow> java_tid_t \<Rightarrow> java_tid_t \<Rightarrow> 'w \<Rightarrow>
      (bool \<times> registry \<times> 'w) outcome" where
  "NativeThreads_registerJavaThread P r java_thread_id jnative_thread_id w =
    ubench_register_java_thread P r java_thread_id jnative_thread_id w"

definition NativeThreads_registerCurrentJavaThread ::
    "('w, 'x) c_platform_scheme \<Rightarrow> registry \<Rightarrow> java_tid_t \<Rightarrow> 'w \<Rightarrow>
      (bool \<times> registry \<times> 'w) outcome" where
  "NativeThreads_registerCurrentJavaThread P r java_thread_id w =
    (case ubench_get_current_thread_native_id P w of (nid, w') \<Rightarrow>
       ubench_register_java_thread P r java_thread_id nid w')"

section \<open>What the registry guarantees\<close>

definition registry_inv :: "registry \<Rightarrow> bool" where
  "registry_inv r \<longleftrightarrow> tm_inv (thread_map r) \<and> spin_free (thread_map_lock r)"

abbreviation registry_abs :: "registry \<Rightarrow> java_tid_t \<Rightarrow> native_tid_t option" where
  "registry_abs r \<equiv> tm_abs (thread_map r)"

lemma registry_inv_initial: "registry_inv initial_registry"
  by (simp add: registry_inv_def initial_registry_def tm_inv_empty spin_free_def
    UBENCH_SPINLOCK_INITIALIZER_def)

lemma spin_free_unlocked [simp]: "spin_free (ubench_spinlock_unlock l)"
  by (simp add: ubench_spinlock_unlock_def spin_free_def)

text \<open>Registering a thread ends the process when there is no memory left for it.\<close>

definition registers :: "registry \<Rightarrow> java_tid_t \<Rightarrow> native_tid_t \<Rightarrow> bool \<Rightarrow> registry \<Rightarrow> bool" where
  "registers r j n b r' \<longleftrightarrow> registry_inv r' \<and>
    (b \<and> registry_abs r j = None \<and> registry_abs r' = (registry_abs r)(j \<mapsto> n) \<or>
     \<not> b \<and> registry_abs r j \<noteq> None \<and> registry_abs r' = registry_abs r)"

lemma register_done:
  assumes "registry_inv r" and run: "ubench_register_java_thread P r j n w = Done (b, r', w')"
  shows "registers r j n b r'"
proof -
  have inv: "tm_inv (thread_map r)" "spin_free (thread_map_lock r)"
    using assms(1) by (simp_all add: registry_inv_def)
  from run inv(2) obtain e m where
    put: "thread_map_put_java_thread P (thread_map r) j n w = Done (e, m, w')"
    and e: "e \<noteq> ENOMEM" "b = (e = Success)"
    and r': "thread_map r' = m" "spin_free (thread_map_lock r')"
    by (auto simp: ubench_register_java_thread_def spinlock_lock_free Let_def obind_Done_iff
      split: if_splits)
  show ?thesis
    using tm.put_law [OF inv(1) put] e r' by (auto simp: registers_def registry_inv_def)
qed

lemma register_spec:
  assumes "registry_inv r" and "card (dom (registry_abs r)) < INT_MAX"
  shows "safe (\<not> fst (malloc_ok P w)) (ubench_register_java_thread P r j n w)
    (\<lambda>(b, r', w'). registers r j n b r')"
proof -
  have inv: "tm_inv (thread_map r)" "spin_free (thread_map_lock r)"
    using assms(1) by (simp_all add: registry_inv_def)
  obtain e m w1 where put: "thread_map_put_java_thread P (thread_map r) j n w = Done (e, m, w1)"
    using tm.put_returns [OF inv(1) assms(2), of P j n w] by (auto simp: returns_iff)
  show ?thesis
    using register_done [OF assms(1), of P j n w] tm.put_law [OF inv(1) put] put inv(2)
    by (simp add: ubench_register_java_thread_def spinlock_lock_free Let_def)
qed

lemma unregister_spec:
  assumes "registry_inv r"
  shows "returns (ubench_unregister_native_thread P r n)
    (\<lambda>(b, r'). registry_inv r' \<and>
      (b \<and> (\<exists>j. registry_abs r j = Some n \<and> registry_abs r' = (registry_abs r)(j := None)) \<or>
       \<not> b \<and> n \<notin> ran (registry_abs r) \<and> registry_abs r' = registry_abs r))"
  using assms
  by (auto simp: ubench_unregister_native_thread_def registry_inv_def spinlock_lock_free
    returns_bind intro!: returns_mono [OF tm.remove_law])

lemma get_native_id_spec:
  assumes "registry_inv r"
  shows "\<exists>r'. ubench_threads_get_native_id P r j =
      Done (case registry_abs r j of None \<Rightarrow> UBENCH_THREAD_ID_INVALID | Some n \<Rightarrow> n, r') \<and>
    registry_inv r' \<and> thread_map r' = thread_map r"
  using assms tm.lookup_eq [of "thread_map r" j]
  by (auto simp: ubench_threads_get_native_id_def registry_inv_def spinlock_lock_free)

section \<open>The native methods\<close>

lemma getNativeId_eq:
  assumes "registry_inv r"
  shows "\<exists>r'. NativeThreads_getNativeId P r j =
      Done (case registry_abs r j of None \<Rightarrow> - 1 | Some n \<Rightarrow> n, r') \<and>
    registry_inv r' \<and> thread_map r' = thread_map r"
proof -
  obtain r' where "ubench_threads_get_native_id P r j =
      Done (case registry_abs r j of None \<Rightarrow> UBENCH_THREAD_ID_INVALID | Some n \<Rightarrow> n, r')"
    "registry_inv r'" "thread_map r' = thread_map r"
    using get_native_id_spec [OF assms] by blast
  then show ?thesis
    by (auto simp: NativeThreads_getNativeId_def NativeThreads_INVALID_THREAD_ID_def
      UBENCH_THREAD_ID_INVALID_def split: option.splits)
qed

text \<open>The answer of \<open>getNativeId\<close>.\<close>

definition known_native_id :: "('w, 'x) c_platform_scheme \<Rightarrow> registry \<Rightarrow> java_tid_t \<Rightarrow> java_tid_t option"
where
  "known_native_id P r j =
    (case NativeThreads_getNativeId P r j of
       Done (n, r') \<Rightarrow> if n = NativeThreads_INVALID_THREAD_ID then None else Some n
     | _ \<Rightarrow> None)"

lemmas registry_sample_simps =
  NativeThreads_registerJavaThread_def ubench_register_java_thread_def spinlock_lock_free
  initial_registry_def empty_thread_map_def UBENCH_SPINLOCK_INITIALIZER_def spin_free_def
  thread_map_put_java_thread_def thread_map_index_of_java_thread_def thread_map_index_of_def
  thread_map_index_from.simps thread_map_ensure_capacity_def sample_platform_def

text \<open>
  C26: Registering a Java thread by hand reports success exactly when the thread was not registered
  before. On success the thread is known by the new native identifier (unless that is -1, the
  value for unknown threads), and all other threads keep theirs; otherwise nothing changes. As
  long as fewer than \<open>2^31 - 1\<close> threads are registered it has no undefined behaviour, returns with
  the lock free, and ends the process only when the allocation of the entry fails.
\<close>

theorem registerJavaThread_spec:
  assumes "registry_inv r" and "card (dom (registry_abs r)) < INT_MAX"
  shows "safe (\<not> fst (malloc_ok P w)) (NativeThreads_registerJavaThread P r j n w)
    (\<lambda>(registered, r', w'). registry_inv r' \<and>
      registered = (registry_abs r j = None) \<and>
      known_native_id P r' j =
        (if registered then (if n = - 1 then None else Some n) else known_native_id P r j) \<and>
      (\<forall>i. i \<noteq> j \<longrightarrow> known_native_id P r' i = known_native_id P r i))"
proof -
  have known: "known_native_id P s i =
      (case registry_abs s i of None \<Rightarrow> None | Some k \<Rightarrow> if k = - 1 then None else Some k)"
    if "registry_inv s" for s i
    using getNativeId_eq [OF that, of P i]
    by (auto simp: known_native_id_def NativeThreads_INVALID_THREAD_ID_def split: option.splits)
  show ?thesis
    unfolding NativeThreads_registerJavaThread_def
    by (rule safe_mono [OF register_spec [OF assms]]) (auto simp: known assms registers_def)
qed

theorem registerJavaThread_spec_witness:
  "returns (NativeThreads_registerJavaThread sample_platform initial_registry 7 42 0)
    (\<lambda>(registered, r', w'). registered \<and> known_native_id sample_platform r' 7 = Some 42)"
proof -
  have none: "registry_abs initial_registry = Map.empty"
    by (simp add: initial_registry_def empty_thread_map_def tm_abs_def tm_list_def assoc_of_def)
  have malloc: "fst (malloc_ok sample_platform 0)"
    by (simp add: sample_platform_def)
  have "card (dom (registry_abs initial_registry)) < INT_MAX"
    by (simp add: none)
  from registerJavaThread_spec [OF registry_inv_initial this, of sample_platform 0 7 42]
  show ?thesis
    by (simp only: malloc not_True_eq_False safe_returns) (erule returns_mono, auto simp: none)
qed

section \<open>The life of threads\<close>

text \<open>
  Each callback runs on the thread it is about, at a time of its own: an event carries the
  environment in which its callback runs, from which the identifiers come.
\<close>

datatype 'w thread_event = Thread_started 'w | Thread_ended 'w

fun on_thread_event :: "'w platform \<Rightarrow> registry \<Rightarrow> 'w thread_event \<Rightarrow> registry outcome" where
  "on_thread_event P r (Thread_started w) =
     obind (jvmti_callback_on_thread_start P r w) (\<lambda>(r', w'). Done r')"
| "on_thread_event P r (Thread_ended w) =
     obind (jvmti_callback_on_thread_end P r w) (\<lambda>(r', w'). Done r')"

fun on_thread_events :: "'w platform \<Rightarrow> registry \<Rightarrow> 'w thread_event list \<Rightarrow> registry outcome" where
  "on_thread_events P r [] = Done r"
| "on_thread_events P r (e # es) = obind (on_thread_event P r e) (\<lambda>r'. on_thread_events P r' es)"

definition event_java_id :: "'w platform \<Rightarrow> 'w \<Rightarrow> java_tid_t" where
  "event_java_id P w = fst (jni_Thread_getId P w)"

definition event_native_id :: "'w platform \<Rightarrow> 'w thread_event \<Rightarrow> native_tid_t" where
  "event_native_id P e =
    (case e of
       Thread_started w \<Rightarrow> fst (ubench_get_current_thread_native_id P (snd (jni_Thread_getId P w)))
     | Thread_ended w \<Rightarrow> fst (ubench_get_current_thread_native_id P w))"

text \<open>
  The threads alive after an event, and what the virtual machine and the operating system
  guarantee: a thread starts with identifiers no live thread has, when fewer than \<open>2^31 - 1\<close>
  threads live, and only live threads end.
\<close>

fun live_after ::
    "'w platform \<Rightarrow> (java_tid_t \<Rightarrow> native_tid_t option) \<Rightarrow> 'w thread_event \<Rightarrow>
      (java_tid_t \<Rightarrow> native_tid_t option)" where
  "live_after P a (Thread_started w) =
     a(event_java_id P w \<mapsto> event_native_id P (Thread_started w))"
| "live_after P a (Thread_ended w) =
     (\<lambda>j. if a j = Some (event_native_id P (Thread_ended w)) then None else a j)"

fun event_possible ::
    "'w platform \<Rightarrow> (java_tid_t \<Rightarrow> native_tid_t option) \<Rightarrow> 'w thread_event \<Rightarrow> bool" where
  "event_possible P a (Thread_started w) \<longleftrightarrow>
     a (event_java_id P w) = None \<and> event_native_id P (Thread_started w) \<notin> ran a \<and>
     card (dom a) < INT_MAX"
| "event_possible P a (Thread_ended w) \<longleftrightarrow> event_native_id P (Thread_ended w) \<in> ran a"

fun events_possible ::
    "'w platform \<Rightarrow> (java_tid_t \<Rightarrow> native_tid_t option) \<Rightarrow> 'w thread_event list \<Rightarrow> bool" where
  "events_possible P a [] \<longleftrightarrow> True"
| "events_possible P a (e # es) \<longleftrightarrow> event_possible P a e \<and> events_possible P (live_after P a e) es"

lemma inj_live_after:
  assumes "inj_on a (dom a)" and "event_possible P a e"
  shows "inj_on (live_after P a e) (dom (live_after P a e))"
  using assms by (cases e) (auto simp: inj_on_def dom_def ran_def split: if_splits)

lemma on_thread_event_live:
  assumes inv: "registry_inv r" and inj: "inj_on (registry_abs r) (dom (registry_abs r))"
    and e: "event_possible P (registry_abs r) e"
  shows "safe (\<not> memory_suffices P) (on_thread_event P r e)
    (\<lambda>r'. registry_inv r' \<and> registry_abs r' = live_after P (registry_abs r) e)"
proof (cases e)
  case (Thread_started w)
  obtain jid w1 where j: "jni_Thread_getId P w = (jid, w1)" by fastforce
  obtain nid w2 where n: "ubench_get_current_thread_native_id P w1 = (nid, w2)" by fastforce
  have "card (dom (registry_abs r)) < INT_MAX"
    using e by (simp add: Thread_started)
  from register_spec [OF inv this, of P w2 jid nid]
  have "safe (\<not> memory_suffices P) (ubench_register_java_thread P r jid nid w2)
      (\<lambda>(b, r', w'). registers r jid nid b r')"
    by (rule safe_quits) (auto simp: memory_suffices_def)
  then show ?thesis
    by (simp add: Thread_started jvmti_callback_on_thread_start_def j n safe_bind
        event_java_id_def event_native_id_def)
       (erule safe_mono, use e in \<open>auto simp: Thread_started j event_java_id_def registers_def\<close>)
next
  case (Thread_ended w)
  obtain nid w1 where n: "ubench_get_current_thread_native_id P w = (nid, w1)" by fastforce
  have gone: "(registry_abs r)(j := None) = (\<lambda>i. if registry_abs r i = Some nid then None else registry_abs r i)"
    if "registry_abs r j = Some nid" for j
    using inj that by (auto simp: inj_on_def dom_def fun_eq_iff)
  show ?thesis
    using e
    by (simp add: Thread_ended jvmti_callback_on_thread_end_def n safe_bind event_native_id_def)
       (rule returns_safe [OF returns_mono [OF unregister_spec [OF inv]]], auto simp: gone)
qed

definition live_threads ::
    "'w platform \<Rightarrow> (java_tid_t \<Rightarrow> native_tid_t option) \<Rightarrow> 'w thread_event list \<Rightarrow>
      (java_tid_t \<Rightarrow> native_tid_t option)" where
  "live_threads P = foldl (live_after P)"

lemma on_thread_events_live:
  assumes "registry_inv r" and "inj_on (registry_abs r) (dom (registry_abs r))"
    and "events_possible P (registry_abs r) es"
  shows "safe (\<not> memory_suffices P) (on_thread_events P r es)
    (\<lambda>r'. registry_inv r' \<and> registry_abs r' = live_threads P (registry_abs r) es)"
  using assms
proof (induction es arbitrary: r)
  case Nil
  then show ?case by (simp add: live_threads_def)
next
  case (Cons e es)
  then have step: "safe (\<not> memory_suffices P) (on_thread_event P r e)
      (\<lambda>r'. registry_inv r' \<and> registry_abs r' = live_after P (registry_abs r) e)"
    by (intro on_thread_event_live) simp_all
  have inj: "inj_on (live_after P (registry_abs r) e) (dom (live_after P (registry_abs r) e))"
    using Cons.prems by (intro inj_live_after) simp_all
  have rest: "safe (\<not> memory_suffices P) (on_thread_events P s es) (\<lambda>r'. registry_inv r' \<and>
      registry_abs r' = live_threads P (registry_abs r) (e # es))"
    if "registry_inv s \<and> registry_abs s = live_after P (registry_abs r) e" for s
    using Cons.IH [of s] that inj Cons.prems(3) by (simp add: live_threads_def)
  show ?case
    by (simp add: safe_bind safe_mono [OF step rest])
qed



end
