(* ===== verification/EventSets.thy ===== *)
theory EventSets
  imports Measure Events ThreadRegistry
begin

text \<open>
  The event sets of the agent (\<open>measurement.c\<close>, lines 58 to 428): the table of slots, the
  native methods that create, attach and destroy an event set, and the errors they throw.
\<close>

section \<open>The state of the agent\<close>

text \<open>\<open>valid\<close> is 0 or 1 in the code. A slot fresh from \<open>realloc\<close> has indeterminate contents.\<close>

record eventset_t =
  config :: benchmark_configuration_t
  valid :: bool

definition indeterminate_slot :: eventset_t where
  "indeterminate_slot =
    \<lparr>config = \<lparr>used_backends = 0, used_events = Indet, used_events_count = 0,
       used_papi_events = [], papi_eventset = 0, papi_component = 0, data = Indet,
       data_size = 0, data_index = 0\<rparr>,
     valid = False\<rparr>"

text \<open>
  The static variables of the agent that its native methods use, the message of an exception
  that waits for the return to Java, and the environment.
\<close>

record 'w agent =
  all_eventsets :: "eventset_t buf"
  all_eventset_count :: c_int
  agent_counters :: counters
  agent_registry :: registry
  windows_timer_frequency :: c_long
  pending_exception :: "string option"
  borrowed :: int
  allocated :: int
  names_allocated :: int
  world :: 'w

definition initial_agent :: "'w \<Rightarrow> 'w agent" where
  "initial_agent w =
    \<lparr>all_eventsets = Null, all_eventset_count = 0, agent_counters = initial_counters,
     agent_registry = initial_registry, windows_timer_frequency = 0, pending_exception = None,
     borrowed = 0, allocated = 0, names_allocated = 0, world = w\<rparr>"

text \<open>A call of the platform.\<close>

definition call_ext :: "('w, 'r) ext \<Rightarrow> 'w agent \<Rightarrow> 'r \<times> 'w agent" where
  "call_ext f s = (case f (world s) of (r, w) \<Rightarrow> (r, s\<lparr>world := w\<rparr>))"

text \<open>
  The characters of a string and the elements of an array belong to the virtual machine, which
  keeps them for the agent until it gives them back: \<open>borrowed\<close> counts those it has not released.
  A null pointer was not borrowed. \<open>accessible\<close>: \<open>GetIntArrayElements\<close> did not return null.
\<close>

definition borrow :: "bool \<Rightarrow> 'w agent \<Rightarrow> 'w agent" where
  "borrow got s = (if got then s\<lparr>borrowed := borrowed s + 1\<rparr> else s)"

definition give_back :: "bool \<Rightarrow> 'w agent \<Rightarrow> 'w agent" where
  "give_back got s = (if got then s\<lparr>borrowed := borrowed s - 1\<rparr> else s)"

definition GetStringUTFChars :: "'w platform \<Rightarrow> string \<Rightarrow> 'w agent \<Rightarrow> string option \<times> 'w agent" where
  "GetStringUTFChars P str s =
    (case call_ext (jni_GetStringUTFChars P str) s of (chars, s1) \<Rightarrow>
       (chars, borrow (chars \<noteq> None) s1))"

definition ReleaseStringUTFChars :: "string option \<Rightarrow> 'w agent \<Rightarrow> 'w agent" where
  "ReleaseStringUTFChars chars s = give_back (chars \<noteq> None) s"

definition GetIntArrayElements :: "'w platform \<Rightarrow> c_int list \<Rightarrow> 'w agent \<Rightarrow> bool \<times> 'w agent" where
  "GetIntArrayElements P xs s =
    (case call_ext (jni_GetIntArrayElements P xs) s of (accessible, s1) \<Rightarrow>
       (accessible, borrow accessible s1))"

definition ReleaseIntArrayElements :: "bool \<Rightarrow> 'w agent \<Rightarrow> 'w agent" where
  "ReleaseIntArrayElements accessible s = give_back accessible s"

text \<open>
  \<open>allocated\<close> counts the blocks that \<open>calloc\<close> made for the measurements and the event descriptions of the
  event sets, \<open>names_allocated\<close> those that \<open>ubench_str_dup\<close> made for the events' names, in each case
  without those that \<open>free\<close> has taken back. Like \<open>borrowed\<close>, no code reads them.
\<close>

definition count_blocks :: "int \<Rightarrow> 'w agent \<Rightarrow> 'w agent" where
  "count_blocks n s = s\<lparr>allocated := allocated s + n\<rparr>"

lemma count_blocks_members [simp]:
  "all_eventsets (count_blocks n s) = all_eventsets s"
  "all_eventset_count (count_blocks n s) = all_eventset_count s"
  "agent_counters (count_blocks n s) = agent_counters s"
  "agent_registry (count_blocks n s) = agent_registry s"
  "windows_timer_frequency (count_blocks n s) = windows_timer_frequency s"
  "pending_exception (count_blocks n s) = pending_exception s"
  "borrowed (count_blocks n s) = borrowed s"
  "allocated (count_blocks n s) = allocated s + n"
  "names_allocated (count_blocks n s) = names_allocated s"
  "world (count_blocks n s) = world s"
  by (simp_all add: count_blocks_def)

text \<open>The name of a resolved event; it is null when there was no memory for it.\<close>

definition count_name :: "ubench_event_info_t \<Rightarrow> 'w agent \<Rightarrow> 'w agent" where
  "count_name info s =
    s\<lparr>names_allocated := names_allocated s + (if event_name info = None then 0 else 1)\<rparr>"

lemma count_name_members [simp]:
  "all_eventsets (count_name i s) = all_eventsets s"
  "all_eventset_count (count_name i s) = all_eventset_count s"
  "agent_counters (count_name i s) = agent_counters s"
  "agent_registry (count_name i s) = agent_registry s"
  "windows_timer_frequency (count_name i s) = windows_timer_frequency s"
  "pending_exception (count_name i s) = pending_exception s"
  "borrowed (count_name i s) = borrowed s"
  "allocated (count_name i s) = allocated s"
  "names_allocated (count_name i s) = names_allocated s + (if event_name i = None then 0 else 1)"
  "world (count_name i s) = world s"
  by (simp_all add: count_name_def)

section \<open>Starting PAPI\<close>

definition check_papi_error :: "c_int \<Rightarrow> 'a \<Rightarrow> 'a outcome" where
  "check_papi_error papi_error x = (if sint papi_error < 0 then Exit else Done x)"

definition ubench_measurement_init ::
    "('w, 'x) papi_platform_scheme \<Rightarrow> 'w \<Rightarrow> (bool \<times> 'w) outcome" where
  "ubench_measurement_init P w =
    (if HAS_PAPI P then
       case PAPI_library_init P w of (lib_init_rc, w1) \<Rightarrow>
       if lib_init_rc \<noteq> PAPI_VER_CURRENT P \<and> 0 < sint lib_init_rc then Exit
       else obind (check_papi_error lib_init_rc w1) (\<lambda>w1.
         case PAPI_thread_init P w1 of (thread_init_rc, w2) \<Rightarrow>
         obind (check_papi_error thread_init_rc w2) (\<lambda>w2. Done (True, w2)))
     else Done (True, w))"

section \<open>Exceptions\<close>

definition do_throw :: "'w platform \<Rightarrow> string \<Rightarrow> 'w agent \<Rightarrow> 'w agent outcome" where
  "do_throw P message s =
    (case call_ext (jni_FindClass P ''cz/cuni/mff/d3s/perf/MeasurementException'') s of
       (exClass, s1) \<Rightarrow>
         if \<not> exClass then Exit else Done (s1\<lparr>pending_exception := Some message\<rparr>))"

text \<open>\<open>sprintf\<close> writes the message and its terminating zero into a buffer of 512 bytes.\<close>

definition do_papi_error_throw ::
    "'w platform \<Rightarrow> c_int \<Rightarrow> string \<Rightarrow> 'w agent \<Rightarrow> 'w agent outcome" where
  "do_papi_error_throw P rc function_that_failed s =
    (let message = function_that_failed @ '' failed: '' @ PAPI_strerror P rc @ ''.'' in
     if 512 \<le> length message then Fault OutOfBounds else do_throw P message s)"

definition THROW_OOM :: "'w platform \<Rightarrow> string \<Rightarrow> 'w agent \<Rightarrow> 'w agent outcome" where
  "THROW_OOM P message s = do_throw P (''Out of memory ('' @ message @ '').'') s"

text \<open>\<open>snprintf\<close> with a size of 510 keeps at most 509 characters.\<close>

definition unrecognized_event_message :: "string \<Rightarrow> string" where
  "unrecognized_event_message event =
    take 509 (''Unrecognized event '' @ event @ ''.'')"

section \<open>Slots\<close>

text \<open>The search for a slot that is not valid, over \<open>i\<close> and the \<open>n - 1\<close> indices after it.\<close>

fun find_free_slot :: "eventset_t buf \<Rightarrow> nat \<Rightarrow> nat \<Rightarrow> nat option outcome" where
  "find_free_slot slots i 0 = Done None"
| "find_free_slot slots i (Suc n) =
     obind (buf_get slots i) (\<lambda>e.
       if \<not> valid e then Done (Some i) else find_free_slot slots (i + 1) n)"

text \<open>
  The first part of \<open>createEventSet\<close>: the index of the slot to use, with a slot appended when all
  are in use, or \<open>None\<close> when memory runs out.
\<close>

definition allocate_slot :: "'w platform \<Rightarrow> 'w agent \<Rightarrow> (nat option \<times> 'w agent) outcome" where
  "allocate_slot P s =
    obind (find_free_slot (all_eventsets s) 0 (nat (sint (all_eventset_count s)))) (\<lambda>found.
      case found of
        Some i \<Rightarrow> Done (Some i, s)
      | None \<Rightarrow>
          (case call_ext (malloc_ok P) s of (ok, s1) \<Rightarrow>
           if \<not> ok then
             obind (THROW_OOM P ''allocating an event set'' s1) (\<lambda>s2. Done (None, s2))
           else
             obind (buf_realloc indeterminate_slot (all_eventsets s1)
                 (nat (sint (all_eventset_count s1 + 1)))) (\<lambda>slots.
             let eventset_id = nat (sint (all_eventset_count s1)) in
             obind (buf_get slots eventset_id) (\<lambda>e.
             obind (buf_set slots eventset_id (e\<lparr>valid := False\<rparr>)) (\<lambda>slots'.
             Done (Some eventset_id,
               s1\<lparr>all_eventsets := slots', all_eventset_count := all_eventset_count s1 + 1\<rparr>))))))"

definition store_slot :: "nat \<Rightarrow> eventset_t \<Rightarrow> 'w agent \<Rightarrow> 'w agent outcome" where
  "store_slot i e s =
    obind (buf_set (all_eventsets s) i e) (\<lambda>slots. Done (s\<lparr>all_eventsets := slots\<rparr>))"

text \<open>The guard \<open>(jid < 0) || (jid >= all_eventset_count) || !all_eventsets[jid].valid\<close>, negated.\<close>

definition is_valid_id :: "'w agent \<Rightarrow> c_int \<Rightarrow> bool outcome" where
  "is_valid_id s jid =
    (if sint jid < 0 \<or> sint (all_eventset_count s) \<le> sint jid then Done False
     else obind (buf_get (all_eventsets s) (nat (sint jid))) (\<lambda>e. Done (valid e)))"

text \<open>An access \<open>all_eventsets[jid]\<close> with an index that the code does not check.\<close>

definition get_slot :: "'w agent \<Rightarrow> c_int \<Rightarrow> eventset_t outcome" where
  "get_slot s jid =
    (if sint jid < 0 then Fault OutOfBounds else buf_get (all_eventsets s) (nat (sint jid)))"

section \<open>Creating an event set\<close>

text \<open>
  The \<open>eventset\<close> that \<open>createEventSet\<close> fills is used by nobody else before the method returns. The
  definitions below pass its configuration along and store it in its slot at every return.
  A result \<open>(False, c, s)\<close> means that an exception was thrown and the method returns -1.
\<close>

definition free_blocks :: "benchmark_configuration_t \<Rightarrow> benchmark_configuration_t outcome" where
  "free_blocks c =
    obind (buf_free (used_events c)) (\<lambda>ue.
    obind (buf_free (data c)) (\<lambda>d. Done (c\<lparr>used_events := ue, data := d\<rparr>)))"

text \<open>The position of a PAPI event among those of the set: an old one, a new one, or none left.\<close>

definition register_papi_event ::
    "benchmark_configuration_t \<Rightarrow> ubench_event_info_t \<Rightarrow>
      benchmark_configuration_t \<times> ubench_event_info_t" where
  "register_papi_event c event_info =
    (let j = first_index (\<lambda>e. e = event_id event_info) (used_papi_events c) in
     if j < used_papi_events_count c then (c, event_info\<lparr>papi_index := j\<rparr>)
     else if used_papi_events_count c < UBENCH_MAX_PAPI_EVENTS then
       (c\<lparr>used_papi_events := used_papi_events c @ [event_id event_info]\<rparr>,
        event_info\<lparr>papi_index := used_papi_events_count c\<rparr>)
     else (c, event_info))"

text \<open>
  What the loop over the events does with an event that was resolved: it stores and counts the
  event; \<open>False\<close> when the event's PAPI component is not that of the events before.
\<close>

definition store_event ::
    "('w, 'x) c_platform_scheme \<Rightarrow> ubench_event_info_t \<Rightarrow> benchmark_configuration_t \<Rightarrow>
      (bool \<times> benchmark_configuration_t) outcome" where
  "store_event P event_info c =
    (let c1 = c\<lparr>used_events_count := used_events_count c + 1,
                used_backends := used_backends c OR backend event_info\<rparr> in
     if HAS_PAPI P \<and> backend event_info = UBENCH_EVENT_BACKEND_PAPI then
       case register_papi_event c1 event_info of (c2, event_info') \<Rightarrow>
       obind (buf_set (used_events c) (used_events_count c) event_info') (\<lambda>events.
       let c3 = c2\<lparr>used_events := events\<rparr> in
       if 1 < used_papi_events_count c3 \<and> papi_component c3 \<noteq> event_papi_component event_info'
       then Done (False, c3)
       else Done (True, c3\<lparr>papi_component := event_papi_component event_info'\<rparr>))
     else
       obind (buf_set (used_events c) (used_events_count c) event_info) (\<lambda>events.
       Done (True, c1\<lparr>used_events := events\<rparr>)))"

text \<open>One round of the loop over the events, and the loop.\<close>

definition add_event ::
    "'w platform \<Rightarrow> string \<Rightarrow> benchmark_configuration_t \<Rightarrow> 'w agent \<Rightarrow>
      (bool \<times> benchmark_configuration_t \<times> 'w agent) outcome" where
  "add_event P jevent_name c s =
    (case GetStringUTFChars P jevent_name s of (event, s1) \<Rightarrow>
     obind (buf_get (used_events c) (used_events_count c)) (\<lambda>info.
     case call_ext (ubench_event_resolve P event info) s1 of ((event_ok, event_info), s2) \<Rightarrow>
     if \<not> event_ok then
       case event of
         None \<Rightarrow> Fault NullDeref
       | Some name \<Rightarrow>
           obind (free_blocks c) (\<lambda>c'.
           obind (do_throw P (unrecognized_event_message name)
               (count_blocks (- 2) (ReleaseStringUTFChars event s2)))
             (\<lambda>s3. Done (False, c', s3)))
     else obind (store_event P event_info c) (\<lambda>(same_component, c').
       if \<not> same_component then
         obind (do_throw P ''PAPI components are not the same in the event set.''
             (count_name event_info s2))
           (\<lambda>s3. Done (False, c', s3))
       else Done (True, c', ReleaseStringUTFChars event (count_name event_info s2)))))"

fun add_events ::
    "'w platform \<Rightarrow> string list \<Rightarrow> benchmark_configuration_t \<Rightarrow> 'w agent \<Rightarrow>
      (bool \<times> benchmark_configuration_t \<times> 'w agent) outcome" where
  "add_events P [] c s = Done (True, c, s)"
| "add_events P (jevent_name # jeventNames) c s =
     obind (add_event P jevent_name c s) (\<lambda>(ok, c', s').
       if \<not> ok then Done (False, c', s') else add_events P jeventNames c' s')"

text \<open>
  A call of PAPI that fails: the options are released, both blocks are freed and the error is thrown.
\<close>

definition papi_failure ::
    "'w platform \<Rightarrow> bool \<Rightarrow> c_int \<Rightarrow> string \<Rightarrow> benchmark_configuration_t \<Rightarrow> 'w agent \<Rightarrow>
      (bool \<times> benchmark_configuration_t \<times> 'w agent) outcome" where
  "papi_failure P accessible rc function_that_failed c s =
    obind (free_blocks c) (\<lambda>c'.
    obind (do_papi_error_throw P rc function_that_failed
        (count_blocks (- 2) (ReleaseIntArrayElements accessible s)))
      (\<lambda>s'. Done (False, c', s')))"

definition Measurement_THREAD_INHERIT :: c_int where
  "Measurement_THREAD_INHERIT = 1"

text \<open>The loop over the options.\<close>

fun set_options ::
    "'w platform \<Rightarrow> bool \<Rightarrow> c_int list \<Rightarrow> benchmark_configuration_t \<Rightarrow> 'w agent \<Rightarrow>
      (bool \<times> benchmark_configuration_t \<times> 'w agent) outcome" where
  "set_options P accessible [] c s = Done (True, c, s)"
| "set_options P accessible (option # options) c s =
     (if \<not> accessible then Fault NullDeref
      else if option = Measurement_THREAD_INHERIT then
        case call_ext (PAPI_set_opt_inherit_all P (papi_eventset c)) s of (rc, s1) \<Rightarrow>
        if rc \<noteq> PAPI_OK P then papi_failure P accessible rc ''PAPI_set_opt(PAPI_INHERIT)'' c s1
        else set_options P accessible options c s1
      else set_options P accessible options c s)"

fun add_papi_events ::
    "'w platform \<Rightarrow> bool \<Rightarrow> c_int list \<Rightarrow> benchmark_configuration_t \<Rightarrow> 'w agent \<Rightarrow>
      (bool \<times> benchmark_configuration_t \<times> 'w agent) outcome" where
  "add_papi_events P accessible [] c s = Done (True, c, s)"
| "add_papi_events P accessible (event # events) c s =
     (case call_ext (PAPI_add_event P (papi_eventset c) event) s of (rc, s1) \<Rightarrow>
      if rc \<noteq> PAPI_OK P then papi_failure P accessible rc ''PAPI_add_event'' c s1
      else add_papi_events P accessible events c s1)"

definition setup_papi ::
    "'w platform \<Rightarrow> bool \<Rightarrow> c_int list \<Rightarrow> benchmark_configuration_t \<Rightarrow> 'w agent \<Rightarrow>
      (bool \<times> benchmark_configuration_t \<times> 'w agent) outcome" where
  "setup_papi P accessible options c s =
    (case call_ext (PAPI_create_eventset P (papi_eventset c)) s of ((rc, handle), s1) \<Rightarrow>
     let c1 = c\<lparr>papi_eventset := handle\<rparr> in
     if rc \<noteq> PAPI_OK P then papi_failure P accessible rc ''PAPI_create_eventset'' c1 s1
     else case call_ext (PAPI_assign_eventset_component P handle (papi_component c1)) s1 of (rc, s2) \<Rightarrow>
       if rc \<noteq> PAPI_OK P then papi_failure P accessible rc ''PAPI_assign_eventset_component'' c1 s2
       else obind (set_options P accessible options c1 s2) (\<lambda>(ok, c2, s3).
         if \<not> ok then Done (False, c2, s3)
         else add_papi_events P accessible (used_papi_events c2) c2 s3))"

text \<open>
  \<open>setup_eventset\<close> is \<open>createEventSet\<close> from the choice of the slot on: it clears the configuration,
  adds the events, and hands them to PAPI.
\<close>

definition cleared_config ::
    "('w, 'x) papi_platform_scheme \<Rightarrow> c_int \<Rightarrow> nat \<Rightarrow> benchmark_configuration_t \<Rightarrow>
      benchmark_configuration_t" where
  "cleared_config P jmeasurements event_count c =
    (let c' = c\<lparr>used_backends := 0,
          data := Buf (replicate (nat (sint jmeasurements)) zero_snapshot), data_index := 0,
          data_size := nat (sint jmeasurements),
          used_events := Buf (replicate event_count zero_event_info), used_events_count := 0\<rparr> in
     if HAS_PAPI P
     then c'\<lparr>papi_eventset := PAPI_NULL P, papi_component := 0, used_papi_events := []\<rparr>
     else c')"

definition finish_setup ::
    "'w platform \<Rightarrow> c_int list \<Rightarrow> benchmark_configuration_t \<Rightarrow> 'w agent \<Rightarrow>
      (bool \<times> benchmark_configuration_t \<times> 'w agent) outcome" where
  "finish_setup P joptions c s =
    (if \<not> HAS_PAPI P then Done (True, c, s)
     else case GetIntArrayElements P joptions s of (accessible, s1) \<Rightarrow>
       obind (if uses_backend (used_backends c) UBENCH_EVENT_BACKEND_PAPI
         then setup_papi P accessible joptions c s1 else Done (True, c, s1))
       (\<lambda>(ok, c', s2). Done (ok, c', if ok then ReleaseIntArrayElements accessible s2 else s2)))"

definition setup_eventset ::
    "'w platform \<Rightarrow> c_int \<Rightarrow> string list \<Rightarrow> c_int list \<Rightarrow> benchmark_configuration_t \<Rightarrow> 'w agent \<Rightarrow>
      (bool \<times> benchmark_configuration_t \<times> 'w agent) outcome" where
  "setup_eventset P jmeasurements jeventNames joptions c s =
    (case call_ext (malloc_ok P) s of (ok, s1) \<Rightarrow>
     if \<not> ok then
       obind (THROW_OOM P ''allocating place for measurements'' s1) (\<lambda>s2.
         Done (False, c\<lparr>used_backends := 0, data := Null\<rparr>, s2))
     else case call_ext (malloc_ok P) (count_blocks 1 s1) of (ok, s2) \<Rightarrow>
     if \<not> ok then
       obind (buf_free (Buf (replicate (nat (sint jmeasurements)) zero_snapshot))) (\<lambda>d.
       obind (THROW_OOM P ''allocating place for event metadata'' (count_blocks (- 1) s2)) (\<lambda>s3.
         Done (False, c\<lparr>used_backends := 0, data := d, data_index := 0,
           data_size := nat (sint jmeasurements), used_events := Null\<rparr>, s3)))
     else
       obind (add_events P jeventNames (cleared_config P jmeasurements (length jeventNames) c)
           (count_blocks 1 s2))
         (\<lambda>(ok, c', s3). if \<not> ok then Done (False, c', s3) else finish_setup P joptions c' s3))"

definition Measurement_createEventSet ::
    "'w platform \<Rightarrow> c_int \<Rightarrow> string list \<Rightarrow> c_int list \<Rightarrow> 'w agent \<Rightarrow> (c_int \<times> 'w agent) outcome"
where
  "Measurement_createEventSet P jmeasurements jeventNames joptions s =
    (let jmeasurements = jmeasurements * 2 in
     if sint jmeasurements \<le> 0 then
       obind (do_throw P ''Number of measurements has to be positive.'' s) (\<lambda>s1. Done (- 1, s1))
     else if length jeventNames = 0 then
       obind (do_throw P ''List of events cannot be empty.'' s) (\<lambda>s1. Done (- 1, s1))
     else obind (allocate_slot P s) (\<lambda>(slot, s1).
       case slot of
         None \<Rightarrow> Done (- 1, s1)
       | Some eventset_id \<Rightarrow>
           obind (buf_get (all_eventsets s1) eventset_id) (\<lambda>e.
           obind (setup_eventset P jmeasurements jeventNames joptions (config e) s1) (\<lambda>(ok, c, s2).
           obind (store_slot eventset_id \<lparr>config = c, valid = ok\<rparr> s2) (\<lambda>s3.
           Done (if ok then of_nat eventset_id else - 1, s3))))))"

section \<open>Destroying and attaching\<close>

definition INVALID_ID_MESSAGE :: string where
  "INVALID_ID_MESSAGE = ''Invalid event set id.''"

definition Measurement_destroyEventSet ::
    "'w platform \<Rightarrow> c_int \<Rightarrow> 'w agent \<Rightarrow> 'w agent outcome" where
  "Measurement_destroyEventSet P jid s =
    obind (is_valid_id s jid) (\<lambda>ok.
      if \<not> ok then do_throw P INVALID_ID_MESSAGE s
      else obind (buf_get (all_eventsets s) (nat (sint jid))) (\<lambda>e.
        obind (free_blocks (config e)) (\<lambda>c.
        store_slot (nat (sint jid)) \<lparr>config = c, valid = False\<rparr> (count_blocks (- 2) s))))"

definition attach_failure ::
    "'w platform \<Rightarrow> c_int \<Rightarrow> ('w agent \<Rightarrow> 'w agent outcome) \<Rightarrow> 'w agent \<Rightarrow>
      (c_int \<times> 'w agent) outcome" where
  "attach_failure P eventset_index throw s =
    obind (Measurement_destroyEventSet P eventset_index s) (\<lambda>s1.
    obind (throw s1) (\<lambda>s2. Done (- 1, s2)))"

definition Measurement_createAttachedEventSetWithJavaThread ::
    "'w platform \<Rightarrow> java_tid_t \<Rightarrow> c_int \<Rightarrow> string list \<Rightarrow> c_int list \<Rightarrow> 'w agent \<Rightarrow>
      (c_int \<times> 'w agent) outcome" where
  "Measurement_createAttachedEventSetWithJavaThread P java_thread_id jmeasurements jeventNames
      joptions s =
    obind (Measurement_createEventSet P jmeasurements jeventNames joptions s)
      (\<lambda>(eventset_index, s1).
     if \<not> HAS_PAPI P then Done (eventset_index, s1)
     else obind (get_slot s1 eventset_index) (\<lambda>e.
       if uses_backend (used_backends (config e)) UBENCH_EVENT_BACKEND_PAPI then
         obind (ubench_threads_get_native_id P (agent_registry s1) java_thread_id)
           (\<lambda>(native_id, r).
          let s2 = s1\<lparr>agent_registry := r\<rparr> in
          if native_id = UBENCH_THREAD_ID_INVALID
          then attach_failure P eventset_index
            (do_throw P ''Unknown thread (not registered with PAPI).'') s2
          else obind (get_slot s2 eventset_index) (\<lambda>e'.
            case call_ext (PAPI_attach P (papi_eventset (config e')) native_id) s2 of (rc, s3) \<Rightarrow>
            if rc \<noteq> PAPI_OK P
            then attach_failure P eventset_index (do_papi_error_throw P rc ''PAPI_attach'') s3
            else Done (eventset_index, s3)))
       else Done (eventset_index, s1)))"

definition Measurement_createAttachedEventSetWithNativeThread ::
    "'w platform \<Rightarrow> java_tid_t \<Rightarrow> c_int \<Rightarrow> string list \<Rightarrow> c_int list \<Rightarrow> 'w agent \<Rightarrow>
      (c_int \<times> 'w agent) outcome" where
  "Measurement_createAttachedEventSetWithNativeThread P jnative_thread_id jmeasurements jeventNames
      joptions s =
    obind (Measurement_createEventSet P jmeasurements jeventNames joptions s)
      (\<lambda>(eventset_index, s1).
     if \<not> HAS_PAPI P then Done (eventset_index, s1)
     else obind (get_slot s1 eventset_index) (\<lambda>e.
       if uses_backend (used_backends (config e)) UBENCH_EVENT_BACKEND_PAPI then
         case call_ext (PAPI_attach P (papi_eventset (config e)) jnative_thread_id) s1 of (rc, s2) \<Rightarrow>
         if rc \<noteq> PAPI_OK P
         then attach_failure P eventset_index (do_papi_error_throw P rc ''PAPI_attach'') s2
         else Done (eventset_index, s2)
       else Done (eventset_index, s1)))"

section \<open>What the platform promises\<close>

text \<open>
  What the error paths rely on: the class of the exception exists, the virtual machine hands out
  the characters of a string and the elements of an array, and PAPI's messages are short
  (\<open>PAPI_MAX_STR_LEN\<close> is 128).
\<close>

definition jvm_delivers :: "'w platform \<Rightarrow> bool" where
  "jvm_delivers P \<longleftrightarrow>
    (\<forall>w. fst (jni_FindClass P ''cz/cuni/mff/d3s/perf/MeasurementException'' w)) \<and>
    (\<forall>str w. fst (jni_GetStringUTFChars P str w) \<noteq> None) \<and>
    (\<forall>xs w. fst (jni_GetIntArrayElements P xs w)) \<and>
    (\<forall>rc. length (PAPI_strerror P rc) < 400)"

text \<open>Everything but the pending exception and the environment stays.\<close>

definition unchanged :: "'w agent \<Rightarrow> 'w agent \<Rightarrow> bool" where
  "unchanged s s' \<longleftrightarrow> all_eventsets s' = all_eventsets s \<and>
    all_eventset_count s' = all_eventset_count s \<and> agent_counters s' = agent_counters s \<and>
    agent_registry s' = agent_registry s \<and> windows_timer_frequency s' = windows_timer_frequency s"

lemma unchanged_refl [simp]: "unchanged s s"
  by (simp add: unchanged_def)

lemma unchanged_blocks [simp]:
  "unchanged s (count_blocks n s') = unchanged s s'"
  "unchanged (count_blocks n s) s' = unchanged s s'"
  "unchanged s (count_name i s') = unchanged s s'"
  "unchanged (count_name i s) s' = unchanged s s'"
  by (simp_all add: unchanged_def)

lemma unchanged_trans: "unchanged s s1 \<Longrightarrow> unchanged s1 s2 \<Longrightarrow> unchanged s s2"
  by (simp add: unchanged_def)

lemma call_ext_unchanged: "call_ext f s = (r, s1) \<Longrightarrow> unchanged s s1"
  by (auto simp: call_ext_def unchanged_def split: prod.splits)

lemma call_ext_result: "call_ext f s = (r, s1) \<Longrightarrow> r = fst (f (world s))"
  by (auto simp: call_ext_def split: prod.splits)

lemma call_ext_result_world: "call_ext f s = (r, s1) \<Longrightarrow> f (world s) = (r, world s1)"
  by (auto simp: call_ext_def split: prod.splits)

lemma call_ext_pending: "call_ext f s = (r, s1) \<Longrightarrow> pending_exception s1 = pending_exception s"
  by (auto simp: call_ext_def split: prod.splits)

lemma call_ext_borrowed:
  "call_ext f s = (r, s1) \<Longrightarrow> borrowed s1 = borrowed s \<and> allocated s1 = allocated s \<and>
    names_allocated s1 = names_allocated s"
  by (auto simp: call_ext_def split: prod.splits)

text \<open>Borrowing and giving back change the count and nothing else.\<close>

lemma borrow_simps [simp]:
  "all_eventsets (borrow b s) = all_eventsets s" "all_eventset_count (borrow b s) = all_eventset_count s"
  "agent_counters (borrow b s) = agent_counters s" "agent_registry (borrow b s) = agent_registry s"
  "windows_timer_frequency (borrow b s) = windows_timer_frequency s"
  "pending_exception (borrow b s) = pending_exception s" "world (borrow b s) = world s"
  "borrowed (borrow b s) = borrowed s + (if b then 1 else 0)" "allocated (borrow b s) = allocated s"
  "names_allocated (borrow b s) = names_allocated s"
  by (simp_all add: borrow_def)

lemma give_back_simps [simp]:
  "all_eventsets (give_back b s) = all_eventsets s"
  "all_eventset_count (give_back b s) = all_eventset_count s"
  "agent_counters (give_back b s) = agent_counters s" "agent_registry (give_back b s) = agent_registry s"
  "windows_timer_frequency (give_back b s) = windows_timer_frequency s"
  "pending_exception (give_back b s) = pending_exception s" "world (give_back b s) = world s"
  "borrowed (give_back b s) = borrowed s - (if b then 1 else 0)" "allocated (give_back b s) = allocated s"
  "names_allocated (give_back b s) = names_allocated s"
  by (simp_all add: give_back_def)

lemma unchanged_borrow [simp]:
  "unchanged s (borrow b t) = unchanged s t" "unchanged s (give_back b t) = unchanged s t"
  "unchanged s (ReleaseStringUTFChars chars t) = unchanged s t"
  "unchanged s (ReleaseIntArrayElements b t) = unchanged s t"
  by (simp_all add: unchanged_def ReleaseStringUTFChars_def ReleaseIntArrayElements_def)

lemmas borrowing_defs =
  GetStringUTFChars_def ReleaseStringUTFChars_def GetIntArrayElements_def ReleaseIntArrayElements_def

lemma release_simps [simp]:
  "pending_exception (ReleaseStringUTFChars chars s) = pending_exception s"
  "pending_exception (ReleaseIntArrayElements b s) = pending_exception s"
  "allocated (ReleaseStringUTFChars chars s) = allocated s"
  "names_allocated (ReleaseStringUTFChars chars s) = names_allocated s"
  "allocated (ReleaseIntArrayElements b s) = allocated s"
  "names_allocated (ReleaseIntArrayElements b s) = names_allocated s"
  "borrowed (ReleaseStringUTFChars chars s) = borrowed s - (if chars = None then 0 else 1)"
  "borrowed (ReleaseIntArrayElements b s) = borrowed s - (if b then 1 else 0)"
  by (simp_all add: ReleaseStringUTFChars_def ReleaseIntArrayElements_def)

lemma GetStringUTFChars_result:
  assumes "GetStringUTFChars P str s = (chars, s1)"
  shows "chars = fst (jni_GetStringUTFChars P str (world s))" "unchanged s s1"
    "pending_exception s1 = pending_exception s"
    "borrowed s1 = borrowed s + (if chars = None then 0 else 1)" "allocated s1 = allocated s"
    "names_allocated s1 = names_allocated s"
proof -
  obtain r t where e: "call_ext (jni_GetStringUTFChars P str) s = (r, t)" by (metis prod.exhaust)
  show "chars = fst (jni_GetStringUTFChars P str (world s))" "unchanged s s1"
    "pending_exception s1 = pending_exception s"
    "borrowed s1 = borrowed s + (if chars = None then 0 else 1)" "allocated s1 = allocated s"
    "names_allocated s1 = names_allocated s"
    using assms call_ext_result [OF e] call_ext_unchanged [OF e] call_ext_pending [OF e]
      call_ext_borrowed [OF e]
    by (auto simp: GetStringUTFChars_def e)
qed

lemma GetIntArrayElements_result:
  assumes "GetIntArrayElements P xs s = (accessible, s1)"
  shows "accessible = fst (jni_GetIntArrayElements P xs (world s))" "unchanged s s1"
    "pending_exception s1 = pending_exception s"
    "borrowed s1 = borrowed s + (if accessible then 1 else 0)" "allocated s1 = allocated s"
    "names_allocated s1 = names_allocated s"
proof -
  obtain r t where e: "call_ext (jni_GetIntArrayElements P xs) s = (r, t)" by (metis prod.exhaust)
  show "accessible = fst (jni_GetIntArrayElements P xs (world s))" "unchanged s s1"
    "pending_exception s1 = pending_exception s"
    "borrowed s1 = borrowed s + (if accessible then 1 else 0)" "allocated s1 = allocated s"
    "names_allocated s1 = names_allocated s"
    using assms call_ext_result [OF e] call_ext_unchanged [OF e] call_ext_pending [OF e]
      call_ext_borrowed [OF e]
    by (auto simp: GetIntArrayElements_def e)
qed

definition threw :: "string \<Rightarrow> 'w agent \<Rightarrow> 'w agent \<Rightarrow> bool" where
  "threw message s s' \<longleftrightarrow> unchanged s s' \<and> pending_exception s' = Some message"

lemma do_throw_spec:
  assumes "jvm_delivers P"
  shows "returns (do_throw P message s) (threw message s)"
proof -
  obtain ok s1 where e: "call_ext (jni_FindClass P ''cz/cuni/mff/d3s/perf/MeasurementException'') s
      = (ok, s1)"
    by (metis prod.exhaust)
  have ok using call_ext_result [OF e] assms by (simp add: jvm_delivers_def)
  then show ?thesis
    using call_ext_unchanged [OF e] by (simp add: do_throw_def e threw_def unchanged_def)
qed

lemma do_papi_error_throw_spec:
  assumes "jvm_delivers P" and "length f < 50"
  shows "returns (do_papi_error_throw P rc f s)
    (threw (f @ '' failed: '' @ PAPI_strerror P rc @ ''.'') s)"
proof -
  have "length (PAPI_strerror P rc) < 400"
    using assms(1) by (simp add: jvm_delivers_def)
  then have "\<not> 512 \<le> length (f @ '' failed: '' @ PAPI_strerror P rc @ ''.'')"
    using assms(2) by simp
  then show ?thesis
    using do_throw_spec [OF assms(1)] by (simp only: do_papi_error_throw_def Let_def if_False)
qed

text \<open>How a part of \<open>createEventSet\<close> fails: with an exception, and nothing else changed.\<close>

definition thrown :: "'w agent \<Rightarrow> 'w agent \<Rightarrow> bool" where
  "thrown s s' \<longleftrightarrow> unchanged s s' \<and> pending_exception s' \<noteq> None"

lemma threw_thrown: "threw message s s' \<Longrightarrow> thrown s s'"
  by (simp add: threw_def thrown_def)

lemma thrown_after: "unchanged s s1 \<Longrightarrow> thrown s1 s2 \<Longrightarrow> thrown s s2"
  by (auto simp: thrown_def unchanged_def)

lemma throw_returns:
  assumes "jvm_delivers P" and "unchanged s s1" and "\<And>s2. thrown s s2 \<Longrightarrow> Q s2"
  shows "returns (do_throw P message s1) Q"
  by (rule returns_mono [OF do_throw_spec [OF assms(1)]])
     (use assms(2,3) in \<open>blast intro: threw_thrown thrown_after\<close>)

lemma free_blocks_returns:
  "is_live (data c) \<Longrightarrow> is_live (used_events c) \<Longrightarrow>
    free_blocks c = Done (c\<lparr>used_events := Indet, data := Indet\<rparr>)"
  by (auto simp: free_blocks_def is_live_iff)

section \<open>The events of a set\<close>

text \<open>
  The relation between the PAPI events of a set and the codes registered with PAPI: these are the
  first 20 different codes, in the order of the events, and an event whose code is among them has its
  index, any other the index 0.
\<close>

definition is_papi :: "ubench_event_info_t \<Rightarrow> bool" where
  "is_papi e \<longleftrightarrow> backend e = UBENCH_EVENT_BACKEND_PAPI"

definition papi_codes :: "ubench_event_info_t list \<Rightarrow> c_int set" where
  "papi_codes es = event_id ` {e \<in> set es. is_papi e}"

definition papi_counters :: "ubench_event_info_t list \<Rightarrow> c_int list" where
  "papi_counters es =
    take UBENCH_MAX_PAPI_EVENTS (rev (remdups (rev (map event_id (filter is_papi es)))))"

definition papi_index_ok :: "c_int list \<Rightarrow> ubench_event_info_t \<Rightarrow> bool" where
  "papi_index_ok used e \<longleftrightarrow>
    (if event_id e \<in> set used then papi_index e < length used \<and> used ! papi_index e = event_id e
     else papi_index e = 0)"

definition papi_table_ok :: "c_int list \<Rightarrow> ubench_event_info_t list \<Rightarrow> bool" where
  "papi_table_ok used es \<longleftrightarrow> used = papi_counters es \<and>
    distinct used \<and> length used \<le> UBENCH_MAX_PAPI_EVENTS \<and> set used \<subseteq> papi_codes es \<and>
    (length used < UBENCH_MAX_PAPI_EVENTS \<longrightarrow> set used = papi_codes es) \<and>
    (\<forall>e \<in> set es. is_papi e \<longrightarrow> papi_index_ok used e)"

definition event_ok :: "('w, 'x) c_platform_scheme \<Rightarrow> c_uint \<Rightarrow> ubench_event_info_t \<Rightarrow> bool" where
  "event_ok P backends e \<longleftrightarrow> resolved P e \<and> papi_index e < UBENCH_MAX_PAPI_EVENTS \<and>
    backends AND backend e = backend e"

text \<open>The first \<open>used_events_count\<close> of \<open>n\<close> descriptions are filled in.\<close>

definition events_ok ::
    "('w, 'x) c_platform_scheme \<Rightarrow> nat \<Rightarrow> benchmark_configuration_t \<Rightarrow> bool" where
  "events_ok P n c \<longleftrightarrow> (\<exists>es. used_events c = Buf (es @ replicate (n - length es) zero_event_info) \<and>
    used_events_count c = length es \<and> length es \<le> n \<and>
    (\<forall>e \<in> set es. event_ok P (used_backends c) e) \<and>
    (if HAS_PAPI P then papi_table_ok (used_papi_events c) es else True))"

lemma or_keeps_flag: "b AND x = x \<Longrightarrow> (b OR b') AND x = (x :: c_uint)"
  by (simp add: bit_eq_iff bit_simps) blast

lemma or_adds_flag: "(b OR x) AND x = (x :: c_uint)"
  by (simp add: bit_eq_iff bit_simps)

lemma event_ok_more: "event_ok P b e \<Longrightarrow> event_ok P (b OR b') e"
  by (simp add: event_ok_def or_keeps_flag)

lemma papi_table_plain:
  "papi_table_ok used es \<Longrightarrow> \<not> is_papi e \<Longrightarrow> papi_table_ok used (es @ [e])"
  by (auto simp: papi_table_ok_def papi_codes_def papi_counters_def image_def)

lemma papi_codes_eq: "papi_codes es = set (rev (remdups (rev (map event_id (filter is_papi es)))))"
  by (auto simp: papi_codes_def)

text \<open>A further event adds its code if it is new and there is room.\<close>

lemma papi_counters_snoc:
  assumes "is_papi e"
  shows "papi_counters (es @ [e]) =
    (if event_id e \<in> papi_codes es \<or> UBENCH_MAX_PAPI_EVENTS \<le> length (papi_counters es)
     then papi_counters es else papi_counters es @ [event_id e])"
  using assms by (auto simp: papi_counters_def papi_codes_eq)

lemma papi_codes_snoc:
  "is_papi e \<Longrightarrow> papi_codes (es @ [e]) = insert (event_id e) (papi_codes es)"
  by (auto simp: papi_codes_def)

lemma papi_table_old:
  assumes "papi_table_ok used es" and "is_papi e" and "papi_index e < length used"
    and "used ! papi_index e = event_id e"
  shows "papi_table_ok used (es @ [e])"
proof -
  have "event_id e \<in> set used"
    using assms(3,4) nth_mem by metis
  then show ?thesis
    using assms unfolding papi_table_ok_def
    by (auto simp: papi_codes_snoc papi_counters_snoc papi_index_ok_def)
qed

lemma papi_table_new:
  assumes table: "papi_table_ok used es" and e: "is_papi e" and new: "event_id e \<notin> set used"
    and room: "length used < UBENCH_MAX_PAPI_EVENTS" and index: "papi_index e = length used"
  shows "papi_table_ok (used @ [event_id e]) (es @ [e])"
proof -
  have all: "set used = papi_codes es"
    using table room unfolding papi_table_ok_def by blast
  have "papi_index_ok (used @ [event_id e]) x" if x: "x \<in> set (es @ [e])" "is_papi x" for x
  proof (cases "x = e")
    case True
    then show ?thesis using index by (simp add: papi_index_ok_def)
  next
    case False
    then have "x \<in> set es" using x by simp
    then have "event_id x \<in> set used"
      using x(2) all by (auto simp: papi_codes_def)
    moreover have "papi_index_ok used x"
      using table x(2) \<open>x \<in> set es\<close> by (auto simp: papi_table_ok_def)
    ultimately show ?thesis
      by (simp add: nth_append papi_index_ok_def)
  qed
  then show ?thesis
    using table new room e unfolding papi_table_ok_def
    by (auto simp: papi_codes_snoc papi_counters_snoc all [symmetric])
qed

lemma papi_table_full:
  assumes table: "papi_table_ok used es" and e: "is_papi e" and new: "event_id e \<notin> set used"
    and full: "\<not> length used < UBENCH_MAX_PAPI_EVENTS" and index: "papi_index e = 0"
  shows "papi_table_ok used (es @ [e])"
  using assms unfolding papi_table_ok_def
  by (auto simp: papi_codes_snoc papi_counters_snoc papi_index_ok_def)

lemma register_papi_event_spec:
  assumes reg: "register_papi_event c e = (c', e')" and e: "is_papi e" "papi_index e = 0"
    and table: "papi_table_ok (used_papi_events c) es"
  shows "papi_table_ok (used_papi_events c') (es @ [e']) \<and> papi_index e' < UBENCH_MAX_PAPI_EVENTS \<and>
    e' = e\<lparr>papi_index := papi_index e'\<rparr> \<and> c' = c\<lparr>used_papi_events := used_papi_events c'\<rparr>"
proof -
  let ?used = "used_papi_events c" and ?j = "first_index (\<lambda>x. x = event_id e) (used_papi_events c)"
  have le: "length ?used \<le> UBENCH_MAX_PAPI_EVENTS"
    using table unfolding papi_table_ok_def by blast
  have small: "(0 :: nat) < UBENCH_MAX_PAPI_EVENTS"
    by (simp add: UBENCH_MAX_PAPI_EVENTS_def)
  have found: "?j < length ?used \<longleftrightarrow> event_id e \<in> set ?used"
    by (simp add: first_index_less)
  consider (old) "?j < length ?used" | (new) "\<not> ?j < length ?used" "length ?used < UBENCH_MAX_PAPI_EVENTS"
    | (full) "\<not> ?j < length ?used" "\<not> length ?used < UBENCH_MAX_PAPI_EVENTS"
    by blast
  then show ?thesis
  proof cases
    case old
    then have "?used ! ?j = event_id e"
      using first_index_hit [of "\<lambda>x. x = event_id e" ?used] by simp
    with old have "papi_table_ok ?used (es @ [e\<lparr>papi_index := ?j\<rparr>])"
      using table e by (intro papi_table_old) (simp_all add: is_papi_def)
    then show ?thesis
      using old reg le by (auto simp: register_papi_event_def Let_def)
  next
    case new
    then have "papi_table_ok (?used @ [event_id (e\<lparr>papi_index := length ?used\<rparr>)])
        (es @ [e\<lparr>papi_index := length ?used\<rparr>])"
      using table e found by (intro papi_table_new) (simp_all add: is_papi_def)
    then show ?thesis
      using new reg by (auto simp: register_papi_event_def Let_def)
  next
    case full
    then have "papi_table_ok ?used (es @ [e])"
      using table e found by (intro papi_table_full) simp_all
    then show ?thesis
      using full reg e small by (auto simp: register_papi_event_def Let_def)
  qed
qed

text \<open>A part of \<open>createEventSet\<close> succeeds with a configuration that satisfies \<open>Q\<close>, or throws.\<close>

definition part_ok ::
    "'w agent \<Rightarrow> (benchmark_configuration_t \<Rightarrow> bool) \<Rightarrow>
      bool \<times> benchmark_configuration_t \<times> 'w agent \<Rightarrow> bool" where
  "part_ok s Q r = (case r of (ok, c', s') \<Rightarrow> if ok then unchanged s s' \<and> Q c' else thrown s s')"

lemma part_ok_simps [simp]:
  "part_ok s Q (True, c', s') \<longleftrightarrow> unchanged s s' \<and> Q c'"
  "part_ok s Q (False, c', s') \<longleftrightarrow> thrown s s'"
  by (simp_all add: part_ok_def)

lemma part_ok_mono:
  assumes "returns m (part_ok s1 Q)" and "unchanged s s1" and "\<And>c'. Q c' \<Longrightarrow> R c'"
  shows "returns m (part_ok s R)"
  by (rule returns_mono [OF assms(1)])
     (use assms(2,3) in \<open>auto simp: part_ok_def split: if_splits intro: unchanged_trans thrown_after\<close>)

lemma part_ok_bind:
  assumes "returns m (part_ok s Q)"
    and "\<And>c1 s1. unchanged s s1 \<Longrightarrow> Q c1 \<Longrightarrow> returns (f c1 s1) (part_ok s R)"
  shows "returns (obind m (\<lambda>(ok, c1, s1). if \<not> ok then Done (False, c1, s1) else f c1 s1))
    (part_ok s R)"
proof -
  obtain ok c1 s1 where m: "m = Done (ok, c1, s1)"
    using assms(1) by (auto simp: returns_iff)
  with assms(1) have "part_ok s Q (ok, c1, s1)" by simp
  then show ?thesis
    using assms(2) [of s1 c1] by (cases ok) (simp_all add: m)
qed

lemma part_ok_release:
  assumes "returns m (part_ok s Q)"
  shows "returns (obind m (\<lambda>(ok, c, s1). Done (ok, c, if ok then ReleaseIntArrayElements b s1 else s1)))
    (part_ok s Q)"
  unfolding returns_bind by (rule returns_mono [OF assms]) (auto simp: part_ok_def)

lemma part_ok_throw:
  assumes "jvm_delivers P" and "unchanged s s1"
  shows "returns (obind (do_throw P message s1) (\<lambda>s2. Done (False, c, s2))) (part_ok s Q)"
  by (simp add: returns_bind throw_returns [OF assms])

text \<open>The members that the loop over the events leaves alone.\<close>

definition same_data :: "benchmark_configuration_t \<Rightarrow> benchmark_configuration_t \<Rightarrow> bool" where
  "same_data c c' \<longleftrightarrow> data c' = data c \<and> data_size c' = data_size c \<and> data_index c' = data_index c"

lemma same_data_refl [simp]: "same_data c c"
  by (simp add: same_data_def)

lemma same_data_trans: "same_data c c1 \<Longrightarrow> same_data c1 c2 \<Longrightarrow> same_data c c2"
  by (simp add: same_data_def)

lemma update_first_free:
  "length es < n \<Longrightarrow> (es @ replicate (n - length es) z)[length es := e] =
    (es @ [e]) @ replicate (n - length (es @ [e])) z"
  by (cases "n - length es") (auto simp: list_update_append)

lemma events_ok_append:
  assumes "\<forall>e \<in> set es. event_ok P (used_backends c) e" and "length es < n"
    and "event_ok P (used_backends c OR backend e) e"
    and "HAS_PAPI P \<Longrightarrow> papi_table_ok (used_papi_events c') (es @ [e])"
    and "used_backends c' = used_backends c OR backend e" and "used_events_count c' = length es + 1"
    and "used_events c' = Buf ((es @ replicate (n - length es) zero_event_info)[length es := e])"
  shows "events_ok P n c'"
  unfolding events_ok_def
  by (rule exI [of _ "es @ [e]"])
     (use assms in \<open>simp add: update_first_free event_ok_more Suc_diff_Suc\<close>)

text \<open>
  Storing a resolved event in an array with room keeps the events well-formed. \<open>same_data\<close> is about
  the parts of the configuration that events do not touch.
\<close>

lemma store_event_spec:
  assumes info: "resolved P info" "papi_index info = 0"
    and events: "events_ok P n c" and room: "used_events_count c < n"
  shows "returns (store_event P info c) (\<lambda>(ok, c'). is_live (used_events c') \<and> (ok \<longrightarrow> events_ok P n c' \<and>
    same_data c c' \<and> used_events_count c' = used_events_count c + 1))"
proof -
  obtain es where es: "used_events c = Buf (es @ replicate (n - length es) zero_event_info)"
    "used_events_count c = length es" "\<forall>e \<in> set es. event_ok P (used_backends c) e"
    and table: "HAS_PAPI P \<Longrightarrow> papi_table_ok (used_papi_events c) es"
    using events by (auto simp: events_ok_def split: if_splits)
  have n: "length es < n" using room es(2) by simp
  let ?stored = "\<lambda>e. Buf ((es @ replicate (n - length es) zero_event_info)[length es := e])"
  have set': "buf_set (used_events c) (used_events_count c) e = Done (?stored e)" for e
    using n by (simp add: es(1,2))
  let ?c1 = "c\<lparr>used_events_count := used_events_count c + 1,
    used_backends := used_backends c OR backend info\<rparr>"
  show ?thesis
  proof (cases "HAS_PAPI P \<and> is_papi info")
    case False
    have "events_ok P n (?c1\<lparr>used_events := ?stored info\<rparr>)"
      using es n info False table
      by (intro events_ok_append [where e = info])
         (auto simp: event_ok_def or_adds_flag UBENCH_MAX_PAPI_EVENTS_def intro: papi_table_plain)
    with False show ?thesis
      by (auto simp: store_event_def is_papi_def Let_def set' same_data_def)
  next
    case papi: True
    obtain c2 info' where reg: "register_papi_event ?c1 info = (c2, info')"
      by (metis prod.exhaust)
    have spec: "papi_table_ok (used_papi_events c2) (es @ [info'])"
      "papi_index info' < UBENCH_MAX_PAPI_EVENTS" "info' = info\<lparr>papi_index := papi_index info'\<rparr>"
      "c2 = ?c1\<lparr>used_papi_events := used_papi_events c2\<rparr>"
      using register_papi_event_spec [OF reg] papi info table by auto
    have "backend info' = backend info" "resolved P info'"
      using info by (subst spec(3), simp add: resolved_def)+
    moreover have c2: "used_backends c2 = used_backends ?c1" "used_events_count c2 = used_events_count ?c1"
      "same_data c c2"
      by (subst spec(4), simp add: same_data_def)+
    ultimately have "events_ok P n (c2\<lparr>used_events := ?stored info', papi_component := k\<rparr>)" for k
      using es n spec(1,2)
      by (intro events_ok_append [where c = c and e = info']) (simp_all add: event_ok_def or_adds_flag)
    moreover have "backend info = UBENCH_EVENT_BACKEND_PAPI"
      using papi by (simp add: is_papi_def)
    ultimately show ?thesis
      using papi c2
      by (simp add: store_event_def Let_def reg [unfolded \<open>backend info = _\<close> Suc_eq_plus1 [symmetric]] set' same_data_def)
  qed
qed

lemma events_ok_next_cell:
  assumes "events_ok P n c" and "used_events_count c < n"
  shows "buf_get (used_events c) (used_events_count c) = Done zero_event_info" "is_live (used_events c)"
  using assms by (auto simp: events_ok_def nth_append)

lemma store_event_room:
  assumes "events_ok P n c" and "used_events_count c < n"
  shows "\<exists>b. buf_set (used_events c) (used_events_count c) e = Done b"
  using assms by (auto simp: events_ok_def)

lemma add_event_spec:
  assumes jvm: "jvm_delivers P" and events: "events_ok P n c" and room: "used_events_count c < n"
    and live: "is_live (data c)"
  shows "returns (add_event P jname c s) (part_ok s (\<lambda>c'. events_ok P n c' \<and> same_data c c' \<and>
    used_events_count c' = used_events_count c + 1))"
proof -
  note cell = events_ok_next_cell [OF events room]
  obtain event s1 where e1: "GetStringUTFChars P jname s = (event, s1)"
    by (metis prod.exhaust)
  obtain ok info s2 where e2:
    "call_ext (ubench_event_resolve P event zero_event_info) s1 = ((ok, info), s2)"
    by (metis prod.exhaust)
  have u: "unchanged s s2"
    using e1 e2 by (blast intro: unchanged_trans call_ext_unchanged GetStringUTFChars_result)
  obtain name where name: "event = Some name"
    using GetStringUTFChars_result(1) [OF e1] jvm unfolding jvm_delivers_def by (metis not_None_eq)
  show ?thesis
  proof (cases ok)
    case False
    with live u cell show ?thesis
      by (simp add: add_event_def e1 e2 [unfolded name] name free_blocks_returns part_ok_throw [OF jvm])
  next
    case True
    have info: "resolved P info" "papi_index info = 0"
      using resolve_result [OF call_ext_result_world [OF e2]] True
      by (simp_all add: zero_event_info_def)
    obtain ok' c' where store: "store_event P info c = Done (ok', c')" "ok' \<Longrightarrow> events_ok P n c' \<and>
        same_data c c' \<and> used_events_count c' = used_events_count c + 1"
      using store_event_spec [OF info events room] by (auto simp: returns_iff)
    show ?thesis
      using True u store cell part_ok_throw [OF jvm, of s "count_name info s2"]
      by (cases ok') (simp_all add: add_event_def e1 e2)
  qed
qed

text \<open>How adding an event that succeeds ran.\<close>

lemma add_event_steps:
  assumes run: "add_event P name c s = Done (True, c', s')"
  obtains event s1 x info s2 where "GetStringUTFChars P name s = (event, s1)"
    "buf_get (used_events c) (used_events_count c) = Done x"
    "call_ext (ubench_event_resolve P event x) s1 = ((True, info), s2)"
    "store_event P info c = Done (True, c')" "s' = ReleaseStringUTFChars event (count_name info s2)"
proof -
  obtain event s1 where e1: "GetStringUTFChars P name s = (event, s1)" by (metis prod.exhaust)
  obtain x where x: "buf_get (used_events c) (used_events_count c) = Done x"
    using run by (auto simp: add_event_def e1 obind_Done_iff)
  obtain ok info s2 where e2: "call_ext (ubench_event_resolve P event x) s1 = ((ok, info), s2)"
    by (metis prod.exhaust)
  have "ok" "store_event P info c = Done (True, c')" "s' = ReleaseStringUTFChars event (count_name info s2)"
    using run by (auto simp: add_event_def e1 x e2 obind_Done_iff split: if_splits option.splits)
  with that e1 x e2 show thesis by simp
qed

lemma add_events_spec:
  assumes jvm: "jvm_delivers P" and "events_ok P n c" and "used_events_count c + length names = n"
    and "is_live (data c)"
  shows "returns (add_events P names c s)
    (part_ok s (\<lambda>c'. events_ok P n c' \<and> same_data c c' \<and> used_events_count c' = n))"
  using assms(2-)
proof (induction names arbitrary: c s)
  case Nil
  then show ?case by simp
next
  case (Cons name names)
  have "returns (add_event P name c s) (part_ok s (\<lambda>c'. events_ok P n c' \<and> same_data c c' \<and>
    used_events_count c' = used_events_count c + 1))"
    using Cons.prems by (intro add_event_spec [OF jvm]) simp_all
  then show ?case
    unfolding add_events.simps
  proof (rule part_ok_bind)
    fix c1 s1
    assume u: "unchanged s s1" and c1: "events_ok P n c1 \<and> same_data c c1 \<and>
      used_events_count c1 = used_events_count c + 1"
    then have "returns (add_events P names c1 s1)
        (part_ok s1 (\<lambda>c'. events_ok P n c' \<and> same_data c1 c' \<and> used_events_count c' = n))"
      using Cons.prems by (intro Cons.IH) (simp_all add: same_data_def)
    then show "returns (add_events P names c1 s1)
        (part_ok s (\<lambda>c'. events_ok P n c' \<and> same_data c c' \<and> used_events_count c' = n))"
      by (rule part_ok_mono [OF _ u]) (use c1 in \<open>auto intro: same_data_trans\<close>)
  qed
qed

lemma papi_failure_spec:
  assumes "jvm_delivers P" and "is_live (data c)" and "is_live (used_events c)" and "unchanged s s1"
    and "length f < 50"
  shows "returns (papi_failure P accessible rc f c s1) (part_ok s Q)"
proof -
  let ?s = "count_blocks (- 2) (ReleaseIntArrayElements accessible s1)"
  have "returns (obind (do_papi_error_throw P rc f ?s) (\<lambda>s2. Done (False, c', s2))) (part_ok s Q)" for c'
    unfolding returns_bind
    by (rule returns_mono [OF do_papi_error_throw_spec [OF assms(1,5)]])
       (use assms(4) thrown_after [of s ?s] in \<open>auto intro: threw_thrown\<close>)
  then show ?thesis
    using assms(2,3) by (simp add: papi_failure_def free_blocks_returns)
qed

lemma set_options_spec:
  assumes jvm: "jvm_delivers P" and "is_live (data c)" and "is_live (used_events c)" and "unchanged s s1"
  shows "returns (set_options P True options c s1) (part_ok s (\<lambda>c'. c' = c))"
  using assms(4)
proof (induction options arbitrary: s1)
  case Nil
  then show ?case by simp
next
  case (Cons option options)
  obtain rc s2 where e: "call_ext (PAPI_set_opt_inherit_all P (papi_eventset c)) s1 = (rc, s2)"
    by (metis prod.exhaust)
  have u: "unchanged s s2"
    using Cons.prems e by (blast intro: unchanged_trans call_ext_unchanged)
  show ?case
    using Cons.IH [OF u] Cons.IH [OF Cons.prems] papi_failure_spec [OF assms(1-3) u]
    by (simp add: e)
qed

lemma add_papi_events_spec:
  assumes jvm: "jvm_delivers P" and "is_live (data c)" and "is_live (used_events c)" and "unchanged s s1"
  shows "returns (add_papi_events P accessible codes c s1) (part_ok s (\<lambda>c'. c' = c))"
  using assms(4)
proof (induction codes arbitrary: s1)
  case Nil
  then show ?case by simp
next
  case (Cons code codes)
  obtain rc s2 where e: "call_ext (PAPI_add_event P (papi_eventset c) code) s1 = (rc, s2)"
    by (metis prod.exhaust)
  have u: "unchanged s s2"
    using Cons.prems e by (blast intro: unchanged_trans call_ext_unchanged)
  show ?case
    using Cons.IH [OF u] papi_failure_spec [OF assms(1-3) u]
    by (simp add: e)
qed

text \<open>Setting up PAPI changes no member but the handle.\<close>

lemma setup_papi_spec:
  assumes jvm: "jvm_delivers P" and live: "is_live (data c)" "is_live (used_events c)"
    and u: "unchanged s s0"
  shows "returns (setup_papi P True options c s0) (part_ok s (\<lambda>c'. \<exists>h. c' = c\<lparr>papi_eventset := h\<rparr>))"
proof -
  obtain rc handle s1 where e1: "call_ext (PAPI_create_eventset P (papi_eventset c)) s0 = ((rc, handle), s1)"
    by (metis prod.exhaust)
  obtain rc2 s2 where e2:
    "call_ext (PAPI_assign_eventset_component P handle (papi_component c)) s1 = (rc2, s2)"
    by (metis prod.exhaust)
  let ?c = "c\<lparr>papi_eventset := handle\<rparr>"
  have u1: "unchanged s s1" and u2: "unchanged s s2"
    using u e1 e2 by (blast intro: unchanged_trans call_ext_unchanged)+
  have live': "is_live (data ?c)" "is_live (used_events ?c)"
    using live by simp_all
  have "returns (obind (set_options P True options ?c s2) (\<lambda>(ok, c2, s3).
      if \<not> ok then Done (False, c2, s3) else add_papi_events P True (used_papi_events c2) c2 s3))
    (part_ok s (\<lambda>c'. c' = ?c))"
    by (rule part_ok_bind [OF set_options_spec [OF jvm live' u2]])
       (simp add: add_papi_events_spec [OF jvm live'])
  then have "returns (obind (set_options P True options ?c s2) (\<lambda>(ok, c2, s3).
      if \<not> ok then Done (False, c2, s3) else add_papi_events P True (used_papi_events c2) c2 s3))
    (part_ok s (\<lambda>c'. \<exists>h. c' = c\<lparr>papi_eventset := h\<rparr>))"
    by (rule part_ok_mono) auto
  then show ?thesis
    using papi_failure_spec [OF jvm live' u1] papi_failure_spec [OF jvm live' u2]
    by (simp add: setup_papi_def e1 e2 Let_def)
qed

section \<open>The invariant of the agent\<close>

definition config_ok :: "('w, 'x) c_platform_scheme \<Rightarrow> benchmark_configuration_t \<Rightarrow> bool" where
  "config_ok P c \<longleftrightarrow>
    is_live (data c) \<and> length (cells (data c)) = data_size c \<and> 2 \<le> data_size c \<and>
    even (data_size c) \<and> data_size c < 2147483648 \<and> data_index c \<le> data_size c \<and>
    (\<forall>x \<in> set (cells (data c)). length (papi_events x) = UBENCH_MAX_PAPI_EVENTS) \<and>
    0 < used_events_count c \<and> events_ok P (used_events_count c) c"

text \<open>
  Only valid slots hold a configuration; what the others hold is never used. \<open>slot_map\<close> is the
  partial map from identifiers to configurations that the table stands for.
\<close>

definition slots :: "'w agent \<Rightarrow> eventset_t list" where
  "slots s = cells (all_eventsets s)"

definition slot_map :: "'w agent \<Rightarrow> nat \<Rightarrow> benchmark_configuration_t option" where
  "slot_map s i =
    (if i < length (slots s) \<and> valid (slots s ! i) then Some (config (slots s ! i)) else None)"

definition agent_inv :: "('w, 'x) c_platform_scheme \<Rightarrow> 'w agent \<Rightarrow> bool" where
  "agent_inv P s \<longleftrightarrow>
    all_eventsets s \<noteq> Indet \<and> sint (all_eventset_count s) = int (length (slots s)) \<and>
    registry_inv (agent_registry s) \<and> (\<forall>c \<in> ran (slot_map s). config_ok P c)"

lemma agent_inv_initial: "agent_inv P (initial_agent w)"
  by (auto simp: agent_inv_def initial_agent_def slots_def slot_map_def registry_inv_initial ran_def)

lemma unchanged_slots: "unchanged s s' \<Longrightarrow> slots s' = slots s \<and> slot_map s' = slot_map s"
  by (auto simp: unchanged_def slots_def slot_map_def fun_eq_iff)

lemma unchanged_inv: "unchanged s s' \<Longrightarrow> agent_inv P s \<Longrightarrow> agent_inv P s'"
  using unchanged_slots [of s s'] by (simp add: agent_inv_def unchanged_def)

lemma slot_map_config_ok: "agent_inv P s \<Longrightarrow> slot_map s i = Some c \<Longrightarrow> config_ok P c"
  by (auto simp: agent_inv_def intro: ranI)

lemma slots_bound: "agent_inv P s \<Longrightarrow> length (slots s) < 2147483648"
  using sint_range32 [of "all_eventset_count s"] by (simp add: agent_inv_def)

lemma slots_live: "i < length (slots s) \<Longrightarrow> all_eventsets s = Buf (slots s)"
  by (cases "all_eventsets s") (auto simp: slots_def)

text \<open>The abstract identifier of a \<open>jint\<close>, when it names a valid event set.\<close>

definition slot_of :: "'w agent \<Rightarrow> c_int \<Rightarrow> benchmark_configuration_t option" where
  "slot_of s jid = (if sint jid < 0 then None else slot_map s (nat (sint jid)))"

lemma release_same [simp]:
  "slots (ReleaseIntArrayElements b s) = slots s"
  "slot_map (ReleaseIntArrayElements b s) = slot_map s"
  "slot_of (ReleaseIntArrayElements b s) j = slot_of s j"
  "agent_inv P (ReleaseIntArrayElements b s) = agent_inv P s"
  "agent_counters (ReleaseIntArrayElements b s) = agent_counters s"
proof -
  show slots: "slots (ReleaseIntArrayElements b s) = slots s"
    by (simp add: slots_def ReleaseIntArrayElements_def)
  show map: "slot_map (ReleaseIntArrayElements b s) = slot_map s"
    by (simp add: slot_map_def fun_eq_iff slots)
  show "slot_of (ReleaseIntArrayElements b s) j = slot_of s j"
    by (simp add: slot_of_def map)
  show "agent_inv P (ReleaseIntArrayElements b s) = agent_inv P s"
    by (simp add: agent_inv_def slots map) (simp add: ReleaseIntArrayElements_def)
  show "agent_counters (ReleaseIntArrayElements b s) = agent_counters s"
    by (simp add: ReleaseIntArrayElements_def)
qed

lemma blocks_same [simp]:
  "slots (count_blocks n s) = slots s"
  "slot_map (count_blocks n s) = slot_map s"
  "slot_of (count_blocks n s) j = slot_of s j"
  "agent_inv P (count_blocks n s) = agent_inv P s"
proof -
  show slots: "slots (count_blocks n s) = slots s"
    by (simp add: slots_def)
  show map: "slot_map (count_blocks n s) = slot_map s"
    by (simp add: slot_map_def fun_eq_iff slots)
  show "slot_of (count_blocks n s) j = slot_of s j"
    by (simp add: slot_of_def map)
  show "agent_inv P (count_blocks n s) = agent_inv P s"
    by (simp add: agent_inv_def slots map)
qed

lemma name_same [simp]:
  "slots (count_name i s) = slots s"
  "slot_map (count_name i s) = slot_map s"
  "slot_of (count_name i s) j = slot_of s j"
  "agent_inv P (count_name i s) = agent_inv P s"
proof -
  show slots: "slots (count_name i s) = slots s"
    by (simp add: slots_def)
  show map: "slot_map (count_name i s) = slot_map s"
    by (simp add: slot_map_def fun_eq_iff slots)
  show "slot_of (count_name i s) j = slot_of s j"
    by (simp add: slot_of_def map)
  show "agent_inv P (count_name i s) = agent_inv P s"
    by (simp add: agent_inv_def slots map)
qed

lemma slot_of_upd:
  assumes "0 \<le> sint j" and "slot_map s' = (slot_map s)(nat (sint j) := v)"
  shows "slot_of s' i = (if i = j then v else slot_of s i)"
proof -
  have "i = j" if "nat (sint i) = nat (sint j)" "0 \<le> sint i"
  proof -
    have "sint i = sint j" using that assms(1) by simp
    then have "(word_of_int (sint i) :: c_int) = word_of_int (sint j)" by (simp only:)
    then show ?thesis by simp
  qed
  then show ?thesis
    using assms by (auto simp: slot_of_def)
qed

lemma is_valid_id_eq: "agent_inv P s \<Longrightarrow> is_valid_id s jid = Done (slot_of s jid \<noteq> None)"
  by (auto simp: is_valid_id_def slot_of_def slot_map_def agent_inv_def slots_def obind_Done_iff)

lemma slot_of_get:
  "slot_of s jid = Some c \<Longrightarrow> \<exists>e. buf_get (all_eventsets s) (nat (sint jid)) = Done e \<and> config e = c \<and> valid e"
  by (auto simp: slot_of_def slot_map_def slots_def split: if_splits)

lemma store_slot_spec:
  assumes inv: "agent_inv P s" and i: "i < length (slots s)" and ok: "v \<Longrightarrow> config_ok P c"
  shows "\<exists>s'. store_slot i \<lparr>config = c, valid = v\<rparr> s = Done s' \<and> agent_inv P s' \<and>
    slot_map s' = (slot_map s)(i := if v then Some c else None) \<and>
    length (slots s') = length (slots s) \<and> pending_exception s' = pending_exception s \<and>
    agent_counters s' = agent_counters s \<and> world s' = world s \<and> agent_registry s' = agent_registry s"
proof -
  let ?slots = "(slots s)[i := \<lparr>config = c, valid = v\<rparr>]"
  let ?s = "s\<lparr>all_eventsets := Buf ?slots\<rparr>"
  have "store_slot i \<lparr>config = c, valid = v\<rparr> s = Done ?s"
    using i slots_live [OF i] by (simp add: store_slot_def)
  moreover have map: "slot_map ?s = (slot_map s)(i := if v then Some c else None)"
    using i by (auto simp: slot_map_def slots_def fun_eq_iff nth_list_update)
  moreover have "agent_inv P ?s"
  proof -
    have "config_ok P d" if "d \<in> ran (slot_map ?s)" for d
      using that inv ok unfolding map by (auto simp: agent_inv_def ran_def split: if_splits)
    then show ?thesis
      using inv by (simp add: agent_inv_def slots_def)
  qed
  ultimately show ?thesis
    by (auto simp: slots_def)
qed

section \<open>Creation\<close>

lemma find_free_slot_spec:
  "i + n \<le> length (cells b) \<Longrightarrow> returns (find_free_slot b i n) (\<lambda>r. case r of
    Some k \<Rightarrow> i \<le> k \<and> k < i + n \<and> \<not> valid (cells b ! k)
  | None \<Rightarrow> \<forall>k. i \<le> k \<and> k < i + n \<longrightarrow> valid (cells b ! k))"
proof (induction n arbitrary: i)
  case 0
  then show ?case by auto
next
  case (Suc n)
  then have get: "buf_get b i = Done (cells b ! i)" by simp
  show ?case
  proof (cases "valid (cells b ! i)")
    case True
    have "returns (find_free_slot b (i + 1) n) (\<lambda>r. case r of
        Some k \<Rightarrow> i + 1 \<le> k \<and> k < i + 1 + n \<and> \<not> valid (cells b ! k)
      | None \<Rightarrow> \<forall>k. i + 1 \<le> k \<and> k < i + 1 + n \<longrightarrow> valid (cells b ! k))"
      using Suc.prems by (intro Suc.IH) simp
    then show ?thesis
      using True get
      by (auto split: option.splits elim!: returns_mono dest: le_neq_implies_less
          simp: Suc_le_eq le_less)
  next
    case False
    then show ?thesis using get by simp
  qed
qed

text \<open>What the search for a slot promises: a slot without a configuration, or an exception.\<close>

definition slot_chosen ::
    "('w, 'x) c_platform_scheme \<Rightarrow> 'w agent \<Rightarrow> nat option \<times> 'w agent \<Rightarrow> bool" where
  "slot_chosen P s r = (case r of (slot, s') \<Rightarrow>
    agent_inv P s' \<and> slot_map s' = slot_map s \<and> agent_counters s' = agent_counters s \<and>
    length (slots s') \<le> length (slots s) + 1 \<and>
    (case slot of None \<Rightarrow> pending_exception s' \<noteq> None
     | Some i \<Rightarrow> i < length (slots s') \<and> slot_map s i = None))"

lemma slot_chosen_thrown: "agent_inv P s \<Longrightarrow> thrown s s' \<Longrightarrow> slot_chosen P s (None, s')"
  using unchanged_inv [of s s'] unchanged_slots [of s s']
  by (simp add: thrown_def slot_chosen_def unchanged_def)

lemma slot_chosen_grown:
  fixes s :: "'w agent"
  assumes inv: "agent_inv P s" and room: "length (slots s) < 2147483647" and u: "unchanged s s1"
  shows "slot_chosen P s (Some (length (slots s)), s1\<lparr>all_eventsets := Buf (slots s @ [indeterminate_slot]),
    all_eventset_count := all_eventset_count s + 1\<rparr>)" (is "slot_chosen P s (_, ?s)")
proof -
  have count: "sint (all_eventset_count s + 1) = int (length (slots s)) + 1"
    using inv room by (intro sint_Suc32) (simp_all add: agent_inv_def)
  have map: "slot_map ?s = slot_map s"
    by (auto simp: slot_map_def slots_def fun_eq_iff nth_append indeterminate_slot_def)
  have "agent_inv P ?s"
    using inv u by (simp add: agent_inv_def map count unchanged_def) (simp add: slots_def)
  then show ?thesis
    using u map by (simp add: slot_chosen_def slots_def slot_map_def unchanged_def)
qed

lemma allocate_slot_spec:
  assumes jvm: "jvm_delivers P" and inv: "agent_inv P s" and room: "length (slots s) < 2147483647"
  shows "returns (allocate_slot P s) (slot_chosen P s)"
proof -
  have len: "nat (sint (all_eventset_count s)) = length (slots s)"
    using inv by (simp add: agent_inv_def)
  have "0 + length (slots s) \<le> length (cells (all_eventsets s))" by (simp add: slots_def)
  from find_free_slot_spec [OF this]
  obtain r where r: "find_free_slot (all_eventsets s) 0 (length (slots s)) = Done r"
    and free: "\<And>k. r = Some k \<Longrightarrow> k < length (slots s) \<and> \<not> valid (slots s ! k)"
    by (auto simp: returns_iff slots_def split: option.splits)
  show ?thesis
  proof (cases r)
    case (Some k)
    then show ?thesis
      using free inv by (simp add: allocate_slot_def len r slot_map_def slot_chosen_def)
  next
    case None
    obtain ok s1 where e: "call_ext (malloc_ok P) s = (ok, s1)" by (metis prod.exhaust)
    have u: "unchanged s s1" using e by (rule call_ext_unchanged)
    show ?thesis
    proof (cases ok)
      case False
      have "returns (THROW_OOM P ''allocating an event set'' s1) (\<lambda>s2. slot_chosen P s (None, s2))"
        unfolding THROW_OOM_def by (rule throw_returns [OF jvm u slot_chosen_thrown [OF inv]])
      then show ?thesis
        using None False by (simp add: allocate_slot_def len r e returns_bind)
    next
      case True
      have count: "nat (sint (all_eventset_count s + 1)) = length (slots s) + 1"
        using inv room sint_Suc32 [of "all_eventset_count s"] by (simp add: agent_inv_def nat_add_distrib)
      have "buf_realloc indeterminate_slot (all_eventsets s) (length (slots s) + 1) =
          Done (Buf (slots s @ [indeterminate_slot]))"
        using inv by (simp add: agent_inv_def buf_realloc_cells slots_def)
      then show ?thesis
        using None True u slot_chosen_grown [OF inv room u]
        by (simp add: allocate_slot_def len r e unchanged_def count Let_def indeterminate_slot_def)
    qed
  qed
qed

text \<open>The configuration of a new event set.\<close>

definition fresh_config ::
    "('w, 'x) c_platform_scheme \<Rightarrow> c_int \<Rightarrow> string list \<Rightarrow> benchmark_configuration_t \<Rightarrow> bool" where
  "fresh_config P jmeasurements names c \<longleftrightarrow> config_ok P c \<and> data_index c = 0 \<and>
    data_size c = nat (sint (jmeasurements * 2)) \<and> used_events_count c = length names"

lemma even_sint_double: "even (sint (m * 2 :: c_int))"
proof -
  have "even (uint (m * 2))"
    by (simp add: uint_word_ariths(3) even_mod_2_iff dvd_mod)
  then have "\<not> bit (uint (m * 2)) 0" by (simp add: bit_0)
  then have "\<not> bit (sint (m * 2)) 0"
    by (simp add: sint_uint bit_signed_take_bit_iff)
  then show ?thesis by (simp add: bit_0)
qed

lemma papi_table_empty [simp]: "papi_table_ok [] []"
  by (simp add: papi_table_ok_def papi_codes_def papi_counters_def)

lemma config_ok_handle: "config_ok P (c\<lparr>papi_eventset := h\<rparr>) = config_ok P c"
  by (simp add: config_ok_def events_ok_def)

lemma doubled_size:
  assumes "0 < sint (m * 2 :: c_int)"
  shows "2 \<le> nat (sint (m * 2))" "nat (sint (m * 2)) < 2147483648" "even (nat (sint (m * 2)))"
proof -
  show even: "even (nat (sint (m * 2)))"
    using even_sint_double [of m] assms by (simp add: even_nat_iff)
  then show "2 \<le> nat (sint (m * 2))"
    using assms by (cases "nat (sint (m * 2)) = 0"; cases "nat (sint (m * 2)) = 1") auto
  show "nat (sint (m * 2)) < 2147483648"
    using sint_range32 [of "m * 2"] assms by linarith
qed

text \<open>What the loop over the events leaves, and what the last step makes of it.\<close>

definition events_added ::
    "('w, 'x) papi_platform_scheme \<Rightarrow> c_int \<Rightarrow> string list \<Rightarrow> benchmark_configuration_t \<Rightarrow>
      benchmark_configuration_t \<Rightarrow> bool" where
  "events_added P n names c c' \<longleftrightarrow> events_ok P (length names) c' \<and>
    same_data (cleared_config P n (length names) c) c' \<and> used_events_count c' = length names"

lemma events_added_fresh:
  assumes "events_added P (jmeasurements * 2) names c0 c" and "0 < sint (jmeasurements * 2)" and "names \<noteq> []"
  shows "fresh_config P jmeasurements names (c\<lparr>papi_eventset := h\<rparr>)"
    "fresh_config P jmeasurements names c" "is_live (data c)" "is_live (used_events c)"
  using assms doubled_size [OF assms(2)]
  by (auto simp: events_added_def cleared_config_def fresh_config_def config_ok_def config_ok_handle
      same_data_def zero_snapshot_def events_ok_def Let_def split: if_splits)

lemma cleared_config_start:
  "events_ok P n (cleared_config P k n c)" "used_events_count (cleared_config P k n c) = 0"
  "is_live (data (cleared_config P k n c))"
  by (auto simp: cleared_config_def Let_def events_ok_def intro!: exI [of _ "[]"])

lemma finish_setup_spec:
  assumes jvm: "jvm_delivers P" and u: "unchanged s s0" and live: "is_live (data c)" "is_live (used_events c)"
    and fresh: "Q c" "\<And>h. Q (c\<lparr>papi_eventset := h\<rparr>)"
  shows "returns (finish_setup P options c s0) (part_ok s Q)"
proof -
  obtain acc s1 where e: "GetIntArrayElements P options s0 = (acc, s1)"
    by (metis prod.exhaust)
  have acc using GetIntArrayElements_result(1) [OF e] jvm by (simp add: jvm_delivers_def)
  have u1: "unchanged s s1"
    using u GetIntArrayElements_result(2) [OF e] by (rule unchanged_trans)
  have "returns (setup_papi P True options c s1) (part_ok s Q)"
    by (rule part_ok_mono [OF setup_papi_spec [OF jvm live u1]]) (use fresh in auto)
  then have "returns (if uses_backend (used_backends c) UBENCH_EVENT_BACKEND_PAPI
      then setup_papi P True options c s1 else Done (True, c, s1)) (part_ok s Q)"
    using fresh(1) u1 by simp
  from part_ok_release [OF this, of True] show ?thesis
    using fresh(1) u \<open>acc\<close> by (simp add: finish_setup_def e)
qed

lemma setup_eventset_spec:
  assumes jvm: "jvm_delivers P" and m: "0 < sint (jmeasurements * 2)" and names: "names \<noteq> []"
  shows "returns (setup_eventset P (jmeasurements * 2) names options c0 s)
    (part_ok s (fresh_config P jmeasurements names))"
proof -
  obtain ok1 s1 where e1: "call_ext (malloc_ok P) s = (ok1, s1)" by (metis prod.exhaust)
  obtain ok2 s2 where e2: "call_ext (malloc_ok P) (count_blocks 1 s1) = (ok2, s2)" by (metis prod.exhaust)
  have u1: "unchanged s s1" and u2: "unchanged s (count_blocks k s2)" for k
    using call_ext_unchanged [OF e1] call_ext_unchanged [OF e2] by (auto intro: unchanged_trans)
  have add: "returns (add_events P names (cleared_config P (jmeasurements * 2) (length names) c0)
      (count_blocks 1 s2))
      (part_ok s (events_added P (jmeasurements * 2) names c0))"
    by (rule part_ok_mono [OF add_events_spec [OF jvm, of "length names"] u2])
       (simp_all add: cleared_config_start events_added_def)
  have "returns (obind (add_events P names (cleared_config P (jmeasurements * 2) (length names) c0)
      (count_blocks 1 s2))
      (\<lambda>(ok, c, s3). if \<not> ok then Done (False, c, s3) else finish_setup P options c s3))
    (part_ok s (fresh_config P jmeasurements names))"
    by (rule part_ok_bind [OF add])
       (use events_added_fresh [OF _ m names] in \<open>blast intro: finish_setup_spec [OF jvm]\<close>)
  then show ?thesis
    using part_ok_throw [OF jvm u1] part_ok_throw [OF jvm u2]
    by (simp add: setup_eventset_def e1 e2 THROW_OOM_def)
qed

lemma slot_of_of_nat:
  "i < 2147483648 \<Longrightarrow> slot_of s (of_nat i) = slot_map s i"
  by (simp add: slot_of_def sint_of_nat32)

text \<open>What \<open>createEventSet\<close> promises; \<open>id\<close> is what it returns.\<close>

definition created ::
    "('w, 'x) c_platform_scheme \<Rightarrow> c_int \<Rightarrow> string list \<Rightarrow> 'w agent \<Rightarrow> c_int \<times> 'w agent \<Rightarrow> bool" where
  "created P jmeasurements names s r = (case r of (id', s') \<Rightarrow>
    agent_inv P s' \<and> length (slots s') \<le> length (slots s) + 1 \<and>
    agent_counters s' = agent_counters s \<and>
    (if id' = - 1 then pending_exception s' \<noteq> None \<and> slot_map s' = slot_map s
     else 0 \<le> sint id' \<and> slot_map s (nat (sint id')) = None \<and>
       (\<exists>c. fresh_config P jmeasurements names c \<and> slot_map s' = (slot_map s)(nat (sint id') \<mapsto> c))))"

text \<open>Its three ends: a throw before a slot is chosen, no slot, and the slot that is stored.\<close>

lemma created_throw:
  assumes jvm: "jvm_delivers P" and inv: "agent_inv P s"
  shows "returns (obind (do_throw P message s) (\<lambda>s1. Done (- 1, s1))) (created P jmeasurements names s)"
  unfolding returns_bind
proof (rule throw_returns [OF jvm unchanged_refl])
  fix s2 assume "thrown s s2"
  then show "returns (Done (- 1, s2)) (created P jmeasurements names s)"
    using inv unchanged_inv [of s s2] unchanged_slots [of s s2]
    by (simp add: thrown_def created_def unchanged_def)
qed

lemma created_store:
  assumes slot: "slot_chosen P s (Some i, s1)"
    and part: "part_ok s1 (fresh_config P jmeasurements names) (ok, c, s2)"
  shows "returns (obind (store_slot i \<lparr>config = c, valid = ok\<rparr> s2) (\<lambda>s3.
    Done (if ok then of_nat i else - 1, s3))) (created P jmeasurements names s)"
proof -
  have a: "agent_inv P s1" "slot_map s1 = slot_map s" "agent_counters s1 = agent_counters s"
    "length (slots s1) \<le> length (slots s) + 1" and i: "i < length (slots s1)" "slot_map s i = None"
    using slot by (simp_all add: slot_chosen_def)
  have u: "unchanged s1 s2"
    using part by (cases ok) (simp_all add: thrown_def)
  have inv2: "agent_inv P s2" "slots s2 = slots s1" "slot_map s2 = slot_map s"
    "agent_counters s2 = agent_counters s"
    using a u unchanged_inv [OF u] unchanged_slots [OF u] by (auto simp: unchanged_def)
  have ok: "config_ok P c" if ok
    using part that by (cases ok) (simp_all add: fresh_config_def)
  obtain s3 where s3: "store_slot i \<lparr>config = c, valid = ok\<rparr> s2 = Done s3" "agent_inv P s3"
    "slot_map s3 = (slot_map s)(i := if ok then Some c else None)"
    "length (slots s3) = length (slots s1)" "pending_exception s3 = pending_exception s2"
    "agent_counters s3 = agent_counters s"
    using store_slot_spec [of P s2 i ok c] inv2 i(1) ok by auto
  have id': "sint (of_nat i :: c_int) = int i" "(of_nat i :: c_int) \<noteq> - 1"
    using i(1) slots_bound [OF a(1)] sint_of_nat32 [of i] by auto
  have "(slot_map s)(i := None) = slot_map s" using i(2) by auto
  then show ?thesis
    using s3 a(4) i(2) part id' by (cases ok) (auto simp: created_def thrown_def)
qed

lemma created_fill:
  assumes jvm: "jvm_delivers P" and m: "0 < sint (jmeasurements * 2)" and names: "names \<noteq> []"
    and slot: "slot_chosen P s (Some i, s1)"
  shows "returns (obind (buf_get (all_eventsets s1) i) (\<lambda>e.
    obind (setup_eventset P (jmeasurements * 2) names options (config e) s1) (\<lambda>(ok, c, s2).
    obind (store_slot i \<lparr>config = c, valid = ok\<rparr> s2) (\<lambda>s3.
    Done (if ok then of_nat i else - 1, s3))))) (created P jmeasurements names s)"
proof -
  have "buf_get (all_eventsets s1) i = Done (slots s1 ! i)"
    using slot by (simp add: slot_chosen_def slots_def)
  moreover have "returns (obind (setup_eventset P (jmeasurements * 2) names options c0 s1) (\<lambda>(ok, c, s2).
      obind (store_slot i \<lparr>config = c, valid = ok\<rparr> s2) (\<lambda>s3.
      Done (if ok then of_nat i else - 1, s3)))) (created P jmeasurements names s)" for c0
    unfolding returns_bind
    by (rule returns_mono [OF setup_eventset_spec [OF jvm m names]])
       (clarify, rule created_store [OF slot])
  ultimately show ?thesis by simp
qed

lemma createEventSet_created:
  assumes jvm: "jvm_delivers P" and inv: "agent_inv P s" and room: "length (slots s) < 2147483647"
  shows "returns (Measurement_createEventSet P jmeasurements names options s)
    (created P jmeasurements names s)"
proof (cases "sint (jmeasurements * 2) \<le> 0 \<or> names = []")
  case True
  then show ?thesis
    using created_throw [OF jvm inv] by (auto simp: Measurement_createEventSet_def Let_def)
next
  case False
  then have m: "0 < sint (jmeasurements * 2)" and names: "names \<noteq> []" by auto
  have "returns (obind (allocate_slot P s) (\<lambda>(slot, s1). case slot of
      None \<Rightarrow> Done (- 1, s1)
    | Some eventset_id \<Rightarrow>
        obind (buf_get (all_eventsets s1) eventset_id) (\<lambda>e.
        obind (setup_eventset P (jmeasurements * 2) names options (config e) s1) (\<lambda>(ok, c, s2).
        obind (store_slot eventset_id \<lparr>config = c, valid = ok\<rparr> s2) (\<lambda>s3.
        Done (if ok then of_nat eventset_id else - 1, s3))))))
    (created P jmeasurements names s)"
    unfolding returns_bind
  proof (rule returns_mono [OF allocate_slot_spec [OF jvm inv room]], clarify)
    fix r s1 assume slot: "slot_chosen P s (r, s1)"
    show "returns (case r of None \<Rightarrow> Done (- 1, s1)
      | Some eventset_id \<Rightarrow>
          obind (buf_get (all_eventsets s1) eventset_id) (\<lambda>e.
          obind (setup_eventset P (jmeasurements * 2) names options (config e) s1) (\<lambda>(ok, c, s2).
          obind (store_slot eventset_id \<lparr>config = c, valid = ok\<rparr> s2) (\<lambda>s3.
          Done (if ok then of_nat eventset_id else - 1, s3)))))
      (created P jmeasurements names s)"
      using slot created_fill [OF jvm m names]
      by (cases r) (auto simp: slot_chosen_def created_def)
  qed
  then show ?thesis
    using m names by (simp add: Measurement_createEventSet_def Let_def)
qed

section \<open>Destruction and attachment\<close>

lemma throw_invalid:
  assumes "jvm_delivers P" and "agent_inv P s"
  shows "returns (do_throw P message s) (\<lambda>s'. agent_inv P s' \<and> threw message s s')"
  by (rule returns_mono [OF do_throw_spec [OF assms(1)]])
     (use assms(2) in \<open>auto simp: threw_def intro: unchanged_inv\<close>)

lemma destroy_spec:
  assumes jvm: "jvm_delivers P" and inv: "agent_inv P s"
  shows "returns (Measurement_destroyEventSet P jid s) (\<lambda>s'. agent_inv P s' \<and>
    (if slot_of s jid = None then threw INVALID_ID_MESSAGE s s'
     else slot_map s' = (slot_map s)(nat (sint jid) := None) \<and>
       pending_exception s' = pending_exception s \<and> agent_counters s' = agent_counters s \<and>
       length (slots s') = length (slots s)))"
proof (cases "slot_of s jid")
  case None
  then show ?thesis
    using throw_invalid [OF assms]
    by (simp add: Measurement_destroyEventSet_def is_valid_id_eq [OF inv])
next
  case (Some c)
  then have map: "slot_map s (nat (sint jid)) = Some c"
    by (auto simp: slot_of_def split: if_splits)
  then have i: "nat (sint jid) < length (slots s)"
    by (auto simp: slot_map_def split: if_splits)
  obtain e where e: "buf_get (all_eventsets s) (nat (sint jid)) = Done e" "config e = c"
    using slot_of_get [OF Some] by auto
  let ?s = "count_blocks (- 2) s"
  have "is_live (data c)" "is_live (used_events c)"
    using slot_map_config_ok [OF inv map] by (auto simp: config_ok_def events_ok_def)
  moreover have "agent_inv P ?s" "nat (sint jid) < length (slots ?s)" using inv i by simp_all
  ultimately show ?thesis
    using store_slot_spec [of P ?s "nat (sint jid)" False "c\<lparr>used_events := Indet, data := Indet\<rparr>"] Some
    by (auto simp: Measurement_destroyEventSet_def is_valid_id_eq [OF inv] e free_blocks_returns)
qed

lemma attach_failure_spec:
  assumes jvm: "jvm_delivers P" and inv: "agent_inv P s" and id': "slot_of s id' \<noteq> None"
    and throw: "\<And>s1. returns (throw s1) (\<lambda>s2. thrown s1 s2)"
  shows "returns (attach_failure P id' throw s) (\<lambda>(r, s'). r = - 1 \<and> agent_inv P s' \<and>
    pending_exception s' \<noteq> None \<and> slot_map s' = (slot_map s)(nat (sint id') := None) \<and>
    agent_counters s' = agent_counters s \<and> length (slots s') = length (slots s))"
  unfolding attach_failure_def returns_bind
proof (rule returns_mono [OF destroy_spec [OF jvm inv, of id']], rule returns_mono [OF throw])
  fix s1 s2
  assume "agent_inv P s1 \<and> (if slot_of s id' = None then threw INVALID_ID_MESSAGE s s1
      else slot_map s1 = (slot_map s)(nat (sint id') := None) \<and>
        pending_exception s1 = pending_exception s \<and> agent_counters s1 = agent_counters s \<and>
        length (slots s1) = length (slots s))"
    and "thrown s1 s2"
  then show "returns (Done (- 1, s2)) (\<lambda>(r, s'). r = - 1 \<and> agent_inv P s' \<and>
    pending_exception s' \<noteq> None \<and> slot_map s' = (slot_map s)(nat (sint id') := None) \<and>
    agent_counters s' = agent_counters s \<and> length (slots s') = length (slots s))"
    using id' unchanged_inv [of s1 s2 P] unchanged_slots [of s1 s2]
    by (simp add: thrown_def unchanged_def)
qed

text \<open>What both attaching methods do after a successful \<open>createEventSet\<close>.\<close>

definition attached ::
    "'w platform \<Rightarrow> native_tid_t option \<Rightarrow> c_int \<Rightarrow> 'w agent \<Rightarrow> c_int \<times> 'w agent \<Rightarrow> bool" where
  "attached P known id' s1 r = (case r of (r, s') \<Rightarrow> agent_inv P s' \<and>
    agent_counters s' = agent_counters s1 \<and> length (slots s') = length (slots s1) \<and>
    (r = id' \<and> pending_exception s' = pending_exception s1 \<and> slot_map s' = slot_map s1 \<and>
       (case slot_of s1 id' of
          None \<Rightarrow> False
        | Some c \<Rightarrow> uses_backend (used_backends c) UBENCH_EVENT_BACKEND_PAPI \<longrightarrow>
           (\<exists>n. known = Some n \<and> fst (PAPI_attach P (papi_eventset c) n (world s1)) = PAPI_OK P)) \<or>
     r = - 1 \<and> pending_exception s' \<noteq> None \<and>
       slot_map s' = (slot_map s1)(nat (sint id') := None)))"

lemma throws_papi_error:
  "jvm_delivers P \<Longrightarrow> length f < 50 \<Longrightarrow> returns (do_papi_error_throw P rc f s1) (thrown s1)"
  by (rule returns_mono [OF do_papi_error_throw_spec]) (auto intro: threw_thrown)

lemma throws_message: "jvm_delivers P \<Longrightarrow> returns (do_throw P message s1) (thrown s1)"
  by (rule returns_mono [OF do_throw_spec]) (auto intro: threw_thrown)

lemma get_slot_eq:
  assumes "slot_of s id' = Some c"
  shows "\<exists>e. get_slot s id' = Done e \<and> config e = c"
proof -
  have "\<not> sint id' < 0" using assms by (auto simp: slot_of_def split: if_splits)
  then show ?thesis using slot_of_get [OF assms] by (auto simp: get_slot_def)
qed

lemma attach_native_spec:
  assumes jvm: "jvm_delivers P" and papi: "HAS_PAPI P" and inv: "agent_inv P s1"
    and create: "Measurement_createEventSet P m names options s = Done (id', s1)"
    and c: "slot_of s1 id' = Some c"
  shows "returns (Measurement_createAttachedEventSetWithNativeThread P n m names options s)
    (attached P (Some n) id' s1)"
proof -
  obtain e where e: "get_slot s1 id' = Done e" "config e = c"
    using get_slot_eq [OF c] by blast
  obtain rc s2 where call: "call_ext (PAPI_attach P (papi_eventset c) n) s1 = (rc, s2)"
    by (metis prod.exhaust)
  have rc: "rc = fst (PAPI_attach P (papi_eventset c) n (world s1))"
    using call_ext_result [OF call] .
  have u: "unchanged s1 s2" using call by (rule call_ext_unchanged)
  then have s2: "agent_inv P s2" "slot_map s2 = slot_map s1" "slot_of s2 id' = Some c"
    "agent_counters s2 = agent_counters s1" "length (slots s2) = length (slots s1)"
    "pending_exception s2 = pending_exception s1"
    using inv unchanged_inv unchanged_slots [OF u] c call_ext_pending [OF call]
    by (auto simp: slot_of_def unchanged_def)
  have "returns (attach_failure P id' (do_papi_error_throw P rc ''PAPI_attach'') s2)
      (attached P (Some n) id' s1)"
    by (rule returns_mono [OF attach_failure_spec [OF jvm s2(1)]])
       (use s2 throws_papi_error [OF jvm] in \<open>auto simp: attached_def\<close>)
  then show ?thesis
    using papi inv s2 rc c
    by (simp add: Measurement_createAttachedEventSetWithNativeThread_def create e call attached_def)
qed

lemma attached_failure:
  assumes "jvm_delivers P" and "slot_of s1 id' = Some c" and "agent_inv P s2" "slot_map s2 = slot_map s1"
    and "agent_counters s2 = agent_counters s1" "length (slots s2) = length (slots s1)"
    and "\<And>s. returns (throw s) (thrown s)"
  shows "returns (attach_failure P id' throw s2) (attached P known id' s1)"
  by (rule returns_mono [OF attach_failure_spec [OF assms(1,3) _ assms(7)]])
     (use assms(2,4-6) in \<open>auto simp: attached_def slot_of_def split: if_splits\<close>)

text \<open>Looking the thread up leaves the event sets alone.\<close>

lemma registry_lookup:
  assumes inv: "agent_inv P s" and id': "slot_of s id' = Some c" "get_slot s id' = Done e"
  obtains r where "ubench_threads_get_native_id P (agent_registry s) j =
      Done (case registry_abs (agent_registry s) j of None \<Rightarrow> UBENCH_THREAD_ID_INVALID | Some n \<Rightarrow> n, r)"
    "agent_inv P (s\<lparr>agent_registry := r\<rparr>)" "slot_map (s\<lparr>agent_registry := r\<rparr>) = slot_map s"
    "length (slots (s\<lparr>agent_registry := r\<rparr>)) = length (slots s)"
    "get_slot (s\<lparr>agent_registry := r\<rparr>) id' = Done e"
proof -
  have "registry_inv (agent_registry s)" using inv by (simp add: agent_inv_def)
  then obtain r where r: "ubench_threads_get_native_id P (agent_registry s) j =
      Done (case registry_abs (agent_registry s) j of None \<Rightarrow> UBENCH_THREAD_ID_INVALID | Some n \<Rightarrow> n, r)"
    "registry_inv r"
    using get_native_id_spec by blast
  let ?s = "s\<lparr>agent_registry := r\<rparr>"
  have map: "slots ?s = slots s" "slot_map ?s = slot_map s"
    by (simp_all add: slots_def slot_map_def fun_eq_iff)
  have "agent_inv P ?s" using inv r(2) by (simp add: agent_inv_def map)
  moreover have "get_slot ?s id' = Done e" using id'(2) by (simp add: get_slot_def split: if_splits)
  ultimately show thesis using map by (intro that [OF r(1)]) simp_all
qed

lemma attach_java_spec:
  assumes jvm: "jvm_delivers P" and papi: "HAS_PAPI P" and inv: "agent_inv P s1"
    and create: "Measurement_createEventSet P m names options s = Done (id', s1)"
    and c: "slot_of s1 id' = Some c"
  shows "returns (Measurement_createAttachedEventSetWithJavaThread P j m names options s)
    (attached P (registry_abs (agent_registry s1) j) id' s1)"
proof -
  obtain e where e: "get_slot s1 id' = Done e" "config e = c"
    using get_slot_eq [OF c] by blast
  let ?n = "case registry_abs (agent_registry s1) j of None \<Rightarrow> UBENCH_THREAD_ID_INVALID | Some n \<Rightarrow> n"
  obtain r where r: "ubench_threads_get_native_id P (agent_registry s1) j = Done (?n, r)"
    "agent_inv P (s1\<lparr>agent_registry := r\<rparr>)" "slot_map (s1\<lparr>agent_registry := r\<rparr>) = slot_map s1"
    "length (slots (s1\<lparr>agent_registry := r\<rparr>)) = length (slots s1)"
    "get_slot (s1\<lparr>agent_registry := r\<rparr>) id' = Done e"
    by (rule registry_lookup [OF inv c e(1)])
  note fail = attached_failure [OF jvm c]
  consider (other) "\<not> uses_backend (used_backends c) UBENCH_EVENT_BACKEND_PAPI"
    | (unknown) "uses_backend (used_backends c) UBENCH_EVENT_BACKEND_PAPI" "?n = UBENCH_THREAD_ID_INVALID"
    | (known) "uses_backend (used_backends c) UBENCH_EVENT_BACKEND_PAPI" "?n \<noteq> UBENCH_THREAD_ID_INVALID"
    by blast
  then show ?thesis
  proof cases
    case other
    then show ?thesis
      using papi inv c e
      by (simp add: Measurement_createAttachedEventSetWithJavaThread_def create attached_def)
  next
    case unknown
    then show ?thesis
      using papi e r(1) fail [OF r(2,3) _ r(4) throws_message [OF jvm]]
      by (simp add: Measurement_createAttachedEventSetWithJavaThread_def create Let_def)
  next
    case known
    then obtain n where n: "registry_abs (agent_registry s1) j = Some n" "?n = n"
      by (auto split: option.splits)
    obtain rc s3 where call: "call_ext (PAPI_attach P (papi_eventset c) n) (s1\<lparr>agent_registry := r\<rparr>) = (rc, s3)"
      by (metis prod.exhaust)
    have rc: "rc = fst (PAPI_attach P (papi_eventset c) n (world s1))"
      using call_ext_result [OF call] by simp
    note u = call_ext_unchanged [OF call]
    have s3: "agent_inv P s3" "slot_map s3 = slot_map s1" "agent_counters s3 = agent_counters s1"
      "length (slots s3) = length (slots s1)" "pending_exception s3 = pending_exception s1"
      using unchanged_inv [OF u r(2)] unchanged_slots [OF u] u r(3,4) call_ext_pending [OF call]
      by (auto simp: unchanged_def)
    show ?thesis
      using papi e r(1,5) known n call rc c s3
        fail [OF s3(1-4), of "do_papi_error_throw P rc ''PAPI_attach''"] throws_papi_error [OF jvm]
      by (simp add: Measurement_createAttachedEventSetWithJavaThread_def create Let_def attached_def)
  qed
qed

section \<open>What creation guarantees\<close>

lemma sint_double:
  assumes "- 1073741824 \<le> sint m" and "sint m < 1073741824"
  shows "sint (m * 2 :: c_int) = 2 * sint m"
proof -
  have "m * 2 = word_of_int (sint m * 2)"
    by (simp only: of_int_mult) simp
  then show ?thesis
    using assms sint_of_int32 [of "sint m * 2"] by simp
qed

text \<open>
  C10: With fewer than \<open>2^31 - 1\<close> slots in use, \<open>createEventSet\<close> for a number of measurements between
  \<open>- 2^30\<close> and \<open>2^30 - 1\<close> returns. Either it returns -1 with an exception pending and no event set
  changed, or it returns an identifier that was free, for an empty event set with room for two
  snapshots per measurement and one description per event; every other event set stays as it is
  and the invariant of the agent holds again. A number from \<open>- 2^30\<close> to 0 and an empty list of
  events are always refused.
\<close>

theorem createEventSet_spec:
  assumes "jvm_delivers P" and "agent_inv P s" and "length (slots s) < 2147483647"
    and "- 1073741824 \<le> sint jmeasurements" and "sint jmeasurements < 1073741824"
  shows "returns (Measurement_createEventSet P jmeasurements jeventNames joptions s) (\<lambda>(id', s').
    agent_inv P s' \<and> agent_counters s' = agent_counters s \<and>
    (id' = - 1 \<and> pending_exception s' \<noteq> None \<and> slot_map s' = slot_map s \<or>
     0 < sint jmeasurements \<and> jeventNames \<noteq> [] \<and>
     0 \<le> sint id' \<and> slot_of s id' = None \<and>
     (\<exists>c. slot_map s' = (slot_map s)(nat (sint id') \<mapsto> c) \<and> slot_of s' id' = Some c \<and>
       data_size c = 2 * nat (sint jmeasurements) \<and> data_index c = 0 \<and>
       used_events_count c = length jeventNames)))"
proof -
  have refuse: "fresh_config P jmeasurements jeventNames c \<Longrightarrow> 0 < sint jmeasurements \<and> jeventNames \<noteq> []" for c
    using assms(4,5)
    by (auto simp: fresh_config_def config_ok_def sint_double)
  show ?thesis
  proof (rule returns_mono [OF createEventSet_created [OF assms(1-3)]], clarify)
    fix id' s'
    assume "created P jmeasurements jeventNames s (id', s')"
    then show "agent_inv P s' \<and> agent_counters s' = agent_counters s \<and>
      (id' = - 1 \<and> pending_exception s' \<noteq> None \<and> slot_map s' = slot_map s \<or>
       0 < sint jmeasurements \<and> jeventNames \<noteq> [] \<and>
       0 \<le> sint id' \<and> slot_of s id' = None \<and>
       (\<exists>c. slot_map s' = (slot_map s)(nat (sint id') \<mapsto> c) \<and> slot_of s' id' = Some c \<and>
         data_size c = 2 * nat (sint jmeasurements) \<and> data_index c = 0 \<and>
         used_events_count c = length jeventNames))"
      using refuse assms(4,5)
      by (auto simp: created_def slot_of_def fresh_config_def sint_double nat_mult_distrib split: if_splits)
  qed
qed

lemma sample_jvm: "jvm_delivers sample_platform"
  by (simp add: jvm_delivers_def sample_platform_def)

lemma initial_slots [simp]: "slots (initial_agent w) = []"
  by (simp add: slots_def initial_agent_def)

theorem createEventSet_spec_witness:
  "returns (Measurement_createEventSet sample_platform 3 [''SYS:wallclock-time''] []
      (initial_agent (0 :: nat)))
    (\<lambda>(id', s'). agent_inv sample_platform s')"
  by (rule returns_mono [OF createEventSet_spec]) (auto simp: sample_jvm agent_inv_initial)

text \<open>
  The check for a positive number of measurements comes after the multiplication by two, so
  it accepts numbers far below zero: with \<open>-2147483647\<close> measurements \<open>createEventSet\<close> refuses
  nothing and makes an event set with room for one measurement.
\<close>

lemma negative_count_accepted:
  "returns (Measurement_createEventSet sample_platform (- 2147483647) [''SYS:wallclock-time''] []
      (initial_agent (0 :: nat)))
    (\<lambda>(id', s'). id' = 0 \<and> pending_exception s' = None \<and>
      map_option data_size (slot_of s' id') = Some 2)"
  by (simp add: Measurement_createEventSet_def allocate_slot_def initial_agent_def call_ext_def
      sample_platform_def Let_def setup_eventset_def cleared_config_def indeterminate_slot_def,
    simp add: add_event_def store_event_def borrowing_defs call_ext_def ubench_event_resolve_def known_events_def plain_event_def
      icase.same_iff icase.starts_iff c_tolower_eq fill_event_info_eq zero_event_info_def,
    simp add: finish_setup_def backend_defs Let_def store_slot_def slot_of_def slot_map_def slots_def call_ext_def borrowing_defs)

section \<open>The events of a configuration\<close>

definition events_of :: "benchmark_configuration_t \<Rightarrow> ubench_event_info_t list" where
  "events_of c = cells (used_events c)"

lemma config_events:
  assumes "config_ok P c"
  shows "used_events c = Buf (events_of c)" "length (events_of c) = used_events_count c"
    "\<forall>e \<in> set (events_of c). event_ok P (used_backends c) e"
    "HAS_PAPI P \<Longrightarrow> papi_table_ok (used_papi_events c) (events_of c)"
  using assms by (auto simp: config_ok_def events_ok_def events_of_def split: if_splits)

text \<open>An event set with one PAPI event, for the examples.\<close>

definition sample_papi_event :: ubench_event_info_t where
  "sample_papi_event =
    \<lparr>backend = UBENCH_EVENT_BACKEND_PAPI, event_id = 50, event_papi_component = 0, papi_index = 0,
     op_get_raw = Some Papi, op_get = Some Papi, event_name = Some ''PAPI_TOT_INS''\<rparr>"

definition sample_papi_config :: benchmark_configuration_t where
  "sample_papi_config =
    \<lparr>used_backends = UBENCH_EVENT_BACKEND_PAPI, used_events = Buf [sample_papi_event],
     used_events_count = 1, used_papi_events = [50], papi_eventset = 3, papi_component = 0,
     data = Buf (replicate 2 zero_snapshot), data_size = 2, data_index = 0\<rparr>"

definition sample_agent :: "nat agent" where
  "sample_agent = (initial_agent 0)
    \<lparr>all_eventsets := Buf [\<lparr>config = sample_papi_config, valid = True\<rparr>], all_eventset_count := 1\<rparr>"

lemma sample_event_ok: "event_ok sample_platform UBENCH_EVENT_BACKEND_PAPI sample_papi_event"
  by (simp add: event_ok_def resolved_def sample_papi_event_def known_events_def plain_event_def
      sample_platform_def UBENCH_MAX_PAPI_EVENTS_def)

lemma sample_papi_codes: "papi_codes [sample_papi_event] = {50}"
proof -
  have "{e \<in> set [sample_papi_event]. is_papi e} = {sample_papi_event}"
    by (auto simp: is_papi_def sample_papi_event_def)
  then show ?thesis
    by (simp add: papi_codes_def sample_papi_event_def)
qed

lemma sample_config_ok: "config_ok sample_platform sample_papi_config"
proof -
  have "papi_table_ok [50] [sample_papi_event]"
    by (simp add: papi_table_ok_def papi_counters_def is_papi_def sample_papi_codes UBENCH_MAX_PAPI_EVENTS_def)
       (simp add: papi_index_ok_def sample_papi_event_def)
  then have "events_ok sample_platform 1 sample_papi_config"
    unfolding events_ok_def
    by (intro exI [of _ "[sample_papi_event]"]) (simp add: sample_papi_config_def sample_event_ok)
  then show ?thesis
    by (simp add: config_ok_def sample_papi_config_def zero_snapshot_def)
qed

lemma sample_agent_slots: "slots sample_agent = [\<lparr>config = sample_papi_config, valid = True\<rparr>]"
  by (simp add: sample_agent_def slots_def)

lemma sample_agent_inv: "agent_inv sample_platform sample_agent"
proof -
  have "config_ok sample_platform c" if "c \<in> ran (slot_map sample_agent)" for c
    using that sample_config_ok
    by (auto simp: ran_def slot_map_def sample_agent_slots split: if_splits)
  then show ?thesis
    by (simp add: agent_inv_def sample_agent_slots registry_inv_initial)
       (simp add: sample_agent_def initial_agent_def registry_inv_initial)
qed

lemma sample_agent_slot: "slot_of sample_agent 0 = Some sample_papi_config"
  by (simp add: slot_of_def slot_map_def sample_agent_slots)

section \<open>Attached event sets\<close>

lemma created_slot:
  assumes "jvm_delivers P" and "agent_inv P s" and "length (slots s) < 2147483647"
    and "Measurement_createEventSet P m names options s = Done (id', s1)"
  shows "agent_inv P s1 \<and> (id' \<noteq> - 1 \<longrightarrow> (\<exists>c. slot_of s1 id' = Some c))"
  using createEventSet_created [OF assms(1-3), of m names options] assms(4)
  by (auto simp: created_def slot_of_def split: if_splits)

lemma sample_creation:
  "\<exists>s1. Measurement_createEventSet sample_platform 1 [''SYS:wallclock-time''] []
    (initial_agent (0 :: nat)) = Done (0, s1)"
  by (simp add: Measurement_createEventSet_def allocate_slot_def initial_agent_def call_ext_def
      sample_platform_def Let_def setup_eventset_def cleared_config_def indeterminate_slot_def,
    simp add: add_event_def store_event_def borrowing_defs call_ext_def ubench_event_resolve_def known_events_def plain_event_def
      icase.same_iff icase.starts_iff c_tolower_eq fill_event_info_eq zero_event_info_def,
    simp add: finish_setup_def borrowing_defs backend_defs Let_def store_slot_def call_ext_def)

text \<open>
  C28: On a build with PAPI, when the underlying \<open>createEventSet\<close> succeeds, both attaching methods return
  either its identifier, with all event sets as \<open>createEventSet\<close> left them and, if the set uses PAPI,
  PAPI attached to the given native thread or the one registered for the Java thread; or -1 with an
  exception pending and the new event set destroyed again.
\<close>

theorem attached_event_sets:
  assumes "jvm_delivers P" and "agent_inv P s" and "length (slots s) < 2147483647" and "HAS_PAPI P"
    and "Measurement_createEventSet P m names options s = Done (id', s1)" and "id' \<noteq> - 1"
  shows "returns (Measurement_createAttachedEventSetWithJavaThread P j m names options s)
      (attached P (registry_abs (agent_registry s1) j) id' s1) \<and>
    returns (Measurement_createAttachedEventSetWithNativeThread P n m names options s)
      (attached P (Some n) id' s1)"
  using created_slot [OF assms(1-3,5)] assms
  by (auto intro: attach_java_spec attach_native_spec)

theorem attached_event_sets_witness:
  "\<exists>s1. returns (Measurement_createAttachedEventSetWithNativeThread sample_platform 7 1
      [''SYS:wallclock-time''] [] (initial_agent (0 :: nat)))
    (attached sample_platform (Some 7) 0 s1)"
proof -
  obtain s1 where create: "Measurement_createEventSet sample_platform 1
      [''SYS:wallclock-time''] [] (initial_agent (0 :: nat)) = Done (0, s1)"
    using sample_creation ..
  have "HAS_PAPI sample_platform" by (simp add: sample_platform_def)
  then show ?thesis
    using attached_event_sets [OF sample_jvm agent_inv_initial _ _ create] by auto
qed

text \<open>
  C39: The result of the underlying \<open>createEventSet\<close> is not checked: on a build with PAPI, whenever it
  fails, both attaching methods go on to read the table at index -1.
\<close>

theorem attaching_ignores_failed_creation:
  assumes "HAS_PAPI P" and "Measurement_createEventSet P m names options s = Done (- 1, s1)"
  shows "Measurement_createAttachedEventSetWithJavaThread P j m names options s = Fault OutOfBounds \<and>
    Measurement_createAttachedEventSetWithNativeThread P n m names options s = Fault OutOfBounds"
  using assms
  by (simp add: Measurement_createAttachedEventSetWithJavaThread_def
      Measurement_createAttachedEventSetWithNativeThread_def get_slot_def)

theorem attaching_ignores_failed_creation_witness:
  "Measurement_createAttachedEventSetWithJavaThread sample_platform 5 1 [] []
    (initial_agent (0 :: nat)) = Fault OutOfBounds"
proof -
  have "\<exists>s1. Measurement_createEventSet sample_platform 1 [] [] (initial_agent (0 :: nat)) =
      Done (- 1, s1)"
    by (simp add: Measurement_createEventSet_def do_throw_def call_ext_def sample_platform_def)
  moreover have "HAS_PAPI sample_platform" by (simp add: sample_platform_def)
  ultimately show ?thesis
    using attaching_ignores_failed_creation [of sample_platform 1 "[]" "[]" "initial_agent (0 :: nat)"]
    by blast
qed

end
