(* ===== verification/Recording.thy ===== *)
theory Recording
  imports EventSets
begin

text \<open>
  Recording measurements (\<open>measurement.c\<close>, lines 430 to 561): the native methods \<open>start\<close>, \<open>stop\<close>,
  \<open>sample\<close> and \<open>reset\<close>, which work on a list of event sets, the log of snapshots an event set
  stands for, and which sequences of calls stay inside the array of snapshots.
\<close>

section \<open>One event set\<close>

type_synonym 'w slot_op =
  "counters \<Rightarrow> benchmark_configuration_t \<Rightarrow> 'w \<Rightarrow> (benchmark_configuration_t \<times> 'w) outcome"

text \<open>The common part: measure into \<open>data[data_index]\<close> and advance the index.\<close>

definition record_snapshot ::
    "(benchmark_configuration_t \<Rightarrow> snapshot \<Rightarrow> ('w, snapshot) ext) \<Rightarrow> benchmark_configuration_t \<Rightarrow>
      'w \<Rightarrow> (benchmark_configuration_t \<times> 'w) outcome" where
  "record_snapshot meas c w =
    obind (buf_get (data c) (data_index c)) (\<lambda>snapshot.
    case meas c snapshot w of (snapshot', w') \<Rightarrow>
    obind (buf_set (data c) (data_index c) snapshot') (\<lambda>d.
    Done (c\<lparr>data := d, data_index := size_add (data_index c) 1\<rparr>, w')))"

text \<open>When the array is full, \<open>start\<close> and \<open>sample\<close> go back by two.\<close>

definition make_room :: "benchmark_configuration_t \<Rightarrow> benchmark_configuration_t" where
  "make_room c =
    (if data_size c \<le> data_index c then c\<lparr>data_index := size_sub (data_index c) 2\<rparr> else c)"

definition start_one :: "('w, 'x) papi_platform_scheme \<Rightarrow> 'w slot_op" where
  "start_one P cs c w =
    (if data_size c = 0 then Done (c, w)
     else record_snapshot (ubench_measure_start P cs) (make_room c) w)"

definition stop_one :: "('w, 'x) papi_platform_scheme \<Rightarrow> 'w slot_op" where
  "stop_one P cs c w = record_snapshot (ubench_measure_stop P cs) c w"

definition sample_one :: "('w, 'x) papi_platform_scheme \<Rightarrow> c_int \<Rightarrow> 'w slot_op" where
  "sample_one P user_id cs c w =
    (if data_size c = 0 then Done (c, w)
     else record_snapshot (\<lambda>c s. ubench_measure_sample P cs c s user_id) (make_room c) w)"

definition reset_one :: "'w slot_op" where
  "reset_one cs c w = Done (c\<lparr>data_index := 0\<rparr>, w)"

section \<open>The native methods\<close>

definition on_slot :: "'w slot_op \<Rightarrow> nat \<Rightarrow> 'w agent \<Rightarrow> 'w agent outcome" where
  "on_slot f i s =
    obind (buf_get (all_eventsets s) i) (\<lambda>e.
    obind (f (agent_counters s) (config e) (world s)) (\<lambda>(c, w).
    store_slot i (e\<lparr>config := c\<rparr>) (s\<lparr>world := w\<rparr>)))"

text \<open>
  The loop over the identifiers, and the release of their array after it. An invalid identifier
  ends both with an exception.
\<close>

fun for_ids :: "'w platform \<Rightarrow> 'w slot_op \<Rightarrow> c_int list \<Rightarrow> 'w agent \<Rightarrow> 'w agent outcome" where
  "for_ids P f [] s = Done (ReleaseIntArrayElements True s)"
| "for_ids P f (jid # jids) s =
     obind (is_valid_id s jid) (\<lambda>ok.
       if \<not> ok then do_throw P INVALID_ID_MESSAGE s
       else obind (on_slot f (nat (sint jid)) s) (\<lambda>s'. for_ids P f jids s'))"

definition on_event_sets :: "'w platform \<Rightarrow> 'w slot_op \<Rightarrow> c_int list \<Rightarrow> 'w agent \<Rightarrow> 'w agent outcome" where
  "on_event_sets P f jids s =
    (if length jids = 0 then Done s
     else case GetIntArrayElements P jids s of (accessible, s1) \<Rightarrow>
       if \<not> accessible then Fault NullDeref else for_ids P f jids s1)"

definition Measurement_start :: "'w platform \<Rightarrow> c_int list \<Rightarrow> 'w agent \<Rightarrow> 'w agent outcome" where
  "Measurement_start P jids s = on_event_sets P (start_one P) jids s"

definition Measurement_stop :: "'w platform \<Rightarrow> c_int list \<Rightarrow> 'w agent \<Rightarrow> 'w agent outcome" where
  "Measurement_stop P jids s = on_event_sets P (stop_one P) jids s"

definition Measurement_sample ::
    "'w platform \<Rightarrow> c_int \<Rightarrow> c_int list \<Rightarrow> 'w agent \<Rightarrow> 'w agent outcome" where
  "Measurement_sample P juser_id jids s = on_event_sets P (sample_one P juser_id) jids s"

definition Measurement_reset :: "'w platform \<Rightarrow> c_int list \<Rightarrow> 'w agent \<Rightarrow> 'w agent outcome" where
  "Measurement_reset P jids s = on_event_sets P reset_one jids s"

section \<open>The log of an event set\<close>

definition snapshot_log :: "benchmark_configuration_t \<Rightarrow> snapshot list" where
  "snapshot_log c = take (data_index c) (cells (data c))"

text \<open>What recording does to a log of at most \<open>n\<close> snapshots.\<close>

definition log_append :: "nat \<Rightarrow> snapshot list \<Rightarrow> snapshot \<Rightarrow> snapshot list" where
  "log_append n log snap = (if n \<le> length log then take (n - 2) log else log) @ [snap]"

text \<open>Everything but the log.\<close>

definition same_setup :: "benchmark_configuration_t \<Rightarrow> benchmark_configuration_t \<Rightarrow> bool" where
  "same_setup c c' \<longleftrightarrow> (\<exists>d i. c' = c\<lparr>data := d, data_index := i\<rparr>)"

lemma same_setup_members:
  "same_setup c c' \<Longrightarrow> data_size c' = data_size c \<and> used_events c' = used_events c \<and>
    used_events_count c' = used_events_count c \<and> used_backends c' = used_backends c \<and>
    used_papi_events c' = used_papi_events c \<and> papi_eventset c' = papi_eventset c"
  by (auto simp: same_setup_def)

lemma same_setup_refl [simp]: "same_setup c c"
  unfolding same_setup_def by (intro exI [of _ "data c"] exI [of _ "data_index c"]) simp

lemma config_ok_data:
  assumes "config_ok P c" and "length d = data_size c" and "i \<le> data_size c"
    and "\<forall>x \<in> set d. length (papi_events x) = UBENCH_MAX_PAPI_EVENTS"
  shows "config_ok P (c\<lparr>data := Buf d, data_index := i\<rparr>)"
proof -
  have "events_ok P n (c\<lparr>data := Buf d, data_index := i\<rparr>) = events_ok P n c" for n
    by (simp add: events_ok_def)
  then show ?thesis
    using assms by (simp add: config_ok_def)
qed

lemma log_length: "config_ok P c \<Longrightarrow> length (snapshot_log c) = data_index c"
  by (simp add: snapshot_log_def config_ok_def)

lemma record_snapshot_spec:
  assumes ok: "config_ok P c" and room: "data_index c < data_size c"
    and array: "\<And>old w. length (papi_events (fst (meas c old w))) = length (papi_events old)"
  shows "\<exists>old new w'. meas c old w = (new, w') \<and>
    returns (record_snapshot meas c w) (\<lambda>(c', w''). w'' = w' \<and> config_ok P c' \<and> same_setup c c' \<and>
      snapshot_log c' = snapshot_log c @ [new])"
proof -
  obtain d where d: "data c = Buf d" "length d = data_size c" "data_size c < 2147483648"
    and arrays: "\<forall>x \<in> set d. length (papi_events x) = UBENCH_MAX_PAPI_EVENTS"
    using ok by (auto simp: config_ok_def is_live_iff)
  obtain new w' where m: "meas c (d ! data_index c) w = (new, w')" by (metis prod.exhaust)
  let ?c = "c\<lparr>data := Buf (d[data_index c := new]), data_index := data_index c + 1\<rparr>"
  have "d ! data_index c \<in> set d" using d room by simp
  then have "length (papi_events new) = UBENCH_MAX_PAPI_EVENTS"
    using array [of "d ! data_index c" w] arrays m by auto
  then have "\<forall>x \<in> set (d[data_index c := new]). length (papi_events x) = UBENCH_MAX_PAPI_EVENTS"
    using arrays set_update_subset_insert by fastforce
  note arrays' = this
  have "record_snapshot meas c w = Done (?c, w')"
    using d room m by (simp add: record_snapshot_def size_add_small)
  moreover have "config_ok P ?c"
    using d room arrays' by (intro config_ok_data [OF ok]) simp_all
  moreover have "same_setup c ?c" unfolding same_setup_def by blast
  moreover have "snapshot_log ?c = snapshot_log c @ [new]"
    using d room by (simp add: snapshot_log_def take_Suc_conv_app_nth)
  ultimately show ?thesis using m by auto
qed

lemma make_room_spec:
  assumes ok: "config_ok P c"
  shows "config_ok P (make_room c) \<and> same_setup c (make_room c) \<and>
    data_index (make_room c) < data_size (make_room c) \<and>
    snapshot_log (make_room c) =
      (if data_size c \<le> length (snapshot_log c) then take (data_size c - 2) (snapshot_log c)
       else snapshot_log c)"
proof -
  have room: "2 \<le> data_size c" "data_index c \<le> data_size c"
    using ok by (auto simp: config_ok_def)
  have layout: "make_room c = c\<lparr>data := data c, data_index := data_index (make_room c)\<rparr>"
    by (simp add: make_room_def)
  have index: "data_index (make_room c) =
      (if data_size c \<le> data_index c then data_size c - 2 else data_index c)"
    using room by (simp add: make_room_def size_sub_small)
  obtain d where d: "data c = Buf d" "length d = data_size c"
    and arrays: "\<forall>x \<in> set d. length (papi_events x) = UBENCH_MAX_PAPI_EVENTS"
    using ok by (auto simp: config_ok_def is_live_iff)
  have "config_ok P (c\<lparr>data := Buf d, data_index := data_index (make_room c)\<rparr>)"
    using ok d(2) index room arrays by (intro config_ok_data) auto
  then have "config_ok P (make_room c)"
    using layout d(1) by simp
  moreover have "same_setup c (make_room c)"
    using layout unfolding same_setup_def by blast
  moreover have "snapshot_log (make_room c) =
      (if data_size c \<le> length (snapshot_log c) then take (data_size c - 2) (snapshot_log c)
       else snapshot_log c)"
    using room index log_length [OF ok]
    by (simp add: snapshot_log_def make_room_def min_def)
  ultimately show ?thesis
    using index room by (auto simp: make_room_def)
qed

lemma same_setup_trans: "same_setup a b \<Longrightarrow> same_setup b c \<Longrightarrow> same_setup a c"
  unfolding same_setup_def by fastforce

text \<open>What \<open>start\<close>, \<open>sample\<close> and \<open>stop\<close> do to one event set, for snapshots of the given type.\<close>

definition overwrites ::
    "('w, 'x) c_platform_scheme \<Rightarrow> c_int \<Rightarrow> counters \<Rightarrow> benchmark_configuration_t \<Rightarrow>
      benchmark_configuration_t \<Rightarrow> bool" where
  "overwrites P type cs c c' \<longleftrightarrow> (\<exists>old new. fills P cs (used_backends c) type old new \<and>
    snapshot_log c' = log_append (data_size c) (snapshot_log c) new)"

definition appends ::
    "('w, 'x) c_platform_scheme \<Rightarrow> c_int \<Rightarrow> counters \<Rightarrow> benchmark_configuration_t \<Rightarrow>
      benchmark_configuration_t \<Rightarrow> bool" where
  "appends P type cs c c' \<longleftrightarrow> (\<exists>old new. fills P cs (used_backends c) type old new \<and>
    snapshot_log c' = snapshot_log c @ [new])"

lemma record_appends:
  assumes ok: "config_ok P c" and room: "data_index c < data_size c"
    and fills: "\<And>old w. fills P cs (used_backends c) type old (fst (meas c old w))"
  shows "returns (record_snapshot meas c w) (\<lambda>(c', w').
    config_ok P c' \<and> same_setup c c' \<and> appends P type cs c c')"
proof -
  have "length (papi_events (fst (meas c old w))) = length (papi_events old)" for old w
    using fills [of old w] by (simp add: fills_def)
  note fills_array = this
  obtain old new w' where m: "meas c old w = (new, w')"
    and spec: "returns (record_snapshot meas c w) (\<lambda>(c', w''). w'' = w' \<and> config_ok P c' \<and>
      same_setup c c' \<and> snapshot_log c' = snapshot_log c @ [new])"
    using record_snapshot_spec [where meas = meas and w = w, OF ok room fills_array] by blast
  have "fills P cs (used_backends c) type old new"
    using fills [of old w] m by simp
  then show ?thesis
    unfolding appends_def by (intro returns_mono [OF spec]) auto
qed

lemma record_overwrites:
  assumes ok: "config_ok P c"
    and fills: "\<And>c old w. fills P cs (used_backends c) type old (fst (meas c old w))"
  shows "returns (record_snapshot meas (make_room c) w) (\<lambda>(c', w').
    config_ok P c' \<and> same_setup c c' \<and> overwrites P type cs c c')"
proof -
  note room = make_room_spec [OF ok]
  have "returns (record_snapshot meas (make_room c) w) (\<lambda>(c', w').
      config_ok P c' \<and> same_setup (make_room c) c' \<and> appends P type cs (make_room c) c')"
    using room fills by (intro record_appends) blast+
  then show ?thesis
    by (rule returns_mono)
       (use room same_setup_members [of c "make_room c"] in
         \<open>auto simp: appends_def overwrites_def log_append_def intro: same_setup_trans\<close>)
qed

lemma start_one_spec:
  assumes "config_ok P c"
  shows "returns (start_one P cs c w) (\<lambda>(c', w'). config_ok P c' \<and> same_setup c c' \<and>
    overwrites P UBENCH_SNAPSHOT_TYPE_START cs c c')"
proof -
  have "returns (record_snapshot (ubench_measure_start P cs) (make_room c) w) (\<lambda>(c', w').
      config_ok P c' \<and> same_setup c c' \<and> overwrites P UBENCH_SNAPSHOT_TYPE_START cs c c')"
    by (rule record_overwrites [OF assms]) (rule measure_start_fills)
  then show ?thesis
    using assms by (simp add: start_one_def config_ok_def)
qed

lemma sample_one_spec:
  assumes "config_ok P c"
  shows "returns (sample_one P user_id cs c w) (\<lambda>(c', w'). config_ok P c' \<and> same_setup c c' \<and>
    overwrites P user_id cs c c')"
proof -
  have "returns (record_snapshot (\<lambda>c s. ubench_measure_sample P cs c s user_id) (make_room c) w)
      (\<lambda>(c', w'). config_ok P c' \<and> same_setup c c' \<and> overwrites P user_id cs c c')"
    by (rule record_overwrites [OF assms]) (rule measure_sample_fills)
  then show ?thesis
    using assms by (simp add: sample_one_def config_ok_def)
qed

lemma stop_one_spec:
  assumes "config_ok P c" and "data_index c < data_size c"
  shows "returns (stop_one P cs c w) (\<lambda>(c', w'). config_ok P c' \<and> same_setup c c' \<and>
    appends P UBENCH_SNAPSHOT_TYPE_END cs c c')"
  unfolding stop_one_def by (rule record_appends [OF assms]) (rule measure_stop_fills)

lemma reset_one_spec:
  assumes "config_ok P c"
  shows "returns (reset_one cs c w) (\<lambda>(c', w'). config_ok P c' \<and> same_setup c c' \<and> snapshot_log c' = [])"
proof -
  obtain d where d: "data c = Buf d" "length d = data_size c"
    and arrays: "\<forall>x \<in> set d. length (papi_events x) = UBENCH_MAX_PAPI_EVENTS"
    using assms by (auto simp: config_ok_def is_live_iff)
  have "config_ok P (c\<lparr>data := Buf d, data_index := 0\<rparr>)"
    by (rule config_ok_data [OF assms d(2) _ arrays]) simp
  then have "config_ok P (c\<lparr>data_index := 0\<rparr>)" by (simp flip: d(1))
  moreover have "same_setup c (c\<lparr>data_index := 0\<rparr>)"
    unfolding same_setup_def by (intro exI [of _ "data c"] exI [of _ 0]) simp
  ultimately show ?thesis by (simp add: reset_one_def snapshot_log_def)
qed

section \<open>Many event sets\<close>

text \<open>
  The contract of an operation on one event set: it keeps the configuration well-formed, leaves
  its events alone, and relates the old and the new log. From it follows what the loop over the
  identifiers does, whatever the operation is.
\<close>

locale slot_operation =
  fixes P :: "'w platform"
    and op :: "'w slot_op"
    and enabled :: "benchmark_configuration_t \<Rightarrow> bool"
    and effect :: "counters \<Rightarrow> benchmark_configuration_t \<Rightarrow> benchmark_configuration_t \<Rightarrow> bool"
  assumes op_law: "config_ok P c \<Longrightarrow> enabled c \<Longrightarrow> returns (op cs c w)
    (\<lambda>(c', w'). config_ok P c' \<and> same_setup c c' \<and> effect cs c c')"

text \<open>
  \<open>updated E ids s s'\<close>: the event sets in \<open>ids\<close> changed by the effect \<open>E\<close>, all others not at all.
\<close>

definition updated ::
    "(counters \<Rightarrow> benchmark_configuration_t \<Rightarrow> benchmark_configuration_t \<Rightarrow> bool) \<Rightarrow> c_int set \<Rightarrow>
      'w agent \<Rightarrow> 'w agent \<Rightarrow> bool" where
  "updated E ids s s' \<longleftrightarrow> agent_counters s' = agent_counters s \<and> length (slots s') = length (slots s) \<and>
    (\<forall>j. (j \<in> ids \<longrightarrow> (\<exists>c c'. slot_of s j = Some c \<and> slot_of s' j = Some c' \<and> same_setup c c' \<and>
        E (agent_counters s) c c')) \<and>
      (j \<notin> ids \<longrightarrow> slot_of s' j = slot_of s j))"

definition leading_valid :: "'w agent \<Rightarrow> c_int list \<Rightarrow> c_int list" where
  "leading_valid s jids = takeWhile (\<lambda>j. slot_of s j \<noteq> None) jids"

lemma updated_none: "updated E {} s s' \<longleftrightarrow> agent_counters s' = agent_counters s \<and>
    length (slots s') = length (slots s) \<and> (\<forall>j. slot_of s' j = slot_of s j)"
  by (simp add: updated_def)

lemma unchanged_slot_of: "unchanged s s' \<Longrightarrow> slot_of s' = slot_of s"
  using unchanged_slots [of s s'] by (auto simp: slot_of_def fun_eq_iff)

lemma unchanged_updated: "unchanged s s' \<Longrightarrow> updated E {} s s'"
  using unchanged_slots [of s s'] unchanged_slot_of [of s s']
  by (simp add: updated_none) (simp add: unchanged_def)

lemma updated_valid: "updated E ids s s' \<Longrightarrow> slot_of s' j = None \<longleftrightarrow> slot_of s j = None"
  by (cases "j \<in> ids") (auto simp: updated_def)

lemma updated_at:
  "updated E ids s s' \<Longrightarrow> j \<in> ids \<Longrightarrow> slot_of s j = Some c \<Longrightarrow>
    \<exists>c'. slot_of s' j = Some c' \<and> same_setup c c' \<and> E (agent_counters s) c c'"
  unfolding updated_def by fastforce

lemma updated_trans:
  assumes first: "updated E {j} s s1" and rest: "updated E ids s1 s2" and "j \<notin> ids"
  shows "updated E (insert j ids) s s2"
proof -
  have s1: "slot_of s1 i = slot_of s i" if "i \<noteq> j" for i
    using first that by (simp add: updated_def)
  have s2: "slot_of s2 i = slot_of s1 i" if "i \<notin> ids" for i
    using rest that by (simp add: updated_def)
  have same: "agent_counters s1 = agent_counters s" "length (slots s1) = length (slots s)"
    using first by (simp_all add: updated_def)
  have changed: "\<exists>c c'. slot_of s i = Some c \<and> slot_of s2 i = Some c' \<and> same_setup c c' \<and>
      E (agent_counters s) c c'" if "i \<in> insert j ids" for i
  proof (cases "i = j")
    case True
    then show ?thesis using first s2 [OF assms(3)] by (simp add: updated_def)
  next
    case False
    then have "i \<in> ids" "slot_of s1 i = slot_of s i" using that s1 by simp_all
    then show ?thesis using rest same by (simp add: updated_def) metis
  qed
  have "slot_of s2 i = slot_of s i" if "i \<notin> insert j ids" for i
    using that s1 s2 by simp
  then show ?thesis
    using changed same rest unfolding updated_def by simp
qed

text \<open>The loop ended at the first invalid identifier, if there is one, with an exception.\<close>

definition reported :: "'w agent \<Rightarrow> c_int list \<Rightarrow> 'w agent \<Rightarrow> bool" where
  "reported s jids s' \<longleftrightarrow> pending_exception s' =
    (if leading_valid s jids = jids then pending_exception s else Some ''Invalid event set id.'')"

context slot_operation
begin

lemma on_slot_spec:
  assumes inv: "agent_inv P s" and c: "slot_of s jid = Some c" and en: "enabled c"
  shows "returns (on_slot op (nat (sint jid)) s) (\<lambda>s'. agent_inv P s' \<and> updated effect {jid} s s' \<and>
    pending_exception s' = pending_exception s)"
proof -
  let ?i = "nat (sint jid)"
  have map: "slot_map s ?i = Some c" and pos: "0 \<le> sint jid"
    using c by (auto simp: slot_of_def split: if_splits)
  have i: "?i < length (slots s)" using map by (auto simp: slot_map_def split: if_splits)
  obtain e where e: "buf_get (all_eventsets s) ?i = Done e" "config e = c" "valid e"
    using slot_of_get [OF c] by auto
  have ok: "config_ok P c" using slot_map_config_ok [OF inv map] .
  have "returns (obind (op (agent_counters s) c (world s)) (\<lambda>(c', w').
      store_slot ?i (e\<lparr>config := c'\<rparr>) (s\<lparr>world := w'\<rparr>)))
    (\<lambda>s'. agent_inv P s' \<and> updated effect {jid} s s' \<and> pending_exception s' = pending_exception s)"
    unfolding returns_bind
  proof (rule returns_mono [OF op_law [OF ok en]], clarify)
    fix c' w'
    assume c': "config_ok P c'" "same_setup c c'" "effect (agent_counters s) c c'"
    let ?s = "s\<lparr>world := w'\<rparr>"
    have u: "unchanged s ?s" by (simp add: unchanged_def)
    have slot: "e\<lparr>config := c'\<rparr> = \<lparr>config = c', valid = True\<rparr>" using e(3) by simp
    obtain s' where s': "store_slot ?i \<lparr>config = c', valid = True\<rparr> ?s = Done s'" "agent_inv P s'"
      "slot_map s' = (slot_map s)(?i \<mapsto> c')" "length (slots s') = length (slots s)"
      "pending_exception s' = pending_exception s" "agent_counters s' = agent_counters s"
      using store_slot_spec [of P ?s ?i True c'] unchanged_inv [OF u inv] unchanged_slots [OF u] i c'(1)
      by auto
    have "j = jid" if "nat (sint j) = ?i" "\<not> sint j < 0" for j :: c_int
    proof -
      have "sint j = sint jid" using that pos by linarith
      then have "(word_of_int (sint j) :: c_int) = word_of_int (sint jid)" by (simp only:)
      then show ?thesis by simp
    qed
    then have "updated effect {jid} s s'"
      using s' c c' pos by (auto simp: updated_def slot_of_def)
    with s' show "returns (store_slot ?i (e\<lparr>config := c'\<rparr>) (s\<lparr>world := w'\<rparr>))
      (\<lambda>s'. agent_inv P s' \<and> updated effect {jid} s s' \<and> pending_exception s' = pending_exception s)"
      by (simp only: slot returns_simps simp_thms)
  qed
  then show ?thesis by (simp add: on_slot_def e)
qed

lemma for_ids_spec:
  assumes jvm: "jvm_delivers P" and inv: "agent_inv P s" and "distinct (leading_valid s jids)"
    and "\<forall>j \<in> set (leading_valid s jids). \<forall>c. slot_of s j = Some c \<longrightarrow> enabled c"
  shows "returns (for_ids P op jids s) (\<lambda>s'. agent_inv P s' \<and>
    updated effect (set (leading_valid s jids)) s s' \<and>
    pending_exception s' = (if leading_valid s jids = jids then pending_exception s
      else Some INVALID_ID_MESSAGE))"
  using assms(2-)
proof (induction jids arbitrary: s)
  case Nil
  then show ?case by (simp add: leading_valid_def updated_none)
next
  case (Cons j jids)
  show ?case
  proof (cases "slot_of s j")
    case None
    have "returns (do_throw P INVALID_ID_MESSAGE s) (\<lambda>s'. agent_inv P s' \<and> updated effect {} s s' \<and>
        pending_exception s' = Some INVALID_ID_MESSAGE)"
      by (rule returns_mono [OF throw_invalid [OF jvm Cons.prems(1)]])
         (auto simp: threw_def unchanged_updated)
    then show ?thesis
      using None by (simp add: is_valid_id_eq [OF Cons.prems(1)] leading_valid_def)
  next
    case (Some c)
    let ?rest = "leading_valid s jids"
    have good: "leading_valid s (j # jids) = j # ?rest" "j \<notin> set ?rest" "distinct ?rest"
      using Cons.prems(2) Some by (simp_all add: leading_valid_def)
    have en: "enabled c" using Cons.prems(3) Some good(1) by simp
    have "returns (obind (on_slot op (nat (sint j)) s) (\<lambda>s'. for_ids P op jids s'))
      (\<lambda>s'. agent_inv P s' \<and> updated effect (insert j (set ?rest)) s s' \<and>
        pending_exception s' = (if ?rest = jids then pending_exception s else Some INVALID_ID_MESSAGE))"
      unfolding returns_bind
    proof (rule returns_mono [OF on_slot_spec [OF Cons.prems(1) Some en]], elim conjE)
      fix s1
      assume s1: "agent_inv P s1" "updated effect {j} s s1" "pending_exception s1 = pending_exception s"
      have lv: "leading_valid s1 jids = ?rest"
        using updated_valid [OF s1(2)] by (simp add: leading_valid_def)
      have "slot_of s1 i = slot_of s i" if "i \<in> set ?rest" for i
        using s1(2) that good(2) by (auto simp: updated_def)
      then have "returns (for_ids P op jids s1) (\<lambda>s'. agent_inv P s' \<and>
          updated effect (set (leading_valid s1 jids)) s1 s' \<and>
          pending_exception s' = (if leading_valid s1 jids = jids then pending_exception s1
            else Some INVALID_ID_MESSAGE))"
        using Cons.prems(3) good lv by (intro Cons.IH s1(1)) simp_all
      then show "returns (for_ids P op jids s1) (\<lambda>s'. agent_inv P s' \<and>
          updated effect (insert j (set ?rest)) s s' \<and>
          pending_exception s' = (if ?rest = jids then pending_exception s else Some INVALID_ID_MESSAGE))"
        by (rule returns_mono) (use s1 good(2) lv in \<open>auto intro: updated_trans\<close>)
    qed
    then show ?thesis
      using Some by (simp add: is_valid_id_eq [OF Cons.prems(1)] good)
  qed
qed

lemma on_event_sets_spec:
  assumes jvm: "jvm_delivers P" and inv: "agent_inv P s" and "distinct (leading_valid s jids)"
    and "\<forall>j \<in> set (leading_valid s jids). \<forall>c. slot_of s j = Some c \<longrightarrow> enabled c"
  shows "returns (on_event_sets P op jids s) (\<lambda>s'. agent_inv P s' \<and>
    updated effect (set (leading_valid s jids)) s s' \<and> reported s jids s')"
proof (cases "jids = []")
  case True
  then show ?thesis using inv by (simp add: on_event_sets_def leading_valid_def updated_none reported_def)
next
  case False
  obtain acc s1 where e: "GetIntArrayElements P jids s = (acc, s1)"
    by (metis prod.exhaust)
  have acc using GetIntArrayElements_result(1) [OF e] jvm by (simp add: jvm_delivers_def)
  have u: "unchanged s s1" using e by (rule GetIntArrayElements_result)
  have same: "leading_valid s1 jids = leading_valid s jids" "slot_of s1 = slot_of s"
    "pending_exception s1 = pending_exception s" "agent_counters s1 = agent_counters s"
    "length (slots s1) = length (slots s)"
    using u unchanged_slots [OF u] unchanged_slot_of [OF u] GetIntArrayElements_result(3) [OF e]
    by (simp_all add: leading_valid_def) (simp add: unchanged_def)
  have "returns (for_ids P op jids s1) (\<lambda>s'. agent_inv P s' \<and>
      updated effect (set (leading_valid s1 jids)) s1 s' \<and>
      pending_exception s' = (if leading_valid s1 jids = jids then pending_exception s1
        else Some INVALID_ID_MESSAGE))"
    using assms same unchanged_inv [OF u inv] by (intro for_ids_spec) simp_all
  moreover have "updated effect X s1 s' = updated effect X s s'" for X s'
    by (simp add: updated_def same)
  moreover have "on_event_sets P op jids s = for_ids P op jids s1"
    using False \<open>acc\<close> by (simp add: on_event_sets_def e)
  ultimately show ?thesis
    by (simp only: same reported_def INVALID_ID_MESSAGE_def)
qed

end

interpretation starting: slot_operation P "start_one P" "\<lambda>c. True"
    "overwrites P UBENCH_SNAPSHOT_TYPE_START" for P
  by unfold_locales (rule start_one_spec)

interpretation sampling: slot_operation P "sample_one P user_id" "\<lambda>c. True"
    "overwrites P user_id" for P user_id
  by unfold_locales (rule sample_one_spec)

interpretation stopping: slot_operation P "stop_one P" "\<lambda>c. data_index c < data_size c"
    "appends P UBENCH_SNAPSHOT_TYPE_END" for P
  by unfold_locales (rule stop_one_spec)

interpretation resetting: slot_operation P reset_one "\<lambda>c. True"
    "\<lambda>cs c c'. snapshot_log c' = []" for P
  by unfold_locales (rule reset_one_spec)

section \<open>What the native methods guarantee\<close>

text \<open>
  C9: \<open>start\<close> and \<open>sample\<close> measure the listed event sets in turn, up to the first invalid identifier,
  which throws. Each of them gets one new snapshot of type -1, or with the user's number, appended
  to its log; a full log first loses its last two snapshots. \<open>reset\<close> empties the logs in the same
  way. The capacity and the events of the sets and everything of the other sets stay as they are,
  and nothing is written outside the arrays.
\<close>

theorem start_sample_spec:
  assumes "jvm_delivers P" and "agent_inv P s" and "distinct (leading_valid s jids)"
  shows "returns (Measurement_start P jids s) (\<lambda>s'. agent_inv P s' \<and>
      updated (overwrites P (- 1)) (set (leading_valid s jids)) s s' \<and> reported s jids s') \<and>
    returns (Measurement_sample P juser_id jids s) (\<lambda>s'. agent_inv P s' \<and>
      updated (overwrites P juser_id) (set (leading_valid s jids)) s s' \<and> reported s jids s') \<and>
    returns (Measurement_reset P jids s) (\<lambda>s'. agent_inv P s' \<and>
      updated (\<lambda>cs c c'. snapshot_log c' = []) (set (leading_valid s jids)) s s' \<and> reported s jids s')"
  using starting.on_event_sets_spec [OF assms] sampling.on_event_sets_spec [OF assms]
    resetting.on_event_sets_spec [OF assms]
  by (simp add: Measurement_start_def Measurement_sample_def Measurement_reset_def UBENCH_SNAPSHOT_TYPE_START_def)

lemma sample_leading: "leading_valid sample_agent [0] = [0]"
  by (simp add: leading_valid_def sample_agent_slot)

theorem start_sample_spec_witness:
  "returns (Measurement_start sample_platform [0] sample_agent) (\<lambda>s'.
    \<exists>c. slot_of s' 0 = Some c \<and> length (snapshot_log c) = 1)"
proof -
  have "snapshot_log sample_papi_config = []" "data_size sample_papi_config = 2"
    by (simp_all add: snapshot_log_def sample_papi_config_def)
  then have "length (snapshot_log c') = 1"
    if "overwrites sample_platform (- 1) cs sample_papi_config c'" for cs c'
    using that by (auto simp: overwrites_def log_append_def)
  then have "\<exists>c. slot_of s' 0 = Some c \<and> length (snapshot_log c) = 1"
    if "updated (overwrites sample_platform (- 1)) {0} sample_agent s'" for s'
    using that unfolding updated_def by (auto simp: sample_agent_slot)
  then show ?thesis
    using start_sample_spec [OF sample_jvm sample_agent_inv, of "[0]", THEN conjunct1]
    by (auto simp: sample_leading elim!: returns_mono)
qed



section \<open>Where \<open>stop\<close> leaves the array\<close>

lemma index_of_slot:
  "agent_inv P s \<Longrightarrow> slot_of s j = Some c \<Longrightarrow> config_ok P c \<and> length (snapshot_log c) = data_index c"
  using slot_map_config_ok log_length by (fastforce simp: slot_of_def split: if_splits)

lemma stop_faults:
  assumes jvm: "jvm_delivers P" and inv: "agent_inv P s" and c: "slot_of s j = Some c"
    and full: "data_size c \<le> length (snapshot_log c)"
  shows "Measurement_stop P (j # jids) s = Fault OutOfBounds"
proof -
  obtain acc s1 where e: "GetIntArrayElements P (j # jids) s = (acc, s1)"
    by (metis prod.exhaust)
  have acc using GetIntArrayElements_result(1) [OF e] jvm by (simp add: jvm_delivers_def)
  have u: "unchanged s s1" using e by (rule GetIntArrayElements_result)
  have c1: "slot_of s1 j = Some c" using unchanged_slot_of [OF u] c by simp
  obtain el where el: "buf_get (all_eventsets s1) (nat (sint j)) = Done el" "config el = c"
    using slot_of_get [OF c1] by auto
  have ok: "config_ok P c" "length (snapshot_log c) = data_index c"
    using index_of_slot [OF inv c] by auto
  then have "buf_get (data c) (data_index c) = Fault OutOfBounds"
    using full by (auto simp: config_ok_def is_live_iff)
  then show ?thesis
    using \<open>acc\<close> c1
    by (simp add: Measurement_stop_def on_event_sets_def e is_valid_id_eq [OF unchanged_inv [OF u inv]]
        on_slot_def el stop_one_def record_snapshot_def)
qed

fun sample_times :: "'w platform \<Rightarrow> c_int \<Rightarrow> c_int \<Rightarrow> nat \<Rightarrow> 'w agent \<Rightarrow> 'w agent outcome" where
  "sample_times P user_id j 0 s = Done s"
| "sample_times P user_id j (Suc n) s =
     obind (Measurement_sample P user_id [j] s) (\<lambda>s'. sample_times P user_id j n s')"

lemma one_overwrite:
  assumes jvm: "jvm_delivers P" and inv: "agent_inv P s" and c: "slot_of s j = Some c"
    and room: "length (snapshot_log c) < data_size c"
  shows "returns (Measurement_sample P user_id [j] s) (\<lambda>s'. agent_inv P s' \<and>
      (\<exists>c'. slot_of s' j = Some c' \<and> data_size c' = data_size c \<and>
        length (snapshot_log c') = Suc (length (snapshot_log c))))"
    "returns (Measurement_start P [j] s) (\<lambda>s'. agent_inv P s' \<and>
      (\<exists>c'. slot_of s' j = Some c' \<and> data_size c' = data_size c \<and>
        length (snapshot_log c') = Suc (length (snapshot_log c))))"
proof -
  have lv: "leading_valid s [j] = [j]" by (simp add: leading_valid_def c)
  have grow: "data_size c' = data_size c \<and> length (snapshot_log c') = Suc (length (snapshot_log c))"
    if "same_setup c c'" "overwrites P type cs c c'" for type cs c'
    using that room by (auto simp: overwrites_def log_append_def dest: same_setup_members)
  show "returns (Measurement_sample P user_id [j] s) (\<lambda>s'. agent_inv P s' \<and>
      (\<exists>c'. slot_of s' j = Some c' \<and> data_size c' = data_size c \<and>
        length (snapshot_log c') = Suc (length (snapshot_log c))))"
    unfolding Measurement_sample_def
    by (rule returns_mono [OF sampling.on_event_sets_spec [OF jvm inv]])
       (simp_all add: lv, use grow in \<open>blast dest: updated_at [OF _ singletonI c]\<close>)
  show "returns (Measurement_start P [j] s) (\<lambda>s'. agent_inv P s' \<and>
      (\<exists>c'. slot_of s' j = Some c' \<and> data_size c' = data_size c \<and>
        length (snapshot_log c') = Suc (length (snapshot_log c))))"
    unfolding Measurement_start_def
    by (rule returns_mono [OF starting.on_event_sets_spec [OF jvm inv]])
       (simp_all add: lv, use grow in \<open>blast dest: updated_at [OF _ singletonI c]\<close>)
qed

lemma sample_times_spec:
  assumes jvm: "jvm_delivers P"
  shows "agent_inv P s \<Longrightarrow> slot_of s j = Some c \<Longrightarrow> length (snapshot_log c) + n \<le> data_size c \<Longrightarrow>
    returns (sample_times P user_id j n s) (\<lambda>s'. agent_inv P s' \<and>
      (\<exists>c'. slot_of s' j = Some c' \<and> data_size c' = data_size c \<and>
        length (snapshot_log c') = length (snapshot_log c) + n))"
proof (induction n arbitrary: s c)
  case 0
  then show ?case by simp
next
  case (Suc n)
  have "length (snapshot_log c) < data_size c" using Suc.prems(3) by simp
  note one = one_overwrite(1) [OF jvm Suc.prems(1,2) this]
  show ?case
    unfolding sample_times.simps returns_bind
  proof (rule returns_mono [OF one], elim conjE exE)
    fix s1 c1
    assume s1: "agent_inv P s1" "slot_of s1 j = Some c1" and c1: "data_size c1 = data_size c"
      "length (snapshot_log c1) = Suc (length (snapshot_log c))"
    have "returns (sample_times P user_id j n s1) (\<lambda>s'. agent_inv P s' \<and>
      (\<exists>c'. slot_of s' j = Some c' \<and> data_size c' = data_size c1 \<and>
        length (snapshot_log c') = length (snapshot_log c1) + n))"
      using Suc.prems(3) c1 by (intro Suc.IH [OF s1]) simp
    then show "returns (sample_times P user_id j n s1) (\<lambda>s'. agent_inv P s' \<and>
      (\<exists>c'. slot_of s' j = Some c' \<and> data_size c' = data_size c \<and>
        length (snapshot_log c') = length (snapshot_log c) + Suc n))"
      by (rule returns_mono) (use c1 in auto)
  qed
qed

text \<open>A start, samples until the log is full, and a stop.\<close>

lemma overrun_by_samples:
  assumes "jvm_delivers P" and "agent_inv P s" and "slot_of s j = Some c" and empty: "snapshot_log c = []"
  shows "obind (Measurement_start P [j] s) (\<lambda>s1.
    obind (sample_times P user_id j (data_size c - 1) s1) (\<lambda>s2. Measurement_stop P [j] s2)) =
    Fault OutOfBounds"
proof -
  have size: "2 \<le> data_size c" using index_of_slot [OF assms(2,3)] by (simp add: config_ok_def)
  then have "length (snapshot_log c) < data_size c" using empty by simp
  from one_overwrite(2) [OF assms(1-3) this] obtain s1 c1 where s1: "Measurement_start P [j] s = Done s1"
    "agent_inv P s1" "slot_of s1 j = Some c1" "data_size c1 = data_size c"
    "length (snapshot_log c1) = 1"
    using empty by (auto simp: returns_iff)
  then obtain s2 c2 where s2: "sample_times P user_id j (data_size c - 1) s1 = Done s2"
    "agent_inv P s2" "slot_of s2 j = Some c2" "data_size c2 = data_size c"
    "length (snapshot_log c2) = data_size c"
    using sample_times_spec [OF assms(1) s1(2,3), of "data_size c - 1" user_id] size
    by (auto simp: returns_iff)
  have "Measurement_stop P [j] s2 = Fault OutOfBounds"
    using s2(4,5) by (intro stop_faults [OF assms(1) s2(2,3)]) simp
  then show ?thesis using s1(1) s2(1) by simp
qed

section \<open>Repeated measurements\<close>

text \<open>
  \<open>n\<close> measurements of one event set, with all pairs of snapshots they took. The snapshot an
  operation took is the last one of the log.
\<close>

definition latest :: "'w agent \<Rightarrow> c_int \<Rightarrow> snapshot" where
  "latest s j = (case slot_of s j of None \<Rightarrow> zero_snapshot | Some c \<Rightarrow> last (snapshot_log c))"

fun measure_times ::
    "'w platform \<Rightarrow> c_int \<Rightarrow> nat \<Rightarrow> 'w agent \<Rightarrow> ('w agent \<times> (snapshot \<times> snapshot) list) outcome"
where
  "measure_times P j 0 s = Done (s, [])"
| "measure_times P j (Suc n) s =
     obind (measure_times P j n s) (\<lambda>(s1, history).
     obind (Measurement_start P [j] s1) (\<lambda>s2.
     obind (Measurement_stop P [j] s2) (\<lambda>s3.
     Done (s3, history @ [(latest s2 j, latest s3 j)]))))"

text \<open>The measurements that an event set for \<open>m\<close> measurements remembers.\<close>

definition retained :: "nat \<Rightarrow> 'a list \<Rightarrow> 'a list" where
  "retained m history =
    (if length history \<le> m then history else take (m - 1) history @ [last history])"

fun pair_log :: "(snapshot \<times> snapshot) list \<Rightarrow> snapshot list" where
  "pair_log [] = []"
| "pair_log ((a, b) # ps) = a # b # pair_log ps"

lemma pair_log_append: "pair_log (ps @ qs) = pair_log ps @ pair_log qs"
  by (induction ps rule: pair_log.induct) auto

lemma pair_log_length: "length (pair_log ps) = 2 * length ps"
  by (induction ps rule: pair_log.induct) auto

lemma pair_log_take: "take (2 * n) (pair_log ps) = pair_log (take n ps)"
proof (induction ps arbitrary: n rule: pair_log.induct)
  case (2 a b ps)
  then show ?case by (cases n) auto
qed simp

lemma retained_length: "0 < m \<Longrightarrow> length (retained m h) = min m (length h)"
  by (simp add: retained_def)

lemma retained_snoc:
  assumes "0 < m"
  shows "retained m (h @ [p]) = (if length h < m then h @ [p] else take (m - 1) (retained m h) @ [p])"
  using assms by (auto simp: retained_def min_def)

lemma log_append_pair:
  assumes "0 < m" and "xs = pair_log (retained m h)"
  shows "log_append (2 * m) xs a @ [b] = pair_log (retained m (h @ [(a, b)]))"
proof (cases "length h < m")
  case True
  then show ?thesis
    using assms by (simp add: log_append_def retained_snoc retained_def pair_log_append pair_log_length)
next
  case False
  have "2 * m - 2 = 2 * (m - 1)" by simp
  then have "take (2 * m - 2) xs = pair_log (take (m - 1) (retained m h))"
    using assms(2) by (simp only: pair_log_take)
  then show ?thesis
    using assms False
    by (simp add: log_append_def retained_snoc pair_log_append pair_log_length retained_length)
qed

lemma measure_once:
  assumes jvm: "jvm_delivers P" and inv: "agent_inv P s" and c: "slot_of s j = Some c"
    and log: "snapshot_log c = pair_log (retained m h)" and m: "data_size c = 2 * m"
  shows "returns (obind (Measurement_start P [j] s) (\<lambda>s2. obind (Measurement_stop P [j] s2) (\<lambda>s3.
      Done (s2, s3)))) (\<lambda>(s2, s3). agent_inv P s3 \<and>
    snap_type (latest s2 j) = - 1 \<and> snap_type (latest s3 j) = - 2 \<and>
    (\<exists>c'. slot_of s3 j = Some c' \<and> same_setup c c' \<and>
      snapshot_log c' = pair_log (retained m (h @ [(latest s2 j, latest s3 j)]))))"
proof -
  have ok: "config_ok P c" using index_of_slot [OF inv c] by simp
  then have m0: "0 < m" using m by (simp add: config_ok_def)
  have lv: "leading_valid s [j] = [j]" by (simp add: leading_valid_def c)
  obtain s2 where s2: "Measurement_start P [j] s = Done s2" "agent_inv P s2"
    and up2: "updated (overwrites P UBENCH_SNAPSHOT_TYPE_START) {j} s s2"
    using starting.on_event_sets_spec [OF jvm inv, of "[j]"]
    by (auto simp: Measurement_start_def lv returns_iff)
  from updated_at [OF up2 _ c] obtain c2 a where c2: "slot_of s2 j = Some c2" "same_setup c c2"
    "snapshot_log c2 = log_append (2 * m) (snapshot_log c) a" "snap_type a = - 1"
    using m by (auto simp: overwrites_def fills_def UBENCH_SNAPSHOT_TYPE_START_def)
  have a: "latest s2 j = a" by (simp add: latest_def c2(1,3) log_append_def)
  have len: "length (snapshot_log c) \<le> 2 * m" "even (length (snapshot_log c))"
    using log m0 by (simp_all add: pair_log_length retained_length)
  moreover have "length (snapshot_log c2) =
      Suc (if 2 * m \<le> length (snapshot_log c) then 2 * m - 2 else length (snapshot_log c))"
    by (simp add: c2(3) log_append_def)
  moreover have "data_size c2 = 2 * m"
    using m same_setup_members [OF c2(2)] by simp
  ultimately have "length (snapshot_log c2) < data_size c2"
    using m0 by (simp split: if_splits) presburger
  then have room: "data_index c2 < data_size c2"
    using index_of_slot [OF s2(2) c2(1)] by simp
  have lv2: "leading_valid s2 [j] = [j]" by (simp add: leading_valid_def c2(1))
  obtain s3 where s3: "Measurement_stop P [j] s2 = Done s3" "agent_inv P s3"
    and up3: "updated (appends P UBENCH_SNAPSHOT_TYPE_END) {j} s2 s3"
    using stopping.on_event_sets_spec [OF jvm s2(2), of "[j]"] room
    by (auto simp: Measurement_stop_def lv2 c2(1) returns_iff)
  from updated_at [OF up3 _ c2(1)] obtain c3 b where c3: "slot_of s3 j = Some c3" "same_setup c2 c3"
    "snapshot_log c3 = snapshot_log c2 @ [b]" "snap_type b = - 2"
    by (auto simp: appends_def fills_def UBENCH_SNAPSHOT_TYPE_END_def)
  have b: "latest s3 j = b" by (simp add: latest_def c3(1,3))
  have "snapshot_log c3 = pair_log (retained m (h @ [(a, b)]))"
    using log_append_pair [OF m0 log] c2(3) c3(3) by simp
  then show ?thesis
    using s2 s3 c3 c2 a b by (auto intro: same_setup_trans)
qed

lemma measure_times_spec:
  assumes jvm: "jvm_delivers P" and inv: "agent_inv P s" and c: "slot_of s j = Some c"
    and empty: "snapshot_log c = []" and m: "data_size c = 2 * m"
  shows "returns (measure_times P j n s) (\<lambda>(s', history). agent_inv P s' \<and> length history = n \<and>
    (\<forall>(a, b) \<in> set history. snap_type a = - 1 \<and> snap_type b = - 2) \<and>
    (\<exists>c'. slot_of s' j = Some c' \<and> same_setup c c' \<and>
      snapshot_log c' = pair_log (retained m history)))"
proof (induction n)
  case 0
  then show ?case using inv c empty by (simp add: retained_def)
next
  case (Suc n)
  then obtain s1 h c1 where run: "measure_times P j n s = Done (s1, h)"
    and s1: "agent_inv P s1" "slot_of s1 j = Some c1" "length h = n"
    and types: "\<forall>(a, b) \<in> set h. snap_type a = - 1 \<and> snap_type b = - 2"
    and c1: "same_setup c c1" "snapshot_log c1 = pair_log (retained m h)"
    by (auto simp: returns_iff)
  have "data_size c1 = 2 * m" using m same_setup_members [OF c1(1)] by simp
  from measure_once [OF jvm s1(1,2) c1(2) this]
  obtain s2 s3 c3 where r: "Measurement_start P [j] s1 = Done s2" "Measurement_stop P [j] s2 = Done s3"
    "agent_inv P s3" "snap_type (latest s2 j) = - 1" "snap_type (latest s3 j) = - 2"
    "slot_of s3 j = Some c3" "same_setup c1 c3"
    "snapshot_log c3 = pair_log (retained m (h @ [(latest s2 j, latest s3 j)]))"
    by (auto simp: returns_iff obind_Done_iff)
  then show ?case
    using run types c1(1) s1(3) by (auto intro: same_setup_trans)
qed

end
