(* ===== verification/Results.thy ===== *)
theory Results
  imports Recording
begin

text \<open>
  Reading results (\<open>measurement.c\<close>, lines 563 to 768): the pairing of start and stop snapshots, the
  native methods \<open>getResults\<close> and \<open>getRawResults\<close>, and those that answer which events exist.
\<close>

section \<open>Looking for snapshots\<close>

fun find_matching_from :: "snapshot buf \<Rightarrow> size_t \<Rightarrow> nat \<Rightarrow> c_int \<Rightarrow> size_t outcome" where
  "find_matching_from snapshots i 0 type = Done SIZE_NOT_FOUND"
| "find_matching_from snapshots i (Suc n) type =
     obind (buf_get snapshots i) (\<lambda>s.
       if snap_type s = type then Done i else find_matching_from snapshots (i + 1) n type)"

text \<open>The loop runs from \<open>start_index\<close> while the index is below \<open>max_index\<close>.\<close>

definition find_first_matching_snapshot_type ::
    "snapshot buf \<Rightarrow> size_t \<Rightarrow> size_t \<Rightarrow> c_int \<Rightarrow> size_t outcome" where
  "find_first_matching_snapshot_type snapshots start_index max_index type =
    (if start_index = SIZE_NOT_FOUND then Done SIZE_NOT_FOUND
     else find_matching_from snapshots start_index (max_index - start_index) type)"

section \<open>The Java object with the results\<close>

record benchmark_results =
  result_names :: "string option list"
  data_rows :: "c_long list list"

text \<open>
  The loop that fills one row, over the events \<open>ei\<close>, \dots, \<open>ei + n - 1\<close>; \<open>get\<close> is the call of the
  getter of an event.
\<close>

fun row_of_values ::
    "(ubench_event_info_t \<Rightarrow> c_long outcome) \<Rightarrow> ubench_event_info_t buf \<Rightarrow> size_t \<Rightarrow> nat \<Rightarrow>
      c_long list outcome" where
  "row_of_values get events ei 0 = Done []"
| "row_of_values get events ei (Suc n) =
     obind (buf_get events ei) (\<lambda>event.
     obind (get event) (\<lambda>value.
     obind (row_of_values get events (ei + 1) n) (\<lambda>values. Done (value # values))))"

text \<open>The loop that fills the array of names.\<close>

fun names_of_events ::
    "'w platform \<Rightarrow> ubench_event_info_t buf \<Rightarrow> size_t \<Rightarrow> nat \<Rightarrow> 'w agent \<Rightarrow>
      (string option list \<times> 'w agent) outcome" where
  "names_of_events P events i 0 s = Done ([], s)"
| "names_of_events P events i (Suc n) s =
     obind (buf_get events i) (\<lambda>event.
     case call_ext (jni_NewStringUTF P (event_name event)) s of (name, s1) \<Rightarrow>
     obind (names_of_events P events (i + 1) n s1) (\<lambda>(names, s2). Done (name # names, s2)))"

text \<open>
  The \<open>while\<close> loop of \<open>getResults\<close>. Each round takes one unit of the first argument; running out
  of it is \<open>Hang\<close>.
\<close>

fun rows_of_results ::
    "nat \<Rightarrow> ('w, 'x) papi_platform_scheme \<Rightarrow> c_long \<Rightarrow> benchmark_configuration_t \<Rightarrow> size_t \<Rightarrow> size_t \<Rightarrow>
      c_long list list outcome" where
  "rows_of_results 0 P freq c i i_max = Hang"
| "rows_of_results (Suc fuel) P freq c i i_max =
     (if i < i_max then
        obind (find_first_matching_snapshot_type (data c) i i_max UBENCH_SNAPSHOT_TYPE_START)
          (\<lambda>start_index.
        obind (find_first_matching_snapshot_type (data c) start_index i_max UBENCH_SNAPSHOT_TYPE_END)
          (\<lambda>end_index.
        if end_index = SIZE_NOT_FOUND then Done []
        else
          obind (buf_get (data c) start_index) (\<lambda>start.
          obind (buf_get (data c) end_index) (\<lambda>end'.
          obind (row_of_values (call_op_get P freq start end') (used_events c) 0 (used_events_count c))
            (\<lambda>event_values.
          obind (rows_of_results fuel P freq c (size_add end_index 1) i_max) (\<lambda>rows.
          Done (event_values # rows)))))))
      else Done [])"

text \<open>The loop of \<open>getRawResults\<close> over the snapshots \<open>i\<close>, \dots, \<open>i + n - 1\<close>.\<close>

fun rows_of_raw_results ::
    "('w, 'x) papi_platform_scheme \<Rightarrow> c_long \<Rightarrow> benchmark_configuration_t \<Rightarrow> size_t \<Rightarrow> nat \<Rightarrow>
      c_long list list outcome" where
  "rows_of_raw_results P freq c i 0 = Done []"
| "rows_of_raw_results P freq c i (Suc n) =
     obind (buf_get (data c) i) (\<lambda>value.
     obind (row_of_values (call_op_get_raw P freq value) (used_events c) 0 (used_events_count c))
       (\<lambda>event_values.
     obind (rows_of_raw_results P freq c (i + 1) n) (\<lambda>rows.
     Done ((event_values @ [long_of_int (snap_type value)]) # rows))))"

text \<open>
  The part that both methods share, from the valid configuration on. The array of names has
  \<open>extra\<close> names at the end; \<open>rows\<close> is the loop that adds the rows. A null array that the code
  writes to without a check is \<open>Fault NullDeref\<close>.
\<close>

definition build_results ::
    "'w platform \<Rightarrow> string list \<Rightarrow> (benchmark_configuration_t \<Rightarrow> c_long list list outcome) \<Rightarrow>
      benchmark_configuration_t \<Rightarrow> 'w agent \<Rightarrow> (benchmark_results option \<times> 'w agent) outcome" where
  "build_results P extra rows c s =
    (case call_ext (jni_FindClass P ''cz/cuni/mff/d3s/perf/BenchmarkResultsImpl'') s of
       (results_class, s1) \<Rightarrow>
     if \<not> results_class then Done (None, s1)
     else case call_ext (jni_FindClass P ''java/lang/String'') s1 of (string_class, s2) \<Rightarrow>
     if \<not> string_class then Done (None, s2)
     else case call_ext (jni_NewObjectArray P (used_events_count c + length extra)) s2 of
       (jevent_names, s3) \<Rightarrow>
     if \<not> jevent_names \<and> 0 < used_events_count c + length extra then Fault NullDeref
     else obind (names_of_events P (used_events c) 0 (used_events_count c) s3) (\<lambda>(names, s4).
       case (case extra of
           [] \<Rightarrow> ([], s4)
         | name # _ \<Rightarrow> (case call_ext (jni_NewStringUTF P (Some name)) s4 of (n, s') \<Rightarrow> ([n], s')))
       of (extra_names, s5) \<Rightarrow>
       case call_ext (jni_GetMethodID P ''cz/cuni/mff/d3s/perf/BenchmarkResultsImpl'' ''<init>''
           ''([Ljava/lang/String;)V'') s5 of (constructor, s6) \<Rightarrow>
       if \<not> constructor then Done (None, s6)
       else case call_ext (jni_NewObject P ''cz/cuni/mff/d3s/perf/BenchmarkResultsImpl'') s6 of
         (jresults, s7) \<Rightarrow>
       if \<not> jresults then Done (None, s7)
       else case call_ext (jni_NewLongArray P (used_events_count c + length extra)) s7 of
         (event_values, s8) \<Rightarrow>
       if \<not> event_values then Done (None, s8)
       else case call_ext (jni_GetMethodID P ''cz/cuni/mff/d3s/perf/BenchmarkResultsImpl''
           ''addDataRow'' ''([J)V'') s8 of (add_data_method, s9) \<Rightarrow>
       if \<not> add_data_method then Done (None, s9)
       else obind (rows c) (\<lambda>rs.
         Done (Some \<lparr>result_names = names @ extra_names, data_rows = rs\<rparr>, s9))))"

definition with_valid_slot ::
    "'w platform \<Rightarrow> c_int \<Rightarrow>
      (benchmark_configuration_t \<Rightarrow> 'w agent \<Rightarrow> (benchmark_results option \<times> 'w agent) outcome) \<Rightarrow>
      'w agent \<Rightarrow> (benchmark_results option \<times> 'w agent) outcome" where
  "with_valid_slot P jid f s =
    obind (is_valid_id s jid) (\<lambda>ok.
      if \<not> ok then obind (do_throw P INVALID_ID_MESSAGE s) (\<lambda>s1. Done (None, s1))
      else obind (buf_get (all_eventsets s) (nat (sint jid))) (\<lambda>e. f (config e) s))"

definition Measurement_getResults ::
    "'w platform \<Rightarrow> c_int \<Rightarrow> 'w agent \<Rightarrow> (benchmark_results option \<times> 'w agent) outcome" where
  "Measurement_getResults P jid s =
    with_valid_slot P jid
      (build_results P [] (\<lambda>c. rows_of_results (data_index c + 1) P (windows_timer_frequency s) c 0
        (data_index c))) s"

definition Measurement_getRawResults ::
    "'w platform \<Rightarrow> c_int \<Rightarrow> 'w agent \<Rightarrow> (benchmark_results option \<times> 'w agent) outcome" where
  "Measurement_getRawResults P jid s =
    with_valid_slot P jid
      (build_results P [''TYPE''] (\<lambda>c. rows_of_raw_results P (windows_timer_frequency s) c 0
        (data_index c))) s"

section \<open>Which events exist\<close>

text \<open>The description \<open>info\<close> is a local variable of which only the name is initialised, and read.\<close>

definition Measurement_isEventSupported :: "'w platform \<Rightarrow> string \<Rightarrow> 'w agent \<Rightarrow> bool \<times> 'w agent" where
  "Measurement_isEventSupported P jevent s =
    (case GetStringUTFChars P jevent s of (event, s1) \<Rightarrow>
     case call_ext (ubench_event_resolve P event (zero_event_info\<lparr>event_name := None\<rparr>)) s1 of
       ((result, info), s2) \<Rightarrow> (result, ReleaseStringUTFChars event s2))"

text \<open>The list in the making is the argument that the callback is given.\<close>

definition adding_supported_events_callback ::
    "'w platform \<Rightarrow> (string option list, 'w) event_info_iterator_callback_t" where
  "adding_supported_events_callback P name st =
    (case st of (event_list, w) \<Rightarrow>
     case jni_NewStringUTF P (Some name) w of (jname, w') \<Rightarrow> (False, event_list @ [jname], w'))"

definition Measurement_getSupportedEvents ::
    "'w platform \<Rightarrow> 'w agent \<Rightarrow> (string option list option \<times> 'w agent) outcome" where
  "Measurement_getSupportedEvents P s =
    (case call_ext (jni_FindClass P ''java/util/ArrayList'') s of (array_list_class, s1) \<Rightarrow>
     if \<not> array_list_class then Done (None, s1)
     else case call_ext (jni_FindClass P ''java/lang/String'') s1 of (string_class, s2) \<Rightarrow>
     if \<not> string_class then Done (None, s2)
     else case call_ext (jni_GetMethodID P ''java/util/ArrayList'' ''<init>'' ''()V'') s2 of
       (constructor, s3) \<Rightarrow>
     if \<not> constructor then Done (None, s3)
     else case call_ext (jni_GetMethodID P ''java/util/ArrayList'' ''add''
         ''(Ljava/lang/Object;)Z'') s3 of (add_method, s4) \<Rightarrow>
     if \<not> add_method then Done (None, s4)
     else case call_ext (jni_NewObject P ''java/util/ArrayList'') s4 of (jresults, s5) \<Rightarrow>
     if \<not> jresults then Done (None, s5)
     else case ubench_event_iterate P (Some (adding_supported_events_callback P)) ([], world s5) of
       None \<Rightarrow> Hang
     | Some (event_list, w) \<Rightarrow> Done (Some event_list, s5\<lparr>world := w\<rparr>))"

section \<open>Completed measurements\<close>

text \<open>
  The pairs that the results stand for: a start snapshot and the first stop snapshot after it;
  then the search goes on behind the stop.
\<close>

function completed :: "snapshot list \<Rightarrow> (snapshot \<times> snapshot) list" where
  "completed xs =
    (case dropWhile (\<lambda>s. snap_type s \<noteq> - 1) xs of
       [] \<Rightarrow> []
     | a # rest \<Rightarrow>
         (case dropWhile (\<lambda>s. snap_type s \<noteq> - 2) rest of
            [] \<Rightarrow> []
          | b # rest' \<Rightarrow> (a, b) # completed rest'))"
  by pat_completeness auto
termination
proof (relation "measure length")
  fix xs a rest b rest'
  assume "dropWhile (\<lambda>s. snap_type s \<noteq> - 1) xs = a # rest"
    and "dropWhile (\<lambda>s. snap_type s \<noteq> - 2) rest = (b :: snapshot) # rest'"
  then show "(rest', xs) \<in> measure length"
    using length_dropWhile_le [of "\<lambda>s. snap_type s \<noteq> - 1" xs]
      length_dropWhile_le [of "\<lambda>s. snap_type s \<noteq> - 2" rest] by simp
qed simp

declare completed.simps [simp del]

lemma dropWhile_case:
  "(case dropWhile (\<lambda>x. \<not> p x) xs of [] \<Rightarrow> z | a # r \<Rightarrow> f a r) =
    (let k = first_index p xs in if k < length xs then f (xs ! k) (drop (k + 1) xs) else z)"
  by (induction xs) (auto simp: Let_def)

lemma completed_unfold:
  "completed xs =
    (let k = first_index (\<lambda>s. snap_type s = - 1) xs in
     if k < length xs then
       let rest = drop (k + 1) xs; l = first_index (\<lambda>s. snap_type s = - 2) rest in
       if l < length rest then (xs ! k, rest ! l) # completed (drop (l + 1) rest) else []
     else [])"
  by (subst completed.simps) (simp only: dropWhile_case Let_def)

lemma find_matching_from_eq:
  "i + n \<le> length (cells b) \<Longrightarrow> find_matching_from b i n type =
    Done (let k = first_index (\<lambda>s. snap_type s = type) (take n (drop i (cells b))) in
      if k < n then i + k else SIZE_NOT_FOUND)"
proof (induction n arbitrary: i)
  case 0
  then show ?case by simp
next
  case (Suc n)
  then have "take (Suc n) (drop i (cells b)) = cells b ! i # take n (drop (i + 1) (cells b))"
    by (simp add: Cons_nth_drop_Suc [symmetric])
  then show ?case
    using Suc by (simp add: Let_def)
qed

lemma find_first_eq:
  assumes "start_index \<le> max_index" and "max_index \<le> length (cells b)"
    and "length (cells b) < 2147483648"
  shows "find_first_matching_snapshot_type b start_index max_index type =
    Done (let k = first_index (\<lambda>s. snap_type s = type) (drop start_index (take max_index (cells b))) in
      if k < max_index - start_index then start_index + k else SIZE_NOT_FOUND)"
proof -
  have "start_index \<noteq> SIZE_NOT_FOUND"
    using assms by (simp add: SIZE_NOT_FOUND_def)
  then show ?thesis
    using assms by (simp add: find_first_matching_snapshot_type_def find_matching_from_eq drop_take)
qed

lemma row_of_values_eq:
  assumes "\<And>e. e \<in> set (drop i (cells events)) \<Longrightarrow> get e = Done (v e)"
    and "i + n = length (cells events)"
  shows "row_of_values get events i n = Done (map v (drop i (cells events)))"
  using assms
proof (induction n arbitrary: i)
  case 0
  then show ?case by simp
next
  case (Suc n)
  have "drop i (cells events) = cells events ! i # drop (i + 1) (cells events)"
    using Suc.prems(2) by (simp add: Cons_nth_drop_Suc [symmetric])
  moreover from this have "get (cells events ! i) = Done (v (cells events ! i))"
    using Suc.prems(1) by simp
  moreover have "row_of_values get events (i + 1) n = Done (map v (drop (i + 1) (cells events)))"
    using Suc.prems calculation(1) by (intro Suc.IH) auto
  ultimately show ?case using Suc.prems(2) by simp
qed

section \<open>Values\<close>

definition value_of ::
    "('w, 'x) papi_platform_scheme \<Rightarrow> c_long \<Rightarrow> snapshot \<Rightarrow> snapshot \<Rightarrow> ubench_event_info_t \<Rightarrow> c_long"
where
  "value_of P freq start end' e = (case call_op_get P freq start end' e of Done v \<Rightarrow> v | _ \<Rightarrow> 0)"

definition raw_value_of ::
    "('w, 'x) papi_platform_scheme \<Rightarrow> c_long \<Rightarrow> snapshot \<Rightarrow> ubench_event_info_t \<Rightarrow> c_long" where
  "raw_value_of P freq s e = (case call_op_get_raw P freq s e of Done v \<Rightarrow> v | _ \<Rightarrow> 0)"

lemma getters_return:
  assumes e: "event_ok P b e" and a: "length (papi_events start) = UBENCH_MAX_PAPI_EVENTS"
    and b: "length (papi_events end') = UBENCH_MAX_PAPI_EVENTS"
  shows "call_op_get P freq start end' e = Done (value_of P freq start end' e)"
    "call_op_get_raw P freq start e = Done (raw_value_of P freq start e)"
proof -
  obtain g where g: "op_get e = Some g" "op_get_raw e = Some g"
    using e resolved_getters by (auto simp: event_ok_def)
  have i: "papi_index e < UBENCH_MAX_PAPI_EVENTS" using e by (simp add: event_ok_def)
  have "\<exists>v. call_op_get P freq start end' e = Done v"
    using g i a b by (cases g) (simp_all add: call_op_get_def getter_papi_def)
  then show "call_op_get P freq start end' e = Done (value_of P freq start end' e)"
    by (auto simp: value_of_def)
  have "\<exists>v. call_op_get_raw P freq start e = Done v"
    using g i a by (cases g) (simp_all add: call_op_get_raw_def getter_raw_papi_def)
  then show "call_op_get_raw P freq start e = Done (raw_value_of P freq start e)"
    by (auto simp: raw_value_of_def)
qed

text \<open>
  C22: A resolved event has its type. Both getter pointers, which come from two fields of the table's
  entry, are set, and to the two getters of the same quantity; the backend is the one that fills the
  members of a snapshot that these getters read. With every pair of snapshots that have the full PAPI array both getters return, whatever
  the snapshots hold.
\<close>

theorem resolved_events_never_stuck:
  assumes resolve: "ubench_event_resolve P event info w = ((True, i), w')"
    and index: "papi_index info < UBENCH_MAX_PAPI_EVENTS"
    and arrays: "length (papi_events start) = UBENCH_MAX_PAPI_EVENTS"
      "length (papi_events end') = UBENCH_MAX_PAPI_EVENTS"
  shows "(\<exists>g. op_get i = Some g \<and> op_get_raw i = Some g \<and> backend i = reads_backend g) \<and>
    returns (call_op_get P freq start end' i) (\<lambda>_. True) \<and>
    returns (call_op_get_raw P freq start i) (\<lambda>_. True)"
proof -
  have i: "resolved P i" "papi_index i = papi_index info"
    using resolve_result [OF resolve] by simp_all
  then have "event_ok P (backend i) i" using index by (simp add: event_ok_def)
  from getters_return [OF this arrays] resolved_getters [OF i(1)] show ?thesis by auto
qed

theorem resolved_events_never_stuck_witness:
  "\<exists>i. ubench_event_resolve sample_platform (Some ''SYS:thread-time'') zero_event_info 0 = ((True, i), 0) \<and>
    returns (call_op_get sample_platform 0 zero_snapshot zero_snapshot i) (\<lambda>_. True)"
proof -
  obtain i where "ubench_event_resolve sample_platform (Some ''SYS:thread-time'') zero_event_info 0 =
      ((True, i), 0)"
    using resolve_plain [of "plain_event ''SYS:thread-time'' False UBENCH_EVENT_BACKEND_SYS_THREADTIME
        ThreadTime ThreadTime"
        sample_platform "''SYS:thread-time''" zero_event_info 0]
    by (simp add: known_events_def plain_event_def icase.same_refl fill_event_info_eq sample_platform_def)
  then show ?thesis
    using resolved_events_never_stuck [of sample_platform "Some ''SYS:thread-time''" zero_event_info 0 i 0
        zero_snapshot zero_snapshot 0]
    by (simp add: zero_event_info_def zero_snapshot_def UBENCH_MAX_PAPI_EVENTS_def)
qed

lemma config_row:
  assumes ok: "config_ok P c" and a: "a \<in> set (cells (data c))" and b: "b \<in> set (cells (data c))"
  shows "row_of_values (call_op_get P freq a b) (used_events c) 0 (used_events_count c) =
      Done (map (value_of P freq a b) (events_of c))"
    "row_of_values (call_op_get_raw P freq a) (used_events c) 0 (used_events_count c) =
      Done (map (raw_value_of P freq a) (events_of c))"
proof -
  have "length (papi_events a) = UBENCH_MAX_PAPI_EVENTS" "length (papi_events b) = UBENCH_MAX_PAPI_EVENTS"
    using ok a b by (auto simp: config_ok_def)
  then have get: "call_op_get P freq a b e = Done (value_of P freq a b e)"
    "call_op_get_raw P freq a e = Done (raw_value_of P freq a e)" if "e \<in> set (events_of c)" for e
    using getters_return config_events(3) [OF ok] that by blast+
  have len: "0 + used_events_count c = length (cells (used_events c))"
    using config_events(2) [OF ok] by (simp add: events_of_def)
  have "row_of_values (call_op_get P freq a b) (used_events c) 0 (used_events_count c) =
      Done (map (value_of P freq a b) (drop 0 (cells (used_events c))))"
    using get by (intro row_of_values_eq len) (simp add: events_of_def)
  then show "row_of_values (call_op_get P freq a b) (used_events c) 0 (used_events_count c) =
      Done (map (value_of P freq a b) (events_of c))"
    by (simp add: events_of_def)
  have "row_of_values (call_op_get_raw P freq a) (used_events c) 0 (used_events_count c) =
      Done (map (raw_value_of P freq a) (drop 0 (cells (used_events c))))"
    using get by (intro row_of_values_eq len) (simp add: events_of_def)
  then show "row_of_values (call_op_get_raw P freq a) (used_events c) 0 (used_events_count c) =
      Done (map (raw_value_of P freq a) (events_of c))"
    by (simp add: events_of_def)
qed

section \<open>The rows\<close>

text \<open>The two searches of a round that finds a starting snapshot.\<close>

lemma search_from_start:
  fixes c i_max i
  defines "xs \<equiv> take i_max (cells (data c))"
  defines "j \<equiv> first_index (\<lambda>s. snap_type s = - 1) (drop i xs)"
  defines "l \<equiv> first_index (\<lambda>s. snap_type s = - 2) (drop (i + j + 1) xs)"
  assumes ok: "config_ok P c" and i_max: "i_max \<le> data_size c" and j: "i + j < i_max"
  shows "find_first_matching_snapshot_type (data c) i i_max UBENCH_SNAPSHOT_TYPE_START = Done (i + j)"
    "find_first_matching_snapshot_type (data c) (i + j) i_max UBENCH_SNAPSHOT_TYPE_END =
      Done (if l < i_max - (i + j + 1) then i + j + 1 + l else SIZE_NOT_FOUND)"
proof -
  have len: "length (cells (data c)) = data_size c" "data_size c < 2147483648"
    using ok by (auto simp: config_ok_def)
  then have xs: "length xs = i_max" using i_max by (simp add: xs_def)
  have find: "find_first_matching_snapshot_type (data c) k i_max type =
    Done (let j = first_index (\<lambda>s. snap_type s = type) (drop k xs) in
      if j < i_max - k then k + j else SIZE_NOT_FOUND)" if "k \<le> i_max" for k type
    unfolding xs_def using that i_max len by (intro find_first_eq) simp_all
  show "find_first_matching_snapshot_type (data c) i i_max UBENCH_SNAPSHOT_TYPE_START = Done (i + j)"
    using j find [of i] by (simp add: Let_def UBENCH_SNAPSHOT_TYPE_START_def j_def) linarith
  have "snap_type (drop i xs ! j) = - 1"
    using first_index_hit [of "\<lambda>s. snap_type s = - 1" "drop i xs"] j xs by (simp add: j_def)
  then have type: "snap_type (xs ! (i + j)) = - 1" using j xs by simp
  have "drop (i + j) xs = xs ! (i + j) # drop (Suc (i + j)) xs"
    using j xs by (intro Cons_nth_drop_Suc [symmetric]) simp
  with type show "find_first_matching_snapshot_type (data c) (i + j) i_max UBENCH_SNAPSHOT_TYPE_END =
      Done (if l < i_max - (i + j + 1) then i + j + 1 + l else SIZE_NOT_FOUND)"
    using find [of "i + j" "- 2"] j by (simp add: Let_def UBENCH_SNAPSHOT_TYPE_END_def l_def) linarith
qed

lemma rows_of_results_eq:
  assumes ok: "config_ok P c" and i_max: "i_max \<le> data_size c"
  shows "i \<le> i_max \<Longrightarrow> i_max - i < fuel \<Longrightarrow> rows_of_results fuel P freq c i i_max =
    Done (map (\<lambda>(a, b). map (value_of P freq a b) (events_of c))
      (completed (drop i (take i_max (cells (data c))))))"
proof (induction fuel arbitrary: i)
  case 0
  then show ?case by simp
next
  case (Suc fuel)
  let ?xs = "take i_max (cells (data c))"
  have len: "length (cells (data c)) = data_size c" "data_size c < 2147483648"
    using ok by (auto simp: config_ok_def)
  then have xs: "length ?xs = i_max" using i_max by simp
  have cell: "buf_get (data c) k = Done (?xs ! k) \<and> ?xs ! k \<in> set (cells (data c))" if "k < i_max" for k
    using that i_max len by simp
  let ?a = "i + first_index (\<lambda>s. snap_type s = - 1) (drop i ?xs)"
  let ?l = "first_index (\<lambda>s. snap_type s = - 2) (drop (?a + 1) ?xs)"
  let ?b = "?a + 1 + ?l"
  consider (none) "\<not> ?a < i_max"
    | (unclosed) "?a < i_max" "\<not> ?l < i_max - (?a + 1)"
    | (pair) "?a < i_max" "?b < i_max"
    by linarith
  then show ?case
  proof cases
    case none
    then show ?thesis
      using Suc.prems(1) xs find_first_eq [of i i_max "data c"] i_max len
      by (subst completed_unfold)
         (auto simp: Let_def UBENCH_SNAPSHOT_TYPE_START_def find_first_matching_snapshot_type_def)
  next
    case unclosed
    then show ?thesis
      using search_from_start [OF ok i_max unclosed(1)] xs
      by (subst completed_unfold) (simp add: Let_def add.commute add.left_commute)
  next
    case pair
    then have in_range: "?l < i_max - (?a + 1)" "?a - i < i_max - i" by linarith+
    have "completed (drop i ?xs) = (?xs ! ?a, ?xs ! ?b) # completed (drop (?b + 1) ?xs)"
      using pair xs in_range
      by (subst completed_unfold) (simp add: Let_def add.commute add.left_commute)
    moreover have "rows_of_results fuel P freq c (?b + 1) i_max =
        Done (map (\<lambda>(a, b). map (value_of P freq a b) (events_of c)) (completed (drop (?b + 1) ?xs)))"
      using pair Suc.prems by (intro Suc.IH) simp_all
    moreover have "?b \<noteq> SIZE_NOT_FOUND" "size_add ?b 1 = ?b + 1"
      using pair i_max len by (simp_all add: SIZE_NOT_FOUND_def size_add_small)
    ultimately show ?thesis
      using search_from_start [OF ok i_max pair(1)] pair in_range cell [OF pair(1)] cell [OF pair(2)]
        config_row(1) [OF ok] by simp
  qed
qed

lemma rows_of_raw_results_eq:
  assumes ok: "config_ok P c"
  shows "i + n \<le> data_size c \<Longrightarrow> rows_of_raw_results P freq c i n =
    Done (map (\<lambda>s. map (raw_value_of P freq s) (events_of c) @ [long_of_int (snap_type s)])
      (take n (drop i (cells (data c)))))"
proof (induction n arbitrary: i)
  case 0
  then show ?case by simp
next
  case (Suc n)
  have len: "length (cells (data c)) = data_size c" using ok by (simp add: config_ok_def)
  then have i: "i < length (cells (data c))" using Suc.prems by simp
  then have "take (Suc n) (drop i (cells (data c))) =
      cells (data c) ! i # take n (drop (i + 1) (cells (data c)))"
    by (simp add: Cons_nth_drop_Suc [symmetric])
  moreover have "cells (data c) ! i \<in> set (cells (data c))" using i by simp
  note row = config_row(2) [OF ok this this]
  ultimately show ?case
    using Suc i by (simp add: row)
qed

text \<open>
  What both methods return when the virtual machine hands out the objects: the names of the events
  and the rows.
\<close>

definition jvm_creates_results :: "'w platform \<Rightarrow> bool" where
  "jvm_creates_results P \<longleftrightarrow>
    (\<forall>class w. fst (jni_FindClass P class w)) \<and>
    (\<forall>class name sig w. fst (jni_GetMethodID P class name sig w)) \<and>
    (\<forall>class w. fst (jni_NewObject P class w)) \<and> (\<forall>n w. fst (jni_NewObjectArray P n w)) \<and>
    (\<forall>n w. fst (jni_NewLongArray P n w)) \<and> (\<forall>str w. fst (jni_NewStringUTF P str w) = str)"

text \<open>A part that changes the environment only, and throws nothing.\<close>

definition quiet :: "'w agent \<Rightarrow> 'w agent \<Rightarrow> bool" where
  "quiet s s' \<longleftrightarrow> unchanged s s' \<and> pending_exception s' = pending_exception s"

lemma quiet_refl [simp]: "quiet s s"
  by (simp add: quiet_def)

lemma quiet_trans: "quiet s s1 \<Longrightarrow> quiet s1 s2 \<Longrightarrow> quiet s s2"
  by (auto simp: quiet_def intro: unchanged_trans)

lemma call_ext_quiet: "call_ext f s = (r, s1) \<Longrightarrow> quiet s s1"
  by (auto simp: call_ext_def quiet_def unchanged_def split: prod.splits)

lemma names_of_events_spec:
  assumes strings: "\<forall>str w. fst (jni_NewStringUTF P str w) = str"
  shows "i + n = length (cells events) \<Longrightarrow> returns (names_of_events P events i n s)
    (\<lambda>(names, s'). names = map event_name (drop i (cells events)) \<and> quiet s s')"
proof (induction n arbitrary: i s)
  case 0
  then show ?case by simp
next
  case (Suc n)
  obtain name s1 where e: "call_ext (jni_NewStringUTF P (event_name (cells events ! i))) s = (name, s1)"
    by (metis prod.exhaust)
  have name: "name = event_name (cells events ! i)"
    using call_ext_result [OF e] strings by simp
  have "returns (names_of_events P events (i + 1) n s1)
      (\<lambda>(names, s'). names = map event_name (drop (i + 1) (cells events)) \<and> quiet s1 s')"
    using Suc.prems by (intro Suc.IH) simp
  moreover have "drop i (cells events) = cells events ! i # drop (i + 1) (cells events)"
    using Suc.prems by (simp add: Cons_nth_drop_Suc)
  ultimately show ?case
    using Suc.prems e name call_ext_quiet [OF e]
    by (auto simp: returns_bind elim!: returns_mono intro: quiet_trans)
qed

lemma build_results_spec:
  assumes jvm: "jvm_creates_results P" and ok: "config_ok P c" and rows: "rows c = Done rs"
    and extra: "extra = [] \<or> extra = [name]"
  shows "returns (build_results P extra rows c s) (\<lambda>(r, s'). quiet s s' \<and>
    r = Some \<lparr>result_names = map event_name (events_of c) @ map Some extra, data_rows = rs\<rparr>)"
proof -
  note delivers = jvm [unfolded jvm_creates_results_def]
  let ?C = "''cz/cuni/mff/d3s/perf/BenchmarkResultsImpl''"
  have ext: "\<exists>s'. call_ext f s = (fst (f (world s)), s') \<and> quiet s s'" for f :: "('a, 'r) ext" and s
    using call_ext_quiet call_ext_result by (metis prod.exhaust)
  obtain s1 where s1: "call_ext (jni_FindClass P ?C) s = (True, s1)" "quiet s s1"
    using ext [of "jni_FindClass P ?C" s] delivers by auto
  obtain s2 where s2: "call_ext (jni_FindClass P ''java/lang/String'') s1 = (True, s2)" "quiet s1 s2"
    using ext [of "jni_FindClass P ''java/lang/String''" s1] delivers by auto
  obtain s3 where s3: "call_ext (jni_NewObjectArray P (used_events_count c + length extra)) s2 = (True, s3)"
    "quiet s2 s3"
    using ext [of "jni_NewObjectArray P (used_events_count c + length extra)" s2] delivers by auto
  have len: "0 + used_events_count c = length (cells (used_events c))"
    using config_events(2) [OF ok] by (simp add: events_of_def)
  obtain s4 where s4: "names_of_events P (used_events c) 0 (used_events_count c) s3 =
      Done (map event_name (events_of c), s4)" "quiet s3 s4"
    using names_of_events_spec [OF _ len, of P s3] delivers
    by (auto simp: returns_iff events_of_def)
  obtain s5 where s5: "(case extra of [] \<Rightarrow> ([], s4)
      | name # _ \<Rightarrow> (case call_ext (jni_NewStringUTF P (Some name)) s4 of (n, s') \<Rightarrow> ([n], s'))) =
      (map Some extra, s5)" "quiet s4 s5"
    using extra ext [of "jni_NewStringUTF P (Some name)" s4] delivers by auto
  obtain s6 where s6: "call_ext (jni_GetMethodID P ?C ''<init>'' ''([Ljava/lang/String;)V'') s5 = (True, s6)"
    "quiet s5 s6"
    using ext [of "jni_GetMethodID P ?C ''<init>'' ''([Ljava/lang/String;)V''" s5] delivers by auto
  obtain s7 where s7: "call_ext (jni_NewObject P ?C) s6 = (True, s7)" "quiet s6 s7"
    using ext [of "jni_NewObject P ?C" s6] delivers by auto
  obtain s8 where s8: "call_ext (jni_NewLongArray P (used_events_count c + length extra)) s7 = (True, s8)"
    "quiet s7 s8"
    using ext [of "jni_NewLongArray P (used_events_count c + length extra)" s7] delivers by auto
  obtain s9 where s9: "call_ext (jni_GetMethodID P ?C ''addDataRow'' ''([J)V'') s8 = (True, s9)"
    "quiet s8 s9"
    using ext [of "jni_GetMethodID P ?C ''addDataRow'' ''([J)V''" s8] delivers by auto
  have "quiet s s9"
    using s1(2) s2(2) s3(2) s4(2) s5(2) s6(2) s7(2) s8(2) s9(2) by (simp add: quiet_def unchanged_def)
  then show ?thesis
    by (simp add: build_results_def s1 s2 s3 s4 s5 s6 s7 s8 s9 rows)
qed

section \<open>What the results are\<close>

lemma with_valid_slot_spec:
  assumes jvm: "jvm_delivers P" and inv: "agent_inv P s"
    and f: "\<And>c. slot_of s j = Some c \<Longrightarrow> returns (f c s) (\<lambda>(r, s'). quiet s s' \<and> r = res c)"
  shows "returns (with_valid_slot P j f s) (\<lambda>(r, s'). unchanged s s' \<and>
    (case slot_of s j of
       None \<Rightarrow> r = None \<and> pending_exception s' = Some ''Invalid event set id.''
     | Some c \<Rightarrow> pending_exception s' = pending_exception s \<and> r = res c))"
proof (cases "slot_of s j")
  case None
  then show ?thesis
    using do_throw_spec [OF jvm, of INVALID_ID_MESSAGE s]
    by (auto simp: with_valid_slot_def is_valid_id_eq [OF inv] returns_bind threw_def INVALID_ID_MESSAGE_def
        elim!: returns_mono)
next
  case (Some c)
  obtain e where e: "buf_get (all_eventsets s) (nat (sint j)) = Done e" "config e = c"
    using slot_of_get [OF Some] by auto
  show ?thesis
    using f [OF Some] Some
    by (auto simp: with_valid_slot_def is_valid_id_eq [OF inv] e quiet_def elim!: returns_mono)
qed

text \<open>The results of an event set: one row per completed measurement, one column per event.\<close>

definition results_of ::
    "('w, 'x) papi_platform_scheme \<Rightarrow> c_long \<Rightarrow> benchmark_configuration_t \<Rightarrow> benchmark_results" where
  "results_of P freq c =
    \<lparr>result_names = map event_name (events_of c),
     data_rows = map (\<lambda>(a, b). map (value_of P freq a b) (events_of c)) (completed (snapshot_log c))\<rparr>"

definition raw_results_of ::
    "('w, 'x) papi_platform_scheme \<Rightarrow> c_long \<Rightarrow> benchmark_configuration_t \<Rightarrow> benchmark_results" where
  "raw_results_of P freq c =
    \<lparr>result_names = map event_name (events_of c) @ [Some ''TYPE''],
     data_rows = map (\<lambda>s. map (raw_value_of P freq s) (events_of c) @ [long_of_int (snap_type s)])
       (snapshot_log c)\<rparr>"

lemma getResults_eq:
  assumes "jvm_delivers P" and "jvm_creates_results P" and inv: "agent_inv P s"
  shows "returns (Measurement_getResults P jid s) (\<lambda>(r, s'). unchanged s s' \<and>
    (case slot_of s jid of
       None \<Rightarrow> r = None \<and> pending_exception s' = Some ''Invalid event set id.''
     | Some c \<Rightarrow> pending_exception s' = pending_exception s \<and>
         r = Some (results_of P (windows_timer_frequency s) c)))"
  unfolding Measurement_getResults_def
proof (rule with_valid_slot_spec [OF assms(1) inv])
  fix c
  assume "slot_of s jid = Some c"
  then have ok: "config_ok P c" using index_of_slot [OF inv] by blast
  let ?rows = "\<lambda>c. rows_of_results (data_index c + 1) P (windows_timer_frequency s) c 0 (data_index c)"
  have "?rows c = Done (data_rows (results_of P (windows_timer_frequency s) c))"
    using ok by (subst rows_of_results_eq [OF ok]) (simp_all add: config_ok_def results_of_def snapshot_log_def)
  from build_results_spec [where rows = ?rows, OF assms(2) ok this, of "[]"]
  show "returns (build_results P [] ?rows c s)
      (\<lambda>(r, s'). quiet s s' \<and> r = Some (results_of P (windows_timer_frequency s) c))"
    by (simp add: results_of_def)
qed

lemma getRawResults_eq:
  assumes "jvm_delivers P" and "jvm_creates_results P" and inv: "agent_inv P s"
  shows "returns (Measurement_getRawResults P jid s) (\<lambda>(r, s'). unchanged s s' \<and>
    (case slot_of s jid of
       None \<Rightarrow> r = None \<and> pending_exception s' = Some ''Invalid event set id.''
     | Some c \<Rightarrow> pending_exception s' = pending_exception s \<and>
         r = Some (raw_results_of P (windows_timer_frequency s) c)))"
  unfolding Measurement_getRawResults_def
proof (rule with_valid_slot_spec [OF assms(1) inv])
  fix c
  assume "slot_of s jid = Some c"
  then have ok: "config_ok P c" using index_of_slot [OF inv] by blast
  let ?rows = "\<lambda>c. rows_of_raw_results P (windows_timer_frequency s) c 0 (data_index c)"
  have "?rows c = Done (data_rows (raw_results_of P (windows_timer_frequency s) c))"
    using ok by (subst rows_of_raw_results_eq [OF ok]) (simp_all add: config_ok_def raw_results_of_def snapshot_log_def)
  from build_results_spec [where rows = ?rows, OF assms(2) ok this, of "[''TYPE'']"]
  show "returns (build_results P [''TYPE''] ?rows c s)
      (\<lambda>(r, s'). quiet s s' \<and> r = Some (raw_results_of P (windows_timer_frequency s) c))"
    by (simp add: raw_results_of_def)
qed

text \<open>
  C1: \<open>getResults\<close> returns, for a valid identifier, one row for each completed measurement in the log:
  a start snapshot with the first stop snapshot after it, whatever samples, stops without a start
  or repeated starts lie between; the columns are the events of the set. It never reads outside
  the log, its loop ends, it changes no event set and throws nothing. An invalid identifier throws.
\<close>

theorem getResults_spec:
  assumes "jvm_delivers P" and "jvm_creates_results P" and inv: "agent_inv P s"
  shows "returns (Measurement_getResults P jid s) (\<lambda>(r, s'). unchanged s s' \<and>
    (case slot_of s jid of
       None \<Rightarrow> r = None \<and> pending_exception s' = Some ''Invalid event set id.''
     | Some c \<Rightarrow> pending_exception s' = pending_exception s \<and>
         r = Some (results_of P (windows_timer_frequency s) c)))"
  using assms by (rule getResults_eq)

text \<open>
  C23: \<open>getRawResults\<close> returns one row for each snapshot of the log, in order: the raw reading of every
  event and, in a last column named \<open>TYPE\<close>, the type of the snapshot.
\<close>

theorem getRawResults_spec:
  assumes "jvm_delivers P" and "jvm_creates_results P" and inv: "agent_inv P s"
  shows "returns (Measurement_getRawResults P jid s) (\<lambda>(r, s'). unchanged s s' \<and>
    (case slot_of s jid of
       None \<Rightarrow> r = None \<and> pending_exception s' = Some ''Invalid event set id.''
     | Some c \<Rightarrow> pending_exception s' = pending_exception s \<and>
         r = Some (raw_results_of P (windows_timer_frequency s) c)))"
  using assms by (rule getRawResults_eq)

lemma sample_creates_results: "jvm_creates_results sample_platform"
  by (simp add: jvm_creates_results_def sample_platform_def)

text \<open>An event set with the log of one measurement.\<close>

definition logged_agent :: "nat agent" where
  "logged_agent = sample_agent\<lparr>all_eventsets := Buf [\<lparr>config = sample_papi_config
    \<lparr>data := Buf [zero_snapshot\<lparr>snap_type := - 1\<rparr>, zero_snapshot\<lparr>snap_type := - 2\<rparr>],
     data_index := 2\<rparr>, valid = True\<rparr>]\<rparr>"

lemma logged_slot: "slot_of logged_agent 0 = Some (sample_papi_config
    \<lparr>data := Buf [zero_snapshot\<lparr>snap_type := - 1\<rparr>, zero_snapshot\<lparr>snap_type := - 2\<rparr>],
     data_index := 2\<rparr>)"
  by (simp add: logged_agent_def slot_of_def slot_map_def slots_def)

lemma logged_inv: "agent_inv sample_platform logged_agent"
proof -
  let ?c = "sample_papi_config
    \<lparr>data := Buf [zero_snapshot\<lparr>snap_type := - 1\<rparr>, zero_snapshot\<lparr>snap_type := - 2\<rparr>], data_index := 2\<rparr>"
  have "config_ok sample_platform ?c"
    by (rule config_ok_data [OF sample_config_ok])
       (simp_all add: sample_papi_config_def zero_snapshot_def UBENCH_MAX_PAPI_EVENTS_def)
  moreover have "slots logged_agent = [\<lparr>config = ?c, valid = True\<rparr>]"
    by (simp add: logged_agent_def slots_def)
  ultimately have "config_ok sample_platform c" if "c \<in> ran (slot_map logged_agent)" for c
    using that by (auto simp: ran_def slot_map_def split: if_splits)
  then show ?thesis
    using sample_agent_inv sample_agent_slots by (simp add: agent_inv_def logged_agent_def slots_def)
qed

theorem getResults_spec_witness:
  "returns (Measurement_getResults sample_platform 0 logged_agent) (\<lambda>(r, s').
    map_option data_rows r = Some [[0]])"
  using getResults_spec [OF sample_jvm sample_creates_results logged_inv, of 0]
  by (auto simp: logged_slot results_of_def snapshot_log_def completed.simps events_of_def
      sample_papi_config_def sample_papi_event_def value_of_def call_op_get_def getter_papi_def
      sample_platform_def zero_snapshot_def UBENCH_MAX_PAPI_EVENTS_def elim!: returns_mono)

theorem getRawResults_spec_witness:
  "returns (Measurement_getRawResults sample_platform 0 logged_agent) (\<lambda>(r, s').
    map_option data_rows r = Some [[0, - 1], [0, - 2]])"
  using getRawResults_spec [OF sample_jvm sample_creates_results logged_inv, of 0]
  by (auto simp: logged_slot raw_results_of_def snapshot_log_def events_of_def
      sample_papi_config_def sample_papi_event_def raw_value_of_def call_op_get_raw_def
      getter_raw_papi_def sample_platform_def zero_snapshot_def UBENCH_MAX_PAPI_EVENTS_def
      elim!: returns_mono)

section \<open>Which measurements are remembered\<close>

lemma completed_pair:
  "snap_type a = - 1 \<Longrightarrow> snap_type b = - 2 \<Longrightarrow> completed (a # b # xs) = (a, b) # completed xs"
  by (simp add: completed.simps [of "a # b # xs"])

lemma completed_pair_log:
  "\<forall>(a, b) \<in> set ps. snap_type a = - 1 \<and> snap_type b = - 2 \<Longrightarrow> completed (pair_log ps) = ps"
proof (induction ps rule: pair_log.induct)
  case 1
  then show ?case by (simp add: completed.simps)
next
  case (2 a b ps)
  then show ?case by (simp add: completed_pair)
qed

lemma retained_subset: "0 < m \<Longrightarrow> set (retained m h) \<subseteq> set h"
proof (cases "length h \<le> m")
  case False
  then have "h \<noteq> []" by auto
  then show ?thesis by (auto simp: retained_def dest: in_set_takeD)
qed (simp add: retained_def)

text \<open>
  C3: After \<open>n\<close> measurements (\<open>start\<close>, \<open>stop\<close>) of an empty event set created for \<open>m\<close> of them, \<open>getResults\<close>
  returns the values of all of them if \<open>n\<close> is at most \<open>m\<close>, and otherwise of the first \<open>m - 1\<close> and the last
  one, each computed from the two snapshots of that measurement.
\<close>

theorem first_and_last_measurements_remembered:
  assumes jvm: "jvm_delivers P" "jvm_creates_results P" and inv: "agent_inv P s"
    and c: "slot_of s j = Some c" and empty: "snapshot_log c = []" and m: "data_size c = 2 * m"
  shows "returns (measure_times P j n s) (\<lambda>(s', history). length history = n \<and>
    returns (Measurement_getResults P j s') (\<lambda>(r, s'').
      map_option data_rows r =
        Some (map (\<lambda>(a, b). map (value_of P (windows_timer_frequency s') a b) (events_of c))
          (if n \<le> m then history else take (m - 1) history @ [last history]))))"
proof (rule returns_mono [OF measure_times_spec [OF jvm(1) inv c empty m]], clarify)
  fix s' history c'
  assume s': "agent_inv P s'" "slot_of s' j = Some c'" and n: "n = length history"
    and types: "\<forall>(a, b) \<in> set history. snap_type a = - 1 \<and> snap_type b = - 2"
    and c': "same_setup c c'" "snapshot_log c' = pair_log (retained m history)"
  have "0 < m" using index_of_slot [OF inv c] m by (simp add: config_ok_def)
  then have "\<forall>(a, b) \<in> set (retained m history). snap_type a = - 1 \<and> snap_type b = - 2"
    using types retained_subset [of m history] by blast
  then have "completed (snapshot_log c') = retained m history"
    unfolding c'(2) by (rule completed_pair_log)
  moreover have "events_of c' = events_of c"
    using same_setup_members [OF c'(1)] by (simp add: events_of_def)
  moreover have "returns (Measurement_getResults P j s') (\<lambda>(r, s''). unchanged s' s'' \<and>
      r = Some (results_of P (windows_timer_frequency s') c'))"
    using getResults_eq [OF jvm s'(1), of j] s'(2) by (auto elim!: returns_mono)
  ultimately show "length history = length history \<and>
    returns (Measurement_getResults P j s') (\<lambda>(r, s'').
      map_option data_rows r =
        Some (map (\<lambda>(a, b). map (value_of P (windows_timer_frequency s') a b) (events_of c))
          (if length history \<le> m then history else take (m - 1) history @ [last history])))"
    by (auto simp: results_of_def retained_def elim!: returns_mono)
qed

theorem first_and_last_measurements_remembered_witness:
  "returns (measure_times sample_platform 0 3 sample_agent) (\<lambda>(s', history). length history = 3 \<and>
    returns (Measurement_getResults sample_platform 0 s') (\<lambda>(r, s'').
      map_option (length \<circ> data_rows) r = Some 1))"
  using first_and_last_measurements_remembered [OF sample_jvm sample_creates_results sample_agent_inv
      sample_agent_slot, of 1 3]
  by (auto simp: snapshot_log_def sample_papi_config_def option.map_comp [symmetric] elim!: returns_mono)

section \<open>Supported events\<close>

lemma getSupportedEvents_eq:
  assumes "jvm_creates_results P"
  shows "\<exists>s1. unchanged s s1 \<and> Measurement_getSupportedEvents P s =
    (case ubench_event_iterate P (Some (adding_supported_events_callback P)) ([], world s1) of
       None \<Rightarrow> Hang
     | Some (event_list, w) \<Rightarrow> Done (Some event_list, s1\<lparr>world := w\<rparr>))"
proof -
  note delivers = assms [unfolded jvm_creates_results_def]
  have ext: "\<exists>s'. call_ext f s = (fst (f (world s)), s') \<and> unchanged s s'" for f :: "('a, 'r) ext" and s
    using call_ext_unchanged call_ext_result by (metis prod.exhaust)
  let ?L = "''java/util/ArrayList''"
  obtain s1 where s1: "call_ext (jni_FindClass P ?L) s = (True, s1)" "unchanged s s1"
    using ext [of "jni_FindClass P ?L" s] delivers by auto
  obtain s2 where s2: "call_ext (jni_FindClass P ''java/lang/String'') s1 = (True, s2)" "unchanged s1 s2"
    using ext [of "jni_FindClass P ''java/lang/String''" s1] delivers by auto
  obtain s3 where s3: "call_ext (jni_GetMethodID P ?L ''<init>'' ''()V'') s2 = (True, s3)" "unchanged s2 s3"
    using ext [of "jni_GetMethodID P ?L ''<init>'' ''()V''" s2] delivers by auto
  obtain s4 where s4: "call_ext (jni_GetMethodID P ?L ''add'' ''(Ljava/lang/Object;)Z'') s3 = (True, s4)"
    "unchanged s3 s4"
    using ext [of "jni_GetMethodID P ?L ''add'' ''(Ljava/lang/Object;)Z''" s3] delivers by auto
  obtain s5 where s5: "call_ext (jni_NewObject P ?L) s4 = (True, s5)" "unchanged s4 s5"
    using ext [of "jni_NewObject P ?L" s4] delivers by auto
  have "unchanged s s5"
    using s1(2) s2(2) s3(2) s4(2) s5(2) by (simp add: unchanged_def)
  moreover have "Measurement_getSupportedEvents P s =
    (case ubench_event_iterate P (Some (adding_supported_events_callback P)) ([], world s5) of
       None \<Rightarrow> Hang
     | Some (event_list, w) \<Rightarrow> Done (Some event_list, s5\<lparr>world := w\<rparr>))"
    by (simp add: Measurement_getSupportedEvents_def s1 s2 s3 s4 s5)
  ultimately show ?thesis by blast
qed

lemma adding_callback:
  assumes "\<forall>str w. fst (jni_NewStringUTF P str w) = str"
  shows "fst (snd (adding_supported_events_callback P name (l, w))) = l @ [Some name]"
    "\<not> fst (adding_supported_events_callback P name st)"
  using assms by (auto simp: adding_supported_events_callback_def split: prod.splits)
     (metis fst_conv)

lemma fold_adding:
  assumes "\<forall>str w. fst (jni_NewStringUTF P str w) = str"
  shows "fst (fold (\<lambda>name st. snd (adding_supported_events_callback P name st)) names (l, w)) =
    l @ map Some names"
proof (induction names arbitrary: l w)
  case (Cons name names)
  obtain l' w' where e: "snd (adding_supported_events_callback P name (l, w)) = (l', w')"
    by (metis prod.exhaust)
  then have "l' = l @ [Some name]" using adding_callback(1) [OF assms, of name l w] by simp
  then show ?case using Cons e by simp
qed simp

lemma isEventSupported_eq:
  "fst (jni_GetStringUTFChars P name (world s)) = Some name \<Longrightarrow>
    \<exists>w info. fst (Measurement_isEventSupported P name s) =
      fst (fst (ubench_event_resolve P (Some name) info w)) \<and> info = zero_event_info\<lparr>event_name := None\<rparr>"
  by (auto simp: Measurement_isEventSupported_def GetStringUTFChars_def call_ext_def split: prod.splits)
     (metis fst_conv)+

lemma named_events_supported:
  assumes papi: "\<not> HAS_PAPI P" and chars: "\<And>str w. fst (jni_GetStringUTFChars P str w) = Some str"
    and name: "name \<in> set (current_names P) \<union> fst ` set (legacy_names P)"
  shows "fst (Measurement_isEventSupported P name s)"
proof -
  consider "name \<in> set (current_names P)" | new where "(name, new) \<in> set (legacy_names P)"
    using name by auto
  then have "\<exists>k \<in> set (known_events P). resolver k = None \<and> known_name k = name"
  proof cases
    case 1
    then obtain k where k: "k \<in> set (known_events P)" "known_name k = name"
      by (auto simp: current_names_def)
    moreover have "resolver k = None"
      using k(1) papi by (auto simp: known_events_def plain_event_def split: if_splits)
    ultimately show ?thesis by blast
  next
    case 2
    then show ?thesis by (rule legacy_entries) blast
  qed
  then obtain k where "k \<in> set (known_events P)" "resolver k = None" "known_name k = name" by blast
  then have "fst (fst (ubench_event_resolve P (Some name) info w))" for info w
    using icase.same_refl by (simp add: resolve_plain fill_event_info_eq)
  then show ?thesis
    using isEventSupported_eq [of P name s] chars by auto
qed

text \<open>
  On a build without PAPI, \<open>getSupportedEvents\<close> returns the names of the new naming, in the order
  of the table, and \<open>isEventSupported\<close> answers true for each of them and for the legacy names.
\<close>

lemma supported_events_without_papi:
  assumes papi: "\<not> HAS_PAPI P" and jvm: "jvm_creates_results P"
    and chars: "\<And>str w. fst (jni_GetStringUTFChars P str w) = Some str"
  shows "returns (Measurement_getSupportedEvents P s) (\<lambda>(r, s'). r = Some (map Some
      (if HAS_GETRUSAGE P
       then [''JVM:compilations'', ''SYS:forced-context-switches'', ''SYS:thread-time'',
             ''SYS:thread-time-rusage'', ''SYS:wallclock-time'']
       else [''JVM:compilations'', ''SYS:thread-time'', ''SYS:wallclock-time''])) \<and> unchanged s s') \<and>
    (\<forall>name \<in> set (current_names P) \<union> fst ` set (legacy_names P).
      fst (Measurement_isEventSupported P name s))"
proof
  have strings: "\<forall>str w. fst (jni_NewStringUTF P str w) = str"
    using jvm by (simp add: jvm_creates_results_def)
  obtain s1 where s1: "unchanged s s1" "Measurement_getSupportedEvents P s =
    (case ubench_event_iterate P (Some (adding_supported_events_callback P)) ([], world s1) of
       None \<Rightarrow> Hang
     | Some (event_list, w) \<Rightarrow> Done (Some event_list, s1\<lparr>world := w\<rparr>))"
    using getSupportedEvents_eq [OF jvm] by blast
  obtain l w where fold: "fold (\<lambda>name st. snd (adding_supported_events_callback P name st))
      (current_names P) ([], world s1) = (l, w)"
    by (metis prod.exhaust)
  then have "l = map Some (current_names P)"
    using fold_adding [OF strings, of "current_names P" "[]" "world s1"] by simp
  moreover have "ubench_event_iterate P (Some (adding_supported_events_callback P)) ([], world s1) =
      Some (l, w)"
    using event_iterate_plain [OF papi, of "adding_supported_events_callback P" "([], world s1)"]
      adding_callback(2) [OF strings] fold by simp
  ultimately show "returns (Measurement_getSupportedEvents P s) (\<lambda>(r, s'). r = Some (map Some
      (if HAS_GETRUSAGE P
       then [''JVM:compilations'', ''SYS:forced-context-switches'', ''SYS:thread-time'',
             ''SYS:thread-time-rusage'', ''SYS:wallclock-time'']
       else [''JVM:compilations'', ''SYS:thread-time'', ''SYS:wallclock-time''])) \<and> unchanged s s')"
    using s1 papi
    by (auto simp: current_names_def known_events_def plain_event_def unchanged_def)
  show "\<forall>name \<in> set (current_names P) \<union> fst ` set (legacy_names P).
      fst (Measurement_isEventSupported P name s)"
    using named_events_supported [OF papi chars] by blast
qed

lemma supported_events_listed:
  assumes jvm: "jvm_creates_results P" and ends: "papi_enumeration_ends P rank"
  shows "returns (Measurement_getSupportedEvents P s) (\<lambda>(r, s'). unchanged s s' \<and>
    (\<exists>names. r = Some (map Some names) \<and> (\<forall>name \<in> set names. listed_name P name)))"
proof -
  have strings: "\<forall>str w. fst (jni_NewStringUTF P str w) = str"
    using jvm by (simp add: jvm_creates_results_def)
  obtain s1 where s1: "unchanged s s1" "Measurement_getSupportedEvents P s =
    (case ubench_event_iterate P (Some (adding_supported_events_callback P)) ([], world s1) of
       None \<Rightarrow> Hang
     | Some (event_list, w) \<Rightarrow> Done (Some event_list, s1\<lparr>world := w\<rparr>))"
    using getSupportedEvents_eq [OF jvm] by blast
  obtain l w where run: "ubench_event_iterate P (Some (adding_supported_events_callback P))
      ([], world s1) = Some (l, w)"
    using event_iterate_returns [OF ends] by (metis prod.exhaust)
  let ?I = "\<lambda>l. \<exists>names. l = map Some names \<and> (\<forall>name \<in> set names. listed_name P name)"
  have "callback_keeps ?I (listed_name P) (adding_supported_events_callback P)"
    unfolding callback_keeps_def
  proof (intro allI impI, elim conjE exE)
    fix name l w names
    assume "listed_name P name" "l = map Some names" "\<forall>name \<in> set names. listed_name P name"
    then show "?I (fst (snd (adding_supported_events_callback P name (l, w))))"
      by (intro exI [of _ "names @ [name]"]) (simp add: adding_callback(1) [OF strings])
  qed
  from event_iterate_keeps [OF this run] have "?I l" by simp
  then show ?thesis
    using s1 run by (simp add: unchanged_def)
qed

text \<open>
  C35: On every build, if PAPI's enumerations are finite, \<open>getSupportedEvents\<close> returns, and every name
  it lists is a current name of the table, or \<open>PAPI:\<close> and the name that PAPI gave to an event code
  that it enumerates: a preset that it also describes (with a native event to count it, if it says
  so), or an event of one of its components.
\<close>

theorem supported_events_listing:
  assumes "jvm_creates_results P" and "papi_enumeration_ends P rank"
  shows "returns (Measurement_getSupportedEvents P s) (\<lambda>(r, s'). unchanged s s' \<and>
    (\<exists>names. r = Some (map Some names) \<and> (\<forall>name \<in> set names. listed_name P name)))"
  using assms by (rule supported_events_listed)

theorem supported_events_listing_witness:
  "returns (Measurement_getSupportedEvents sample_platform (initial_agent (0 :: nat))) (\<lambda>(r, s').
    \<exists>names. r = Some (map Some names) \<and> (\<forall>name \<in> set names. listed_name sample_platform name))"
proof -
  have "papi_enumeration_ends sample_platform (\<lambda>c. if c = 50 then 1 else 0)"
    by (simp add: papi_enumeration_ends_def sample_platform_def)
  then show ?thesis
    by (rule returns_mono [OF supported_events_listing [OF sample_creates_results]]) auto
qed

text \<open>
  C12: The listing and the resolution agree: if PAPI's enumerations are finite and its names consistent,
  \<open>getSupportedEvents\<close> returns, and \<open>isEventSupported\<close> answers true for every name that it lists.
\<close>

theorem listed_events_are_supported:
  assumes jvm: "jvm_creates_results P" and chars: "\<And>str w. fst (jni_GetStringUTFChars P str w) = Some str"
    and ends: "papi_enumeration_ends P rank" and papi: "papi_names_consistent P"
  shows "returns (Measurement_getSupportedEvents P s) (\<lambda>(r, s'). \<exists>names. r = Some (map Some names) \<and>
    (\<forall>name \<in> set names. fst (Measurement_isEventSupported P name s')))"
proof -
  have supported: "fst (Measurement_isEventSupported P name s')" if "listed_name P name" for name s'
  proof -
    have "fst (fst (ubench_event_resolve P (Some name) info w))" for info w
      using that by (rule listed_name_resolves [OF papi])
    then show ?thesis
      using isEventSupported_eq [of P name s'] chars by auto
  qed
  show ?thesis
  proof (rule returns_mono [OF supported_events_listed [OF jvm ends, of s]], clarify)
    fix s' names
    assume "\<forall>name \<in> set names. listed_name P name"
    then show "\<exists>names'. Some (map Some names) = Some (map Some names') \<and>
        (\<forall>name \<in> set names'. fst (Measurement_isEventSupported P name s'))"
      using supported by (intro exI [of _ names]) simp
  qed
qed

lemma sample_names_consistent: "papi_names_consistent sample_platform"
  by (auto simp: papi_names_consistent_def native_code_def sample_platform_def sample_event_name_def
      split: if_splits)

theorem listed_events_are_supported_witness:
  "returns (Measurement_getSupportedEvents sample_platform (initial_agent (0 :: nat))) (\<lambda>(r, s').
    \<exists>names. r = Some (map Some names) \<and>
      (\<forall>name \<in> set names. fst (Measurement_isEventSupported sample_platform name s')))"
proof (rule listed_events_are_supported [OF sample_creates_results])
  show "papi_enumeration_ends sample_platform (\<lambda>c. if c = 50 then 1 else 0)"
    by (simp add: papi_enumeration_ends_def sample_platform_def)
qed (simp_all add: sample_names_consistent, simp add: sample_platform_def)

end
