(* ===== verification/Creation.thy ===== *)
theory Creation
  imports EventSets
begin

text \<open>
  More about creating and destroying event sets (\<open>measurement.c\<close>): which events a new set holds, when
  creation succeeds and what it reports otherwise, what a second destruction does, and what the
  missing lock means for two threads that create event sets at the same time.
\<close>

section \<open>The events of a new set\<close>

text \<open>A description that resolving the name filled in, up to its place among the PAPI events.\<close>

definition requested :: "('w, 'x) papi_platform_scheme \<Rightarrow> string \<Rightarrow> ubench_event_info_t \<Rightarrow> bool" where
  "requested P name e \<longleftrightarrow> (\<exists>w i w' k.
    ubench_event_resolve P (Some name) zero_event_info w = ((True, i), w') \<and>
    e = i\<lparr>papi_index := k\<rparr>)"

definition chars_delivered :: "'w platform \<Rightarrow> bool" where
  "chars_delivered P \<longleftrightarrow> (\<forall>str w. fst (jni_GetStringUTFChars P str w) = Some str)"

text \<open>The first \<open>used_events_count\<close> descriptions, and that all later ones are still zero.\<close>

definition filled :: "benchmark_configuration_t \<Rightarrow> ubench_event_info_t list \<Rightarrow> bool" where
  "filled c es \<longleftrightarrow> used_events_count c = length es \<and>
    (\<exists>n. used_events c = Buf (es @ replicate n zero_event_info))"

lemma filled_next:
  assumes "filled c es" and "length es < length (cells (used_events c))"
  shows "buf_get (used_events c) (used_events_count c) = Done zero_event_info"
    and "\<exists>n. buf_set (used_events c) (used_events_count c) e =
      Done (Buf (es @ e # replicate n zero_event_info))"
proof -
  obtain n where n: "used_events c = Buf (es @ replicate (Suc n) zero_event_info)"
  proof -
    obtain k where k: "used_events c = Buf (es @ replicate k zero_event_info)"
      using assms(1) by (auto simp: filled_def)
    then show thesis using assms(2) that by (cases k) simp_all
  qed
  show "buf_get (used_events c) (used_events_count c) = Done zero_event_info"
    using assms n by (simp add: filled_def nth_append)
  show "\<exists>n. buf_set (used_events c) (used_events_count c) e =
      Done (Buf (es @ e # replicate n zero_event_info))"
    using assms n by (auto simp: filled_def list_update_append)
qed

lemma register_keeps:
  "register_papi_event c e = (c', e') \<Longrightarrow> e' = e\<lparr>papi_index := papi_index e'\<rparr> \<and>
    used_events c' = used_events c \<and> used_events_count c' = used_events_count c"
  by (auto simp: register_papi_event_def Let_def split: if_splits)

lemma requested_index: "requested P name e \<Longrightarrow> requested P name (e\<lparr>papi_index := k\<rparr>)"
  unfolding requested_def
proof (elim exE conjE)
  fix w i w' k'
  assume "ubench_event_resolve P (Some name) zero_event_info w = ((True, i), w')"
    and "e = i\<lparr>papi_index := k'\<rparr>"
  then show "\<exists>w i w' k'. ubench_event_resolve P (Some name) zero_event_info w = ((True, i), w') \<and>
      e\<lparr>papi_index := k\<rparr> = i\<lparr>papi_index := k'\<rparr>"
    by (intro exI [of _ w] exI [of _ i] exI [of _ w'] exI [of _ k]) simp
qed

text \<open>Storing an event writes it into the first free cell, with the index of its PAPI counter.\<close>

lemma store_event_filled:
  assumes c: "filled c es" and room: "length es < length (cells (used_events c))"
    and run: "store_event P info c = Done (ok, c')"
  shows "\<exists>k. filled c' (es @ [info\<lparr>papi_index := k\<rparr>])"
proof (cases "HAS_PAPI P \<and> backend info = UBENCH_EVENT_BACKEND_PAPI")
  case False
  obtain n where "buf_set (used_events c) (used_events_count c) info =
      Done (Buf (es @ info # replicate n zero_event_info))"
    using filled_next(2) [OF c room] by blast
  then have "filled c' (es @ [info])"
    using run False c by (auto simp: store_event_def Let_def filled_def split: if_splits)
  then show ?thesis by (intro exI [of _ "papi_index info"]) simp
next
  case papi: True
  let ?c1 = "c\<lparr>used_events_count := used_events_count c + 1,
    used_backends := used_backends c OR backend info\<rparr>"
  obtain c2 info' where reg: "register_papi_event ?c1 info = (c2, info')" by (metis prod.exhaust)
  obtain n where set': "buf_set (used_events c) (used_events_count c) info' =
      Done (Buf (es @ info' # replicate n zero_event_info))"
    using filled_next(2) [OF c room] by blast
  have backend: "backend info = UBENCH_EVENT_BACKEND_PAPI" using papi by simp
  have "filled c' (es @ [info'])"
    using run papi c register_keeps [OF reg]
    by (auto simp: store_event_def Let_def set' obind_Done_iff filled_def
        reg [unfolded backend Suc_eq_plus1 [symmetric]] split: if_splits)
  then show ?thesis using register_keeps [OF reg] by metis
qed

lemma add_event_requested:
  assumes chars: "chars_delivered P" and c: "filled c es"
    and run: "add_event P name c s = Done (True, c', s')"
  shows "\<exists>e. requested P name e \<and> filled c' (es @ [e])"
proof -
  obtain event s1 x info s2 where steps: "GetStringUTFChars P name s = (event, s1)"
    "buf_get (used_events c) (used_events_count c) = Done x"
    "call_ext (ubench_event_resolve P event x) s1 = ((True, info), s2)"
    "store_event P info c = Done (True, c')"
    by (rule add_event_steps [OF run])
  have event: "event = Some name"
    using GetStringUTFChars_result(1) [OF steps(1)] chars by (simp add: chars_delivered_def)
  have room: "length es < length (cells (used_events c))"
    using c steps(2) by (auto simp: filled_def split: if_splits)
  then have "ubench_event_resolve P (Some name) zero_event_info (world s1) = ((True, info), world s2)"
    using call_ext_result_world [OF steps(3)] filled_next(1) [OF c room] steps(2) event by simp
  then have "requested P name (info\<lparr>papi_index := k\<rparr>)" for k
    unfolding requested_def by blast
  then show ?thesis
    using store_event_filled [OF c room steps(4)] by blast
qed

lemma add_events_requested:
  assumes chars: "chars_delivered P"
  shows "add_events P names c s = Done (True, c', s') \<Longrightarrow> filled c es \<Longrightarrow>
    \<exists>new. list_all2 (requested P) names new \<and> filled c' (es @ new)"
proof (induction names arbitrary: c s es)
  case Nil
  then show ?case by auto
next
  case (Cons name names)
  obtain c1 s1 where one: "add_event P name c s = Done (True, c1, s1)"
    and rest: "add_events P names c1 s1 = Done (True, c', s')"
    using Cons.prems(1) by (auto simp: obind_Done_iff split: if_splits)
  obtain e where e: "requested P name e" "filled c1 (es @ [e])"
    using add_event_requested [OF chars Cons.prems(2) one] by blast
  obtain new where "list_all2 (requested P) names new" "filled c' ((es @ [e]) @ new)"
    using Cons.IH [OF rest e(2)] by blast
  then show ?case
    using e(1) by (intro exI [of _ "e # new"]) simp
qed

text \<open>The failing paths never report success, so the rest of the creation leaves the events alone.\<close>

lemma papi_failure_fails: "papi_failure P accessible rc f c s = Done (ok, c', s') \<Longrightarrow> \<not> ok"
  by (auto simp: papi_failure_def obind_Done_iff)

lemma set_options_keeps:
  "set_options P accessible options c s = Done (True, c', s') \<Longrightarrow> c' = c"
  by (induction options arbitrary: s) (auto split: prod.splits if_splits dest: papi_failure_fails)

lemma add_papi_events_keeps:
  "add_papi_events P accessible codes c s = Done (True, c', s') \<Longrightarrow> c' = c"
  by (induction codes arbitrary: s) (auto split: prod.splits if_splits dest: papi_failure_fails)

lemma setup_papi_keeps:
  assumes "setup_papi P accessible options c s = Done (True, c', s')"
  shows "used_events c' = used_events c \<and> used_events_count c' = used_events_count c"
proof -
  obtain h c1 s1 s2 where "set_options P accessible options (c\<lparr>papi_eventset := h\<rparr>) s1 = Done (True, c1, s2)"
    "add_papi_events P accessible (used_papi_events c1) c1 s2 = Done (True, c', s')"
    using assms
    by (auto simp: setup_papi_def Let_def obind_Done_iff split: prod.splits if_splits
        dest: papi_failure_fails)
  then have "c1 = c\<lparr>papi_eventset := h\<rparr>" "c' = c1"
    by (simp_all add: set_options_keeps add_papi_events_keeps)
  then show ?thesis by simp
qed

text \<open>How a set-up that succeeds ran, and its last step.\<close>

lemma setup_eventset_steps:
  assumes run: "setup_eventset P m names options c0 s = Done (True, c, s')"
  obtains s1 s2 c5 s3 where "call_ext (malloc_ok P) s = (True, s1)" "call_ext (malloc_ok P) (count_blocks 1 s1) = (True, s2)"
    "add_events P names (cleared_config P m (length names) c0) (count_blocks 1 s2) = Done (True, c5, s3)"
    "finish_setup P options c5 s3 = Done (True, c, s')"
  using run by (auto simp: setup_eventset_def obind_Done_iff split: prod.split_asm if_split_asm)

lemma finish_setup_steps:
  assumes "finish_setup P options c0 s = Done (True, c, s')"
  obtains "c = c0" "s' = s" | acc s1 s2 where "GetIntArrayElements P options s = (acc, s1)"
    "s' = ReleaseIntArrayElements acc s2"
    "c = c0 \<and> s2 = s1 \<or> setup_papi P acc options c0 s1 = Done (True, c, s2)"
proof (cases "HAS_PAPI P")
  case True
  obtain acc s1 where e: "GetIntArrayElements P options s = (acc, s1)" by (metis prod.exhaust)
  obtain s2 where "(if uses_backend (used_backends c0) UBENCH_EVENT_BACKEND_PAPI
      then setup_papi P acc options c0 s1 else Done (True, c0, s1)) = Done (True, c, s2)"
    "s' = ReleaseIntArrayElements acc s2"
    using assms True by (auto simp: finish_setup_def e obind_Done_iff)
  with that(2) [OF e] show thesis by (auto split: if_splits)
qed (use assms that(1) in \<open>simp add: finish_setup_def\<close>)

lemma setup_eventset_requested:
  assumes chars: "chars_delivered P"
    and run: "setup_eventset P m names options c0 s = Done (True, c, s')"
  shows "\<exists>es. list_all2 (requested P) names es \<and> filled c es"
proof -
  let ?c = "cleared_config P m (length names) c0"
  obtain s2 c5 s3 where add: "add_events P names ?c (count_blocks 1 s2) = Done (True, c5, s3)"
    and rest: "finish_setup P options c5 s3 = Done (True, c, s')"
    by (rule setup_eventset_steps [OF run])
  have "used_events c = used_events c5 \<and> used_events_count c = used_events_count c5"
    using rest by (rule finish_setup_steps) (auto dest: setup_papi_keeps)
  moreover have "filled ?c []" by (auto simp: filled_def cleared_config_def Let_def)
  ultimately show ?thesis
    using add_events_requested [OF chars add] by (auto simp: filled_def)
qed

text \<open>How a successful creation ran.\<close>

lemma createEventSet_steps:
  assumes run: "Measurement_createEventSet P m names options s = Done (id', s')" and "id' \<noteq> - 1"
  obtains i s1 e c s2 where "allocate_slot P s = Done (Some i, s1)"
    "buf_get (all_eventsets s1) i = Done e"
    "setup_eventset P (m * 2) names options (config e) s1 = Done (True, c, s2)"
    "store_slot i \<lparr>config = c, valid = True\<rparr> s2 = Done s'" "id' = of_nat i"
  using assms
  by (auto simp: Measurement_createEventSet_def Let_def obind_Done_iff split: if_splits option.splits)

text \<open>A creation that succeeds throws nothing.\<close>

lemma add_event_quiet:
  assumes "add_event P name c s = Done (True, c', s')"
  shows "pending_exception s' = pending_exception s"
  by (rule add_event_steps [OF assms])
     (auto dest!: call_ext_pending GetStringUTFChars_result(3))

lemma add_events_quiet:
  "add_events P names c s = Done (True, c', s') \<Longrightarrow> pending_exception s' = pending_exception s"
proof (induction names arbitrary: c s)
  case (Cons name names)
  obtain ok c1 s1 where one: "add_event P name c s = Done (ok, c1, s1)"
    and "if ok then add_events P names c1 s1 = Done (True, c', s') else False"
    using Cons.prems by (auto simp: obind_Done_iff split: if_splits)
  then show ?case using Cons.IH [of c1 s1] add_event_quiet [of P name c s c1 s1] by (cases ok) auto
qed simp

lemma set_options_quiet:
  "set_options P accessible options c s = Done (True, c', s') \<Longrightarrow>
    pending_exception s' = pending_exception s"
  by (induction options arbitrary: s)
     (auto split: prod.splits if_splits dest: papi_failure_fails dest!: call_ext_pending)

lemma add_papi_events_quiet:
  "add_papi_events P accessible codes c s = Done (True, c', s') \<Longrightarrow> pending_exception s' = pending_exception s"
  by (induction codes arbitrary: s)
     (auto split: prod.splits if_splits dest: papi_failure_fails dest!: call_ext_pending)

lemma setup_papi_quiet:
  "setup_papi P accessible options c s = Done (True, c', s') \<Longrightarrow>
    pending_exception s' = pending_exception s"
  by (auto simp: setup_papi_def Let_def obind_Done_iff split: prod.splits if_splits
      dest: papi_failure_fails dest!: call_ext_pending set_options_quiet add_papi_events_quiet)

lemma setup_eventset_quiet:
  assumes "setup_eventset P m names options c0 s = Done (True, c, s')"
  shows "pending_exception s' = pending_exception s"
  by (rule setup_eventset_steps [OF assms], erule finish_setup_steps)
     (auto dest!: call_ext_pending add_events_quiet setup_papi_quiet GetIntArrayElements_result(3))

lemma allocate_slot_quiet:
  "allocate_slot P s = Done (Some i, s') \<Longrightarrow> pending_exception s' = pending_exception s"
  by (auto simp: allocate_slot_def obind_Done_iff Let_def dest!: call_ext_pending
      split: prod.splits if_splits option.splits)

lemma creation_throws_nothing:
  assumes "Measurement_createEventSet P m names options s = Done (j, s')" and "j \<noteq> - 1"
  shows "pending_exception s' = pending_exception s"
  by (rule createEventSet_steps [OF assms])
     (auto simp: store_slot_def obind_Done_iff dest!: allocate_slot_quiet setup_eventset_quiet)

text \<open>Where a creation that succeeds ends, and the configuration it stores.\<close>

lemma createEventSet_result:
  assumes jvm: "jvm_delivers P" and inv: "agent_inv P s" and room: "length (slots s) < 2147483647"
    and run: "Measurement_createEventSet P m names options s = Done (id', s')" and ok: "id' \<noteq> - 1"
  obtains c c0 s1 s2 where "slot_of s' id' = Some c" "config_ok P c" "world s' = world s2"
    "setup_eventset P (m * 2) names options c0 s1 = Done (True, c, s2)"
proof -
  obtain i s1 e c s2 where steps: "allocate_slot P s = Done (Some i, s1)"
    "buf_get (all_eventsets s1) i = Done e"
    "setup_eventset P (m * 2) names options (config e) s1 = Done (True, c, s2)"
    "store_slot i \<lparr>config = c, valid = True\<rparr> s2 = Done s'" "id' = of_nat i"
    by (rule createEventSet_steps [OF run ok])
  have i: "i < 2147483648"
    using allocate_slot_spec [OF jvm inv room] slots_bound [of P s1] by (simp add: steps(1) slot_chosen_def)
  have map: "slot_map s' i = Some c" and world: "world s' = world s2"
    using steps(4) by (auto simp: store_slot_def obind_Done_iff slot_map_def slots_def buf_set_Done_iff)
  have "agent_inv P s'" using created_slot [OF jvm inv room run] by blast
  then have "config_ok P c" using map by (rule slot_map_config_ok)
  moreover have "slot_of s' id' = Some c" using map by (simp only: steps(5) slot_of_of_nat [OF i])
  ultimately show thesis using that steps(3) world by blast
qed

lemma create_requested:
  assumes jvm: "jvm_delivers P" and chars: "chars_delivered P" and inv: "agent_inv P s"
    and room: "length (slots s) < 2147483647"
    and run: "Measurement_createEventSet P m names options s = Done (id', s')" and ok: "id' \<noteq> - 1"
  shows "\<exists>c. slot_of s' id' = Some c \<and> config_ok P c \<and> list_all2 (requested P) names (events_of c)"
proof -
  obtain c c0 s1 s2 where c: "slot_of s' id' = Some c" "config_ok P c"
    "setup_eventset P (m * 2) names options c0 s1 = Done (True, c, s2)"
    by (rule createEventSet_result [OF jvm inv room run ok])
  obtain es where es: "list_all2 (requested P) names es" "filled c es"
    using setup_eventset_requested [OF chars c(3)] by blast
  have "events_of c = es"
    using es(2) config_events(1,2) [OF c(2)] by (auto simp: filled_def)
  then show ?thesis using c es(1) by blast
qed

text \<open>
  C11: A created event set holds the events that were asked for: as many descriptions as names, in
  their order, each filled in by resolving its name; so the columns of the results are the
  requested events.
\<close>

theorem created_events_are_the_requested:
  assumes "jvm_delivers P" and "chars_delivered P" and "agent_inv P s" and "length (slots s) < 2147483647"
    and "Measurement_createEventSet P m names options s = Done (id', s')" and "id' \<noteq> - 1"
  shows "\<exists>c. slot_of s' id' = Some c \<and> list_all2 (requested P) names (events_of c)"
  using create_requested [OF assms] by blast

lemma sample_chars: "chars_delivered sample_platform"
  by (simp add: chars_delivered_def sample_platform_def)

theorem created_events_are_the_requested_witness:
  "\<exists>s' c e. Measurement_createEventSet sample_platform 1 [''SYS:wallclock-time''] []
      (initial_agent (0 :: nat)) = Done (0, s') \<and> slot_of s' 0 = Some c \<and> events_of c = [e] \<and>
    requested sample_platform ''SYS:wallclock-time'' e"
proof -
  obtain s' where run: "Measurement_createEventSet sample_platform 1 [''SYS:wallclock-time''] []
      (initial_agent (0 :: nat)) = Done (0, s')"
    using sample_creation ..
  from created_events_are_the_requested [OF sample_jvm sample_chars agent_inv_initial _ run]
  show ?thesis using run by (auto simp: list_all2_Cons1)
qed

section \<open>The counters of the PAPI events\<close>

text \<open>
  A reading of the PAPI counters that succeeded, and a chain of calls of \<open>PAPI_add_event\<close> that all
  succeed, from one state of the environment to another.
\<close>

definition counters_read :: "('w, 'x) papi_platform_scheme \<Rightarrow> snapshot \<Rightarrow> bool" where
  "counters_read P a \<longleftrightarrow> papi_rc1 a = PAPI_OK P \<and> papi_rc2 a = PAPI_OK P \<and>
    length (papi_events a) = UBENCH_MAX_PAPI_EVENTS"

fun counters_added :: "'w platform \<Rightarrow> c_int \<Rightarrow> c_int list \<Rightarrow> 'w \<Rightarrow> 'w \<Rightarrow> bool" where
  "counters_added P handle [] w w' \<longleftrightarrow> w' = w"
| "counters_added P handle (code # codes) w w' \<longleftrightarrow>
     (\<exists>w1. PAPI_add_event P handle code w = (PAPI_OK P, w1) \<and> counters_added P handle codes w1 w')"

lemma add_papi_events_added:
  "add_papi_events P accessible codes c s = Done (True, c', s') \<Longrightarrow>
    c' = c \<and> counters_added P (papi_eventset c) codes (world s) (world s')"
  by (induction codes arbitrary: s)
     (auto split: prod.splits if_splits dest: papi_failure_fails dest!: call_ext_result_world)

lemma setup_papi_added:
  assumes "setup_papi P accessible options c s = Done (True, c', s')"
  shows "\<exists>h w. c' = c\<lparr>papi_eventset := h\<rparr> \<and> counters_added P h (used_papi_events c) w (world s')"
proof -
  obtain h c1 s1 s2 where "set_options P accessible options (c\<lparr>papi_eventset := h\<rparr>) s1 = Done (True, c1, s2)"
    "add_papi_events P accessible (used_papi_events c1) c1 s2 = Done (True, c', s')"
    using assms
    by (auto simp: setup_papi_def Let_def obind_Done_iff split: prod.splits if_splits
        dest: papi_failure_fails)
  then have "c' = c\<lparr>papi_eventset := h\<rparr> \<and> counters_added P h (used_papi_events c) (world s2) (world s')"
    by (auto dest!: set_options_keeps add_papi_events_added)
  then show ?thesis by blast
qed

lemma finish_setup_added:
  assumes run: "finish_setup P options c0 s = Done (True, c, s')" and papi: "HAS_PAPI P"
    and uses: "uses_backend (used_backends c) UBENCH_EVENT_BACKEND_PAPI"
  shows "\<exists>w. counters_added P (papi_eventset c) (used_papi_events c) w (world s')"
proof -
  obtain acc s1 where e: "GetIntArrayElements P options s = (acc, s1)" by (metis prod.exhaust)
  obtain s2 where part: "(if uses_backend (used_backends c0) UBENCH_EVENT_BACKEND_PAPI
      then setup_papi P acc options c0 s1 else Done (True, c0, s1)) = Done (True, c, s2)"
    and s': "s' = ReleaseIntArrayElements acc s2"
    using run papi by (auto simp: finish_setup_def e obind_Done_iff)
  then have "setup_papi P acc options c0 s1 = Done (True, c, s2)"
    using uses by (auto split: if_splits)
  then obtain h w where "c = c0\<lparr>papi_eventset := h\<rparr>" "counters_added P h (used_papi_events c0) w (world s2)"
    using setup_papi_added by blast
  then show ?thesis using s' by (auto simp: borrowing_defs)
qed

lemma setup_eventset_added:
  assumes run: "setup_eventset P m names options c0 s = Done (True, c, s')" and papi: "HAS_PAPI P"
    and uses: "uses_backend (used_backends c) UBENCH_EVENT_BACKEND_PAPI"
  shows "\<exists>w. counters_added P (papi_eventset c) (used_papi_events c) w (world s')"
  by (rule setup_eventset_steps [OF run]) (rule finish_setup_added [OF _ papi uses])

lemma papi_event_used:
  "event_ok P b e \<Longrightarrow> is_papi e \<Longrightarrow> uses_backend b UBENCH_EVENT_BACKEND_PAPI"
  by (auto simp: event_ok_def is_papi_def backend_defs)

text \<open>A PAPI event has the PAPI getters and the index of its own counter, or 0 when it has none.\<close>

lemma papi_event_getters: "resolved P e \<Longrightarrow> is_papi e \<Longrightarrow> op_get_raw e = Some Papi \<and> op_get e = Some Papi"
  by (auto simp: resolved_def is_papi_def known_events_def plain_event_def backend_defs split: if_splits)

lemma papi_event_reads:
  assumes "counters_read P a" "counters_read P b" and e: "resolved P e" "is_papi e" "papi_index e < UBENCH_MAX_PAPI_EVENTS"
  shows "call_op_get_raw P freq a e = Done (papi_events a ! papi_index e)"
    "call_op_get P freq a b e = Done (papi_events b ! papi_index e - papi_events a ! papi_index e)"
  using assms papi_event_getters [OF e(1,2)]
  by (simp_all add: call_op_get_def call_op_get_raw_def getter_papi_def getter_raw_papi_def counters_read_def)

lemma papi_event_without_counter:
  assumes "papi_table_ok used es" and "e \<in> set es" "is_papi e" "event_id e \<notin> set used"
  shows "20 < card (papi_codes es)" and "papi_index e = 0"
proof -
  have used: "distinct used" "length used = 20" "set used \<subseteq> papi_codes es"
    using assms by (auto simp: papi_table_ok_def papi_codes_def UBENCH_MAX_PAPI_EVENTS_def nat_less_le)
  have "insert (event_id e) (set used) \<subseteq> papi_codes es"
    using assms used by (auto simp: papi_codes_def)
  then have "card (insert (event_id e) (set used)) \<le> card (papi_codes es)"
    by (rule card_mono [rotated]) (simp add: papi_codes_def)
  then show "20 < card (papi_codes es)" using used assms(4) by (simp add: distinct_card)
  show "papi_index e = 0" using assms by (auto simp: papi_table_ok_def papi_index_ok_def)
qed

text \<open>
  C14: When \<open>createEventSet\<close> succeeds on a build with PAPI, the codes that it handed to PAPI, in this
  order and each successfully, are the first 20 different codes of the set's PAPI events. On readings
  of PAPI that succeeded, both getters of a PAPI event read the counter at the place of the event's
  own code in this list. Only when the set has more than 20 different codes, the events whose code is
  not in the list silently read counter 0, the one of the first PAPI event.
\<close>

theorem papi_events_read_their_counter:
  assumes "jvm_delivers P" and "agent_inv P s" and "length (slots s) < 2147483647" and "HAS_PAPI P"
    and "Measurement_createEventSet P m names options s = Done (id', s')" and "id' \<noteq> - 1"
  shows "\<exists>c. slot_of s' id' = Some c \<and> (let codes = papi_counters (events_of c) in
    ((\<exists>e \<in> set (events_of c). is_papi e) \<longrightarrow>
      (\<exists>w. counters_added P (papi_eventset c) codes w (world s'))) \<and>
    (\<forall>e \<in> set (events_of c). is_papi e \<longrightarrow>
      (\<exists>k. (if event_id e \<in> set codes then k < length codes \<and> codes ! k = event_id e
            else k = 0 \<and> 20 < card (papi_codes (events_of c))) \<and>
        (\<forall>freq a b. counters_read P a \<and> counters_read P b \<longrightarrow>
          call_op_get_raw P freq a e = Done (papi_events a ! k) \<and>
          call_op_get P freq a b e = Done (papi_events b ! k - papi_events a ! k)))))"
proof -
  obtain c c0 s1 s2 where c: "slot_of s' id' = Some c" "config_ok P c" and world: "world s' = world s2"
    and run: "setup_eventset P (m * 2) names options c0 s1 = Done (True, c, s2)"
    by (rule createEventSet_result [OF assms(1-3,5,6)])
  let ?es = "events_of c" and ?codes = "papi_counters (events_of c)"
  have table: "papi_table_ok (used_papi_events c) ?es" and ok: "\<forall>e \<in> set ?es. event_ok P (used_backends c) e"
    using config_events [OF c(2)] \<open>HAS_PAPI P\<close> by auto
  have codes: "used_papi_events c = ?codes" using table by (simp add: papi_table_ok_def)
  have added: "\<exists>w. counters_added P (papi_eventset c) ?codes w (world s')"
    if e: "e \<in> set ?es" "is_papi e" for e
    using e ok run codes world by (metis papi_event_used setup_eventset_added \<open>HAS_PAPI P\<close>)
  have reads: "(if event_id e \<in> set ?codes then papi_index e < length ?codes \<and> ?codes ! papi_index e = event_id e
      else papi_index e = 0 \<and> 20 < card (papi_codes ?es))"
    "counters_read P a \<and> counters_read P b \<longrightarrow>
      call_op_get_raw P freq a e = Done (papi_events a ! papi_index e) \<and>
      call_op_get P freq a b e = Done (papi_events b ! papi_index e - papi_events a ! papi_index e)"
    if e: "e \<in> set ?es" "is_papi e" for e freq a b
  proof -
    have "papi_index_ok ?codes e" using table e codes by (simp add: papi_table_ok_def)
    then show "(if event_id e \<in> set ?codes then papi_index e < length ?codes \<and> ?codes ! papi_index e = event_id e
      else papi_index e = 0 \<and> 20 < card (papi_codes ?es))"
      using papi_event_without_counter(1) [OF table e] codes by (auto simp: papi_index_ok_def)
    show "counters_read P a \<and> counters_read P b \<longrightarrow>
      call_op_get_raw P freq a e = Done (papi_events a ! papi_index e) \<and>
      call_op_get P freq a b e = Done (papi_events b ! papi_index e - papi_events a ! papi_index e)"
      using ok e by (auto simp: event_ok_def intro: papi_event_reads)
  qed
  show ?thesis
    unfolding Let_def
    by (intro exI [of _ c] conjI c(1) ballI impI)
       (use added reads in \<open>blast+\<close>)
qed

lemma sample_resolution:
  "ubench_event_resolve sample_platform (Some ''PAPI_TOT_INS'') zero_event_info w =
    ((True, \<lparr>backend = UBENCH_EVENT_BACKEND_PAPI, event_id = 50, event_papi_component = 0, papi_index = 0,
      op_get_raw = Some Papi, op_get = Some Papi, event_name = Some ''PAPI_TOT_INS''\<rparr>), w)"
  "ubench_event_resolve sample_platform (Some ''PAPI_L1_DCM'') zero_event_info w =
    ((True, \<lparr>backend = UBENCH_EVENT_BACKEND_PAPI, event_id = 51, event_papi_component = 0, papi_index = 0,
      op_get_raw = Some Papi, op_get = Some Papi, event_name = Some ''PAPI_L1_DCM''\<rparr>), w)"
  "ubench_event_resolve sample_platform (Some ''rapl:ENERGY'') zero_event_info w =
    ((True, \<lparr>backend = UBENCH_EVENT_BACKEND_PAPI, event_id = 52, event_papi_component = 1, papi_index = 0,
      op_get_raw = Some Papi, op_get = Some Papi, event_name = Some ''rapl:ENERGY''\<rparr>), w)"
  by (simp_all add: ubench_event_resolve_def known_events_def plain_event_def resolve_papi_event_def
      icase.same_iff icase.starts_iff c_tolower_eq fill_event_info_eq zero_event_info_def sample_platform_def)

definition sample_cache_misses :: ubench_event_info_t where
  "sample_cache_misses = sample_papi_event\<lparr>event_id := 51, event_name := Some ''PAPI_L1_DCM''\<rparr>"

lemma sample_papi_creation:
  "\<exists>s1. Measurement_createEventSet sample_platform 1
    [''PAPI_L1_DCM'', ''PAPI_TOT_INS'', ''PAPI_L1_DCM''] [] (initial_agent (0 :: nat)) = Done (0, s1) \<and>
    map_option events_of (slot_of s1 0) =
      Some [sample_cache_misses, sample_papi_event\<lparr>papi_index := 1\<rparr>, sample_cache_misses]"
proof -
  let ?P = "sample_platform"
  have P: "HAS_PAPI ?P" "malloc_ok ?P = (\<lambda>w. (True, w))" "jni_GetStringUTFChars ?P = (\<lambda>n w. (Some n, w))"
    "jni_GetIntArrayElements ?P = (\<lambda>xs w. (True, w))" "PAPI_OK ?P = 0"
    "PAPI_create_eventset ?P = (\<lambda>h w. ((0, of_nat w), w + 1))" "PAPI_add_event ?P = (\<lambda>h e w. (0, w))"
    "PAPI_assign_eventset_component ?P = (\<lambda>h k w. (0, w))"
    by (simp_all add: sample_platform_def)
  show ?thesis
    by (simp add: Measurement_createEventSet_def allocate_slot_def initial_agent_def call_ext_def
        P Let_def setup_eventset_def cleared_config_def indeterminate_slot_def,
      simp add: P add_event_def store_event_def register_papi_event_def borrowing_defs call_ext_def
        backend_defs sample_resolution UBENCH_MAX_PAPI_EVENTS_def,
      simp add: P finish_setup_def setup_papi_def borrowing_defs backend_defs Let_def store_slot_def
        call_ext_def slot_of_def slot_map_def slots_def events_of_def sample_papi_event_def
        sample_cache_misses_def)
qed

theorem papi_events_read_their_counter_witness:
  "\<exists>s1 c. Measurement_createEventSet sample_platform 1
      [''PAPI_L1_DCM'', ''PAPI_TOT_INS'', ''PAPI_L1_DCM''] [] (initial_agent (0 :: nat)) = Done (0, s1) \<and>
    slot_of s1 0 = Some c \<and> (\<exists>w. counters_added sample_platform (papi_eventset c) [51, 50] w (world s1)) \<and>
    (\<forall>a b. counters_read sample_platform a \<and> counters_read sample_platform b \<longrightarrow>
      call_op_get sample_platform 0 a b (events_of c ! 1) = Done (papi_events b ! 1 - papi_events a ! 1))"
proof -
  obtain s1 c where create: "Measurement_createEventSet sample_platform 1
      [''PAPI_L1_DCM'', ''PAPI_TOT_INS'', ''PAPI_L1_DCM''] [] (initial_agent (0 :: nat)) = Done (0, s1)"
    and c: "slot_of s1 0 = Some c" and es: "events_of c =
      [sample_cache_misses, sample_papi_event\<lparr>papi_index := 1\<rparr>, sample_cache_misses]"
    using sample_papi_creation by auto
  have papi: "HAS_PAPI sample_platform" by (simp add: sample_platform_def)
  have e: "is_papi (events_of c ! 1)" "event_id (events_of c ! 1) = 50" "events_of c ! 1 \<in> set (events_of c)"
    by (simp_all add: es is_papi_def sample_papi_event_def)
  have codes: "papi_counters (events_of c) = [51, 50]"
    by (simp add: es papi_counters_def is_papi_def sample_cache_misses_def sample_papi_event_def
        UBENCH_MAX_PAPI_EVENTS_def)
  obtain c' where "slot_of s1 0 = Some c'" and result: "let codes = papi_counters (events_of c') in
    ((\<exists>e \<in> set (events_of c'). is_papi e) \<longrightarrow>
      (\<exists>w. counters_added sample_platform (papi_eventset c') codes w (world s1))) \<and>
    (\<forall>e \<in> set (events_of c'). is_papi e \<longrightarrow>
      (\<exists>k. (if event_id e \<in> set codes then k < length codes \<and> codes ! k = event_id e
            else k = 0 \<and> 20 < card (papi_codes (events_of c'))) \<and>
        (\<forall>freq a b. counters_read sample_platform a \<and> counters_read sample_platform b \<longrightarrow>
          call_op_get_raw sample_platform freq a e = Done (papi_events a ! k) \<and>
          call_op_get sample_platform freq a b e = Done (papi_events b ! k - papi_events a ! k))))"
    using papi_events_read_their_counter [OF sample_jvm agent_inv_initial _ papi create] by auto
  then have "c' = c" using c by simp
  note result = result [unfolded Let_def this codes]
  have "\<exists>w. counters_added sample_platform (papi_eventset c) [51, 50] w (world s1)"
    using result e by blast
  moreover obtain k where "k < length [51, 50 :: c_int] \<and> [51, 50 :: c_int] ! k = 50"
    and reads: "\<forall>freq a b. counters_read sample_platform a \<and> counters_read sample_platform b \<longrightarrow>
        call_op_get_raw sample_platform freq a (events_of c ! 1) = Done (papi_events a ! k) \<and>
        call_op_get sample_platform freq a b (events_of c ! 1) = Done (papi_events b ! k - papi_events a ! k)"
    using bspec [OF conjunct2 [OF result] e(3)] e(1,2) by auto
  moreover from this have "k = 1" by (cases k) auto
  ultimately show ?thesis using create c by blast
qed

section \<open>Success and refusal without PAPI\<close>

text \<open>Without PAPI a name is known when it is one of the table, in any spelling.\<close>

definition named_event :: "('w, 'x) c_platform_scheme \<Rightarrow> string \<Rightarrow> bool" where
  "named_event P name \<longleftrightarrow> (\<exists>k \<in> set (known_events P). ubench_str_is_icase_equal name (known_name k))"

lemma resolve_named:
  assumes "\<not> HAS_PAPI P"
  shows "fst (fst (ubench_event_resolve P (Some name) info w)) \<longleftrightarrow> named_event P name"
proof (cases "named_event P name")
  case True
  then obtain k where k: "k \<in> set (known_events P)" "ubench_str_is_icase_equal name (known_name k)"
    by (auto simp: named_event_def)
  moreover have "resolver k = None"
    using k(1) assms by (auto simp: known_events_def plain_event_def split: if_splits)
  ultimately show ?thesis using True by (simp add: resolve_plain fill_event_info_eq)
next
  case False
  have "\<forall>it \<in> set (known_events P). resolver it = None"
    using assms by (auto simp: known_events_def plain_event_def)
  then have "\<forall>it \<in> set (known_events P). \<not> entry_matches it name"
    using False by (auto simp: named_event_def entry_matches_def)
  then show ?thesis
    using False by (simp add: ubench_event_resolve_def resolve_in_skip_all)
qed

text \<open>The exception for the first unknown name, and a part that reports it or succeeds without one.\<close>

definition refusal :: "('w, 'x) c_platform_scheme \<Rightarrow> string list \<Rightarrow> string option" where
  "refusal P names = (case dropWhile (named_event P) names of
     [] \<Rightarrow> None | name # _ \<Rightarrow> Some (unrecognized_event_message name))"

definition outcome_as ::
    "string option \<Rightarrow> 'w agent \<Rightarrow> bool \<times> benchmark_configuration_t \<times> 'w agent \<Rightarrow> bool" where
  "outcome_as problem s r = (case r of (ok, c', s') \<Rightarrow> ok = (problem = None) \<and>
    pending_exception s' = (case problem of None \<Rightarrow> pending_exception s | Some m \<Rightarrow> Some m))"

lemma refusal_Cons:
  "refusal P (name # names) = (case refusal P [name] of None \<Rightarrow> refusal P names | Some m \<Rightarrow> Some m)"
  by (simp add: refusal_def)

lemma refusal_None: "refusal P names = None \<longleftrightarrow> (\<forall>name \<in> set names. named_event P name)"
  by (induction names) (simp_all add: refusal_def)

lemma refusal_eq:
  "refusal P names = (if \<forall>name \<in> set names. named_event P name then None
    else Some (unrecognized_event_message (hd (dropWhile (named_event P) names))))"
  by (induction names) (auto simp: refusal_def)

lemma add_event_plain:
  assumes papi: "\<not> HAS_PAPI P" and jvm: "jvm_delivers P" and chars: "chars_delivered P"
    and events: "events_ok P n c" and room: "used_events_count c < n" and live: "is_live (data c)"
  shows "returns (add_event P name c s) (outcome_as (refusal P [name]) s)"
proof -
  note cell = events_ok_next_cell [OF events room]
  obtain event s1 where e1: "GetStringUTFChars P name s = (event, s1)"
    by (metis prod.exhaust)
  have event: "event = Some name"
    using GetStringUTFChars_result(1) [OF e1] chars by (simp add: chars_delivered_def)
  obtain ok info s2 where e2:
    "call_ext (ubench_event_resolve P (Some name) zero_event_info) s1 = ((ok, info), s2)"
    by (metis prod.exhaust)
  have ok: "ok \<longleftrightarrow> named_event P name"
    using call_ext_result [OF e2] resolve_named [OF papi, of name zero_event_info "world s1"]
    by (metis fst_conv)
  have same: "pending_exception s2 = pending_exception s"
    using GetStringUTFChars_result(3) [OF e1] call_ext_pending [OF e2] by simp
  have blocks: "free_blocks c = Done (c\<lparr>used_events := Indet, data := Indet\<rparr>)"
    using live cell(2) by (simp add: free_blocks_returns)
  show ?thesis
  proof (cases "named_event P name")
    case True
    obtain b where "buf_set (used_events c) (used_events_count c) info = Done b"
      using store_event_room [OF events room] by blast
    then obtain c' where "store_event P info c = Done (True, c')"
      using papi by (simp add: store_event_def Let_def)
    then show ?thesis
      using True ok same by (simp add: add_event_def e1 event cell(1) e2 outcome_as_def refusal_def)
  next
    case False
    have "returns (do_throw P (unrecognized_event_message name)
        (count_blocks (- 2) (ReleaseStringUTFChars (Some name) s2)))
        (\<lambda>s3. pending_exception s3 = Some (unrecognized_event_message name))"
      by (rule returns_mono [OF do_throw_spec [OF jvm]]) (simp add: threw_def)
    then show ?thesis
      using False ok by (simp add: add_event_def e1 event cell(1) e2 blocks returns_bind outcome_as_def refusal_def)
  qed
qed

lemma add_events_plain:
  assumes papi: "\<not> HAS_PAPI P" and jvm: "jvm_delivers P" and chars: "chars_delivered P"
    and "events_ok P n c" and "used_events_count c + length names = n" and "is_live (data c)"
  shows "returns (add_events P names c s) (outcome_as (refusal P names) s)"
  using assms(4-)
proof (induction names arbitrary: c s)
  case Nil
  then show ?case by (simp add: outcome_as_def refusal_def)
next
  case (Cons name names)
  have room: "used_events_count c < n" using Cons.prems(2) by simp
  obtain ok c1 s1 where one: "add_event P name c s = Done (ok, c1, s1)"
    "outcome_as (refusal P [name]) s (ok, c1, s1)"
    using add_event_plain [OF papi jvm chars Cons.prems(1) room Cons.prems(3), of name s]
    by (auto simp: returns_iff)
  show ?case
  proof (cases ok)
    case False
    then show ?thesis
      using one by (auto simp: outcome_as_def refusal_Cons [of P name names])
  next
    case True
    then have "events_ok P n c1" "used_events_count c1 = used_events_count c + 1" "same_data c c1"
      using add_event_spec [OF jvm Cons.prems(1) room Cons.prems(3), where jname = name and s = s] one(1)
      by simp_all
    then have "returns (add_events P names c1 s1) (outcome_as (refusal P names) s1)"
      using Cons.prems by (intro Cons.IH) (simp_all add: same_data_def)
    then show ?thesis
      using True one
      by (auto simp: outcome_as_def refusal_Cons [of P name names] split: option.splits elim!: returns_mono)
  qed
qed

lemma malloc_suffices:
  "memory_suffices P \<Longrightarrow> \<exists>s1. call_ext (malloc_ok P) s = (True, s1) \<and> unchanged s s1 \<and>
    pending_exception s1 = pending_exception s"
  unfolding memory_suffices_def call_ext_def unchanged_def
  by (cases "malloc_ok P (world s)") (auto dest: spec [of _ "world s"])

lemma setup_eventset_plain:
  assumes papi: "\<not> HAS_PAPI P" and jvm: "jvm_delivers P" and chars: "chars_delivered P"
    and memory: "memory_suffices P"
  shows "returns (setup_eventset P m names options c0 s) (outcome_as (refusal P names) s)"
proof -
  obtain s1 where s1: "call_ext (malloc_ok P) s = (True, s1)" "pending_exception s1 = pending_exception s"
    using malloc_suffices [OF memory] by blast
  obtain s2 where s2: "call_ext (malloc_ok P) (count_blocks 1 s1) = (True, s2)"
    "pending_exception s2 = pending_exception s1"
    using malloc_suffices [OF memory, of "count_blocks 1 s1"] by auto
  have "returns (add_events P names (cleared_config P m (length names) c0) (count_blocks 1 s2))
      (outcome_as (refusal P names) (count_blocks 1 s2))"
    by (rule add_events_plain [OF papi jvm chars cleared_config_start(1)])
       (simp_all add: cleared_config_start)
  then show ?thesis
    using papi s1 s2
    by (auto simp: setup_eventset_def finish_setup_def returns_bind outcome_as_def elim!: returns_mono)
qed

lemma allocate_slot_succeeds:
  assumes jvm: "jvm_delivers P" and inv: "agent_inv P s" and room: "length (slots s) < 2147483647"
    and memory: "memory_suffices P"
  shows "\<exists>i s1. allocate_slot P s = Done (Some i, s1) \<and> i < length (slots s1) \<and> agent_inv P s1 \<and>
    pending_exception s1 = pending_exception s"
proof -
  obtain r s1 where run: "allocate_slot P s = Done (r, s1)" and inv1: "agent_inv P s1"
    and r: "case r of None \<Rightarrow> pending_exception s1 \<noteq> None | Some i \<Rightarrow> i < length (slots s1)"
    using allocate_slot_spec [OF jvm inv room]
    by (auto simp: returns_iff slot_chosen_def split: option.splits)
  obtain s2 where s2: "call_ext (malloc_ok P) s = (True, s2)" "pending_exception s2 = pending_exception s"
    using malloc_suffices [OF memory] by blast
  have "r \<noteq> None \<and> pending_exception s1 = pending_exception s"
    using run s2 by (auto simp: allocate_slot_def obind_Done_iff Let_def split: option.splits)
  then show ?thesis using run inv1 r by auto
qed

text \<open>
  C17: On a build without PAPI, with memory left, \<open>createEventSet\<close> for \<open>1\<close> to \<open>2^30 - 1\<close> measurements of at
  least one event succeeds exactly when every name is known, and then throws nothing; otherwise it
  returns -1 with an exception that names the first unknown event, cut to 509 characters.
\<close>

theorem creation_without_papi:
  assumes papi: "\<not> HAS_PAPI P" and jvm: "jvm_delivers P" and chars: "chars_delivered P"
    and memory: "memory_suffices P"
    and inv: "agent_inv P s" and room: "length (slots s) < 2147483647"
    and m: "0 < sint jmeasurements" "sint jmeasurements < 1073741824" and names: "jeventNames \<noteq> []"
  shows "returns (Measurement_createEventSet P jmeasurements jeventNames joptions s) (\<lambda>(id', s').
    if \<forall>name \<in> set jeventNames. named_event P name
    then id' \<noteq> - 1 \<and> pending_exception s' = pending_exception s
    else id' = - 1 \<and> pending_exception s' = Some (take 509 (''Unrecognized event '' @
      hd (dropWhile (named_event P) jeventNames) @ ''.'')))"
proof -
  obtain i s1 where i: "allocate_slot P s = Done (Some i, s1)" "i < length (slots s1)" "agent_inv P s1"
    "pending_exception s1 = pending_exception s"
    using allocate_slot_succeeds [OF jvm inv room memory] by blast
  have small: "i < 2147483648" using i(2) slots_bound [OF i(3)] by simp
  have ident: "(of_nat i :: c_int) \<noteq> - 1" using sint_of_nat32 [OF small] by auto
  have get: "buf_get (all_eventsets s1) i = Done (slots s1 ! i)" using i(2) by (simp add: slots_def)
  have positive: "\<not> sint (jmeasurements * 2) \<le> 0" using m by (simp add: sint_double)
  obtain ok c s2 where parts: "setup_eventset P (jmeasurements * 2) jeventNames joptions (config (slots s1 ! i)) s1 =
      Done (ok, c, s2)" "outcome_as (refusal P jeventNames) s1 (ok, c, s2)"
    using setup_eventset_plain [OF papi jvm chars memory] by (fastforce simp: returns_iff)
  have run: "Measurement_createEventSet P jmeasurements jeventNames joptions s =
      obind (store_slot i \<lparr>config = c, valid = ok\<rparr> s2) (\<lambda>s3. Done (if ok then of_nat i else - 1, s3))"
    using positive names by (simp add: Measurement_createEventSet_def Let_def i(1) get parts(1))
  obtain r where r: "Measurement_createEventSet P jmeasurements jeventNames joptions s = Done r"
    using createEventSet_created [OF jvm inv room, of jmeasurements jeventNames joptions]
    unfolding returns_iff by blast
  then have "fst r = (if ok then of_nat i else - 1)" "pending_exception (snd r) = pending_exception s2"
    unfolding run by (auto simp: obind_Done_iff store_slot_def)
  moreover have "ok \<longleftrightarrow> (\<forall>name \<in> set jeventNames. named_event P name)"
    using parts(2) by (simp add: outcome_as_def refusal_None)
  moreover have "pending_exception s2 = (case refusal P jeventNames of None \<Rightarrow> pending_exception s | Some x \<Rightarrow> Some x)"
    using parts(2) i(4) by (simp add: outcome_as_def split: option.split)
  ultimately show ?thesis
    using ident r by (cases r) (auto simp: refusal_eq unrecognized_event_message_def)
qed

theorem creation_without_papi_witness:
  "returns (Measurement_createEventSet (sample_platform\<lparr>HAS_PAPI := False\<rparr>) 5
      [''sys:WALLCLOCK-time'', ''SYS:nothing''] [] (initial_agent (0 :: nat))) (\<lambda>(id', s').
    id' = - 1 \<and> pending_exception s' = Some ''Unrecognized event SYS:nothing.'')"
proof -
  let ?P = "sample_platform\<lparr>HAS_PAPI := False\<rparr>"
  have P: "\<not> HAS_PAPI ?P" "jvm_delivers ?P" "chars_delivered ?P" "memory_suffices ?P"
    by (simp_all add: sample_platform_def jvm_delivers_def chars_delivered_def memory_suffices_def)
  have names: "named_event ?P ''sys:WALLCLOCK-time''" "\<not> named_event ?P ''SYS:nothing''"
    by (simp_all add: named_event_def known_events_def plain_event_def icase.same_iff c_tolower_eq
        sample_platform_def)
  from creation_without_papi [OF P agent_inv_initial, of 0 5 "[''sys:WALLCLOCK-time'', ''SYS:nothing'']" "[]"]
  show ?thesis by (auto simp: names elim!: returns_mono)
qed

section \<open>Destruction\<close>

text \<open>
  C18: \<open>destroyEventSet\<close> returns for every identifier (neither of its two calls of \<open>free\<close> meets a block
  that is not allocated) and makes it invalid; every other event set stays as it was. For an
  identifier that is not valid, so also when it destroys an event set once more, it changes
  nothing and throws.
\<close>

theorem destroyEventSet_spec:
  assumes jvm: "jvm_delivers P" and inv: "agent_inv P s"
  shows "returns (Measurement_destroyEventSet P jid s) (\<lambda>s1. agent_inv P s1 \<and>
    (\<forall>j. slot_of s1 j = (if j = jid then None else slot_of s j)) \<and>
    (if slot_of s jid = None then unchanged s s1 \<and> pending_exception s1 = Some ''Invalid event set id.''
     else pending_exception s1 = pending_exception s) \<and>
    returns (Measurement_destroyEventSet P jid s1) (\<lambda>s2. unchanged s1 s2 \<and>
      pending_exception s2 = Some ''Invalid event set id.''))"
proof (rule returns_mono [OF destroy_spec [OF jvm inv]], elim conjE)
  fix s1
  assume inv1: "agent_inv P s1" and change: "if slot_of s jid = None then threw INVALID_ID_MESSAGE s s1
    else slot_map s1 = (slot_map s)(nat (sint jid) := None) \<and>
      pending_exception s1 = pending_exception s \<and> agent_counters s1 = agent_counters s \<and>
      length (slots s1) = length (slots s)"
  have slots: "slot_of s1 j = (if j = jid then None else slot_of s j)" for j
  proof (cases "slot_of s jid = None")
    case True
    then have "slot_map s1 = slot_map s" using change unchanged_slots by (auto simp: threw_def)
    then have "slot_of s1 j = slot_of s j" by (simp add: slot_of_def)
    then show ?thesis using True by simp
  next
    case False
    then have "0 \<le> sint jid" by (auto simp: slot_of_def split: if_splits)
    moreover have "slot_map s1 = (slot_map s)(nat (sint jid) := None)" using False change by simp
    ultimately show ?thesis by (rule slot_of_upd)
  qed
  have "returns (Measurement_destroyEventSet P jid s1) (\<lambda>s2. unchanged s1 s2 \<and>
      pending_exception s2 = Some ''Invalid event set id.'')"
    by (rule returns_mono [OF destroy_spec [OF jvm inv1]])
       (simp add: slots threw_def INVALID_ID_MESSAGE_def)
  then show "agent_inv P s1 \<and> (\<forall>j. slot_of s1 j = (if j = jid then None else slot_of s j)) \<and>
    (if slot_of s jid = None then unchanged s s1 \<and> pending_exception s1 = Some ''Invalid event set id.''
     else pending_exception s1 = pending_exception s) \<and>
    returns (Measurement_destroyEventSet P jid s1) (\<lambda>s2. unchanged s1 s2 \<and>
      pending_exception s2 = Some ''Invalid event set id.'')"
    using inv1 slots change by (auto simp: threw_def INVALID_ID_MESSAGE_def split: if_splits)
qed

theorem destroyEventSet_spec_witness:
  "returns (Measurement_destroyEventSet sample_platform 0 sample_agent) (\<lambda>s1. slot_of s1 0 = None \<and>
    returns (Measurement_destroyEventSet sample_platform 0 s1) (\<lambda>s2.
      pending_exception s2 = Some ''Invalid event set id.''))"
  by (rule returns_mono [OF destroyEventSet_spec [OF sample_jvm sample_agent_inv]])
     (auto elim!: returns_mono)

section \<open>Two creations at once\<close>

text \<open>The search returns the first slot that is not valid.\<close>

lemma find_free_slot_eq:
  "i + n \<le> length (cells b) \<Longrightarrow> find_free_slot b i n =
    (let k = first_index (\<lambda>e. \<not> valid e) (take n (drop i (cells b))) in
     Done (if k < n then Some (i + k) else None))"
proof (induction n arbitrary: i)
  case (Suc n)
  then have "buf_get b i = Done (cells b ! i)" by simp
  moreover have "take (Suc n) (drop i (cells b)) = cells b ! i # take n (drop (Suc i) (cells b))"
    using Suc.prems by (simp add: take_Suc_conv_app_nth Cons_nth_drop_Suc [symmetric])
  ultimately show ?case using Suc.IH [of "Suc i"] Suc.prems by (simp add: Let_def)
qed simp

text \<open>With a slot that is not valid, choosing one changes nothing.\<close>

lemma allocate_slot_found:
  assumes inv: "agent_inv P s" and i: "i < length (slots s)" "\<not> valid (slots s ! i)"
    and before: "\<forall>k < i. valid (slots s ! k)"
  shows "allocate_slot P s = Done (Some i, s)"
proof -
  have len: "nat (sint (all_eventset_count s)) = length (slots s)"
    using inv by (simp add: agent_inv_def)
  let ?k = "first_index (\<lambda>e. \<not> valid e) (slots s)"
  have some: "?k < length (slots s)" using i by (auto simp: first_index_less)
  then have "\<not> valid (slots s ! ?k)" by (rule first_index_hit)
  moreover have "valid (slots s ! k)" if "k < ?k" for k
    using first_index_before [OF that] by simp
  ultimately have "?k = i" using i(2) before by (metis nat_neq_iff)
  then show ?thesis
    using some find_free_slot_eq [of 0 "length (slots s)" "all_eventsets s"]
    by (simp add: allocate_slot_def len slots_def)
qed

lemma allocate_slot_again:
  assumes jvm: "jvm_delivers P" and inv: "agent_inv P s" and room: "length (slots s) < 2147483647"
    and run: "allocate_slot P s = Done (Some i, s1)"
  shows "allocate_slot P s1 = Done (Some i, s1)"
proof -
  have len: "nat (sint (all_eventset_count s)) = length (slots s)"
    using inv by (simp add: agent_inv_def)
  have inv1: "agent_inv P s1"
    using allocate_slot_spec [OF jvm inv room] run by (simp add: slot_chosen_def)
  let ?k = "first_index (\<lambda>e. \<not> valid e) (slots s)"
  have find: "find_free_slot (all_eventsets s) 0 (length (slots s)) =
      Done (if ?k < length (slots s) then Some ?k else None)"
    using find_free_slot_eq [of 0 "length (slots s)" "all_eventsets s"] by (simp add: slots_def)
  have before: "valid (slots s ! k)" if "k < ?k" "k < length (slots s)" for k
    using first_index_before [OF that(1)] by simp
  show ?thesis
  proof (cases "?k < length (slots s)")
    case True
    then have "s1 = s" using run by (simp add: allocate_slot_def len find)
    then show ?thesis using run by simp
  next
    case False
    have "?k = length (slots s)" using False first_index_le [of "\<lambda>e. \<not> valid e" "slots s"] by simp
    obtain ok s2 where e: "call_ext (malloc_ok P) s = (ok, s2)" by (metis prod.exhaust)
    have u: "unchanged s s2" using e by (rule call_ext_unchanged)
    have ok: ok using run False by (auto simp: allocate_slot_def len find e obind_Done_iff split: if_splits)
    have count: "sint (all_eventset_count s + 1) = int (length (slots s)) + 1"
      using inv room by (intro sint_Suc32) (simp_all add: agent_inv_def)
    have indet: "all_eventsets s \<noteq> Indet" using inv by (simp add: agent_inv_def)
    have "buf_realloc indeterminate_slot (all_eventsets s) (length (slots s) + 1) =
        Done (Buf (slots s @ [indeterminate_slot]))"
      using indet by (simp add: buf_realloc_cells slots_def)
    moreover have "nat (int (length (slots s)) + 1) = length (slots s) + 1" by simp
    ultimately have "i = length (slots s) \<and>
        s1 = s2\<lparr>all_eventsets := Buf (slots s @ [indeterminate_slot]), all_eventset_count := all_eventset_count s + 1\<rparr>"
      using run False ok u
      by (simp add: allocate_slot_def len find e unchanged_def count Let_def indeterminate_slot_def)
    then have "i = length (slots s)" "slots s1 = slots s @ [indeterminate_slot]"
      by (auto simp: slots_def)
    then show ?thesis
      using before \<open>?k = _\<close> by (intro allocate_slot_found [OF inv1]) (auto simp: nth_append indeterminate_slot_def)
  qed
qed

text \<open>
  The slot that a creation chose is marked valid only at its end, and the code holds no lock in
  between (a comment in the source asks for one).
\<close>

text \<open>
  C40: Choosing a slot does not reserve it: a thread that chooses one while another creation is still
  at work gets the same slot, and if it succeeds returns the identifier that the other creation
  will return as well.
\<close>

theorem choosing_a_slot_does_not_reserve_it:
  assumes "jvm_delivers P" and "agent_inv P s" and "length (slots s) < 2147483647"
    and "allocate_slot P s = Done (Some i, s1)"
  shows "allocate_slot P s1 = Done (Some i, s1) \<and>
    (\<forall>id' s'. Measurement_createEventSet P jmeasurements jeventNames joptions s1 = Done (id', s') \<longrightarrow>
      id' = - 1 \<or> id' = of_nat i)"
  using allocate_slot_again [OF assms] by (auto elim!: createEventSet_steps)

theorem choosing_a_slot_does_not_reserve_it_witness:
  "\<exists>s1. allocate_slot sample_platform (initial_agent (0 :: nat)) = Done (Some 0, s1) \<and>
    allocate_slot sample_platform s1 = Done (Some 0, s1)"
proof -
  obtain s1 where s1: "allocate_slot sample_platform (initial_agent (0 :: nat)) = Done (Some 0, s1)"
    by (simp add: allocate_slot_def initial_agent_def call_ext_def sample_platform_def Let_def
        indeterminate_slot_def)
  then show ?thesis
    using choosing_a_slot_does_not_reserve_it [OF sample_jvm agent_inv_initial _ s1] by simp
qed

section \<open>The attaching methods as creations\<close>

text \<open>The two methods that attach the new event set to a thread.\<close>

datatype attachee = Java_thread java_tid_t | Native_thread java_tid_t

fun create_attached ::
    "'w platform \<Rightarrow> attachee \<Rightarrow> c_int \<Rightarrow> string list \<Rightarrow> c_int list \<Rightarrow> 'w agent \<Rightarrow>
      (c_int \<times> 'w agent) outcome" where
  "create_attached P (Java_thread j) m names options s =
     Measurement_createAttachedEventSetWithJavaThread P j m names options s"
| "create_attached P (Native_thread n) m names options s =
     Measurement_createAttachedEventSetWithNativeThread P n m names options s"

text \<open>The underlying creation fails, and the build looks at its result as at an index.\<close>

definition attach_overruns ::
    "'w platform \<Rightarrow> c_int \<Rightarrow> string list \<Rightarrow> c_int list \<Rightarrow> 'w agent \<Rightarrow> bool" where
  "attach_overruns P m names options s \<longleftrightarrow>
    HAS_PAPI P \<and> (\<exists>s1. Measurement_createEventSet P m names options s = Done (- 1, s1))"

lemma create_attached_overruns:
  "attach_overruns P m names options s \<Longrightarrow> create_attached P t m names options s = Fault OutOfBounds"
  by (cases t) (auto simp: attach_overruns_def get_slot_def
      Measurement_createAttachedEventSetWithJavaThread_def
      Measurement_createAttachedEventSetWithNativeThread_def)

lemma create_attached_plain:
  "\<not> HAS_PAPI P \<Longrightarrow> create_attached P t m names options s = Measurement_createEventSet P m names options s"
  by (cases t; cases "Measurement_createEventSet P m names options s")
     (auto simp: Measurement_createAttachedEventSetWithJavaThread_def
      Measurement_createAttachedEventSetWithNativeThread_def)

lemma attached_created:
  assumes "created P m names s (id', s1)" and "id' \<noteq> - 1" and "attached P known id' s1 (r, s')"
  shows "created P m names s (r, s') \<and> (r \<noteq> - 1 \<longrightarrow> pending_exception s' = pending_exception s1)"
proof (cases "r = - 1")
  case True
  then have "slot_map s' = (slot_map s1)(nat (sint id') := None)"
    using assms(2,3) by (auto simp: attached_def)
  also have "\<dots> = slot_map s" using assms(1,2) by (auto simp: created_def fun_eq_iff)
  finally show ?thesis using assms True by (auto simp: created_def attached_def)
next
  case False
  then show ?thesis using assms by (auto simp: created_def attached_def)
qed

text \<open>Otherwise they promise what \<open>createEventSet\<close> promises.\<close>

lemma create_attached_created:
  assumes jvm: "jvm_delivers P" and inv: "agent_inv P s" and room: "length (slots s) < 2147483647"
    and safe: "\<not> attach_overruns P m names options s"
  shows "returns (create_attached P t m names options s) (\<lambda>(r, s'). created P m names s (r, s') \<and>
    (r \<noteq> - 1 \<longrightarrow> pending_exception s' = pending_exception s))"
proof -
  obtain id' s1 where create: "Measurement_createEventSet P m names options s = Done (id', s1)"
    and c: "created P m names s (id', s1)"
    using createEventSet_created [OF jvm inv room, of m names options] by (auto simp: returns_iff)
  show ?thesis
  proof (cases "HAS_PAPI P")
    case False
    then show ?thesis using create c creation_throws_nothing [OF create] by (simp add: create_attached_plain)
  next
    case papi: True
    then have id': "id' \<noteq> - 1" using safe create by (auto simp: attach_overruns_def)
    obtain c1 where c1: "slot_of s1 id' = Some c1" and inv1: "agent_inv P s1"
      using created_slot [OF jvm inv room create] id' by blast
    have "\<exists>known. returns (create_attached P t m names options s) (attached P known id' s1)"
      using attach_java_spec [OF jvm papi inv1 create c1] attach_native_spec [OF jvm papi inv1 create c1]
      by (cases t) auto
    then show ?thesis
      using attached_created [OF c id'] creation_throws_nothing [OF create id']
      by (auto elim!: returns_mono)
  qed
qed

end
