(* ===== verification/Usage.thy ===== *)
theory Usage
  imports Results Creation
begin

text \<open>
  Programs that use event sets: any sequence of the native methods of \<open>Measurement\<close> on any event
  sets, the two attaching ones included, with the virtual machine's callbacks and other threads'
  registrations in between. A tally per identifier, which the Java program could keep itself, says
  when \<open>stop\<close> is allowed; the theorems say that the next call of such a program has defined behaviour
  unless it is an attaching one whose creation fails, and what the results of alternating starts and
  stops are.
\<close>

section \<open>What a program knows\<close>

text \<open>
  \<open>Balanced\<close>: starts and stops alternate since the event set was created or reset, and the last was a
  stop. \<open>Running\<close>: the same after a start. \<open>Irregular\<close>: anything else. The number counts the snapshots
  requested since then.
\<close>

datatype phase = Balanced | Running | Irregular

type_synonym tally = "phase \<times> nat"

fun after_start :: "tally \<Rightarrow> tally" where
  "after_start (Balanced, n) = (Running, Suc n)"
| "after_start (_, n) = (Irregular, Suc n)"

fun after_stop :: "tally \<Rightarrow> tally" where
  "after_stop (Running, n) = (Balanced, Suc n)"
| "after_stop (_, n) = (Irregular, Suc n)"

fun after_sample :: "tally \<Rightarrow> tally" where
  "after_sample (_, n) = (Irregular, Suc n)"

definition at_reset :: "tally \<Rightarrow> tally" where
  "at_reset t = (Balanced, 0)"

definition advance :: "(tally \<Rightarrow> tally) \<Rightarrow> c_int list \<Rightarrow> (c_int \<Rightarrow> tally) \<Rightarrow> c_int \<Rightarrow> tally" where
  "advance f ids u j = (if j \<in> set ids then f (u j) else u j)"

text \<open>\<open>stop\<close> is allowed after a start, or while the requested snapshots cannot have filled the log.\<close>

definition may_stop :: "'w agent \<Rightarrow> (c_int \<Rightarrow> tally) \<Rightarrow> c_int \<Rightarrow> bool" where
  "may_stop s u j \<longleftrightarrow> fst (u j) = Running \<or> (\<forall>c. slot_of s j = Some c \<longrightarrow> snd (u j) < data_size c)"

section \<open>The runs of a program\<close>

inductive usage :: "'w platform \<Rightarrow> 'w agent \<Rightarrow> (c_int \<Rightarrow> tally) \<Rightarrow> bool" for P :: "'w platform" where
  loaded: "usage P (initial_agent w) u"
| create: "usage P s u \<Longrightarrow> length (slots s) < 2147483647 \<Longrightarrow>
    Measurement_createEventSet P m names options s = Done (j, s') \<Longrightarrow>
    usage P s' (u(j := (Balanced, 0)))"
| attach: "usage P s u \<Longrightarrow> length (slots s) < 2147483647 \<Longrightarrow>
    create_attached P thread m names options s = Done (j, s') \<Longrightarrow>
    usage P s' (u(j := (Balanced, 0)))"
| destroy: "usage P s u \<Longrightarrow> Measurement_destroyEventSet P j s = Done s' \<Longrightarrow> usage P s' u"
| start: "usage P s u \<Longrightarrow> distinct js \<Longrightarrow> Measurement_start P js s = Done s' \<Longrightarrow>
    usage P s' (advance after_start (leading_valid s js) u)"
| stop: "usage P s u \<Longrightarrow> distinct js \<Longrightarrow> \<forall>j \<in> set js. may_stop s u j \<Longrightarrow>
    Measurement_stop P js s = Done s' \<Longrightarrow> usage P s' (advance after_stop (leading_valid s js) u)"
| sample: "usage P s u \<Longrightarrow> distinct js \<Longrightarrow> Measurement_sample P user_id js s = Done s' \<Longrightarrow>
    usage P s' (advance after_sample (leading_valid s js) u)"
| reset: "usage P s u \<Longrightarrow> distinct js \<Longrightarrow> Measurement_reset P js s = Done s' \<Longrightarrow>
    usage P s' (advance at_reset (leading_valid s js) u)"
| results: "usage P s u \<Longrightarrow> Measurement_getResults P j s = Done (r, s') \<Longrightarrow> usage P s' u"
| raw_results: "usage P s u \<Longrightarrow> Measurement_getRawResults P j s = Done (r, s') \<Longrightarrow> usage P s' u"
| java: "usage P s u \<Longrightarrow> usage P (s\<lparr>pending_exception := None, world := w\<rparr>) u"
| counted: "usage P s u \<Longrightarrow> run_counters P (agent_counters s) es = (ns, cs) \<Longrightarrow>
    usage P (s\<lparr>agent_counters := cs\<rparr>) u"
| thread: "usage P s u \<Longrightarrow> on_thread_event P (agent_registry s) e = Done r \<Longrightarrow>
    usage P (s\<lparr>agent_registry := r\<rparr>) u"

section \<open>What the log looks like\<close>

definition measurements :: "(snapshot \<times> snapshot) list \<Rightarrow> bool" where
  "measurements ps \<longleftrightarrow> (\<forall>(a, b) \<in> set ps. snap_type a = - 1 \<and> snap_type b = - 2)"

lemma measurements_take: "measurements ps \<Longrightarrow> measurements (take n ps)"
  by (auto simp: measurements_def dest: in_set_takeD)

lemma measurements_snoc:
  "measurements (ps @ [(a, b)]) \<longleftrightarrow> measurements ps \<and> snap_type a = - 1 \<and> snap_type b = - 2"
  by (auto simp: measurements_def)

lemma pair_log_snoc: "pair_log ps @ [a, b] = pair_log (ps @ [(a, b)])"
  by (simp add: pair_log_append)

definition tallied :: "tally \<Rightarrow> snapshot list \<Rightarrow> bool" where
  "tallied t log \<longleftrightarrow> length log \<le> snd t \<and>
    (fst t = Balanced \<longrightarrow> (\<exists>ps. measurements ps \<and> log = pair_log ps)) \<and>
    (fst t = Running \<longrightarrow>
      (\<exists>ps a. measurements ps \<and> snap_type a = - 1 \<and> log = pair_log ps @ [a]))"

lemma tallied_reset: "tallied (Balanced, n) []"
  by (auto simp: tallied_def measurements_def intro!: exI [of _ "[]"])

lemma tallied_start:
  assumes log: "tallied t log" and size: "2 \<le> n" "even n" and a: "snap_type a = - 1"
  shows "tallied (after_start t) (log_append n log a)"
proof (cases t)
  case (Pair p k)
  have short: "length (log_append n log a) \<le> Suc k"
    using log Pair by (auto simp: tallied_def log_append_def)
  show ?thesis
  proof (cases p)
    case Balanced
    then obtain ps where ps: "measurements ps" "log = pair_log ps"
      using log Pair by (auto simp: tallied_def)
    obtain m where m: "n = 2 * Suc m" using size by (cases "n div 2") auto
    have "\<exists>qs. measurements qs \<and> log_append n log a = pair_log qs @ [a]"
    proof (cases "n \<le> length log")
      case True
      have "take (2 * m) log = pair_log (take m ps)" by (simp only: ps(2) pair_log_take)
      then show ?thesis
        using True ps(1) m by (intro exI [of _ "take m ps"]) (simp add: log_append_def measurements_take)
    next
      case False
      then show ?thesis using ps by (auto simp: log_append_def)
    qed
    then show ?thesis using short a by (auto simp: tallied_def Pair Balanced)
  qed (use short in \<open>simp_all add: tallied_def Pair\<close>)
qed

lemma tallied_stop:
  assumes log: "tallied t log" and b: "snap_type b = - 2"
  shows "tallied (after_stop t) (log @ [b])"
proof (cases t)
  case (Pair p k)
  have short: "length (log @ [b]) \<le> Suc k" using log Pair by (simp add: tallied_def)
  show ?thesis
  proof (cases p)
    case Running
    then obtain ps a where "measurements ps" "snap_type a = - 1" "log = pair_log ps @ [a]"
      using log Pair by (auto simp: tallied_def)
    then have "measurements (ps @ [(a, b)])" "log @ [b] = pair_log (ps @ [(a, b)])"
      using b by (simp_all add: measurements_snoc pair_log_snoc)
    then show ?thesis using short unfolding tallied_def Pair Running by auto
  qed (use short in \<open>simp_all add: tallied_def Pair\<close>)
qed

lemma tallied_sample: "tallied t log \<Longrightarrow> tallied (after_sample t) (log_append n log a)"
  by (cases t) (auto simp: tallied_def log_append_def)

text \<open>A running measurement leaves room for its stop, because the size is even.\<close>

lemma tallied_room:
  assumes ok: "config_ok P c" and log: "tallied t (snapshot_log c)"
    and may: "fst t = Running \<or> snd t < data_size c"
  shows "length (snapshot_log c) < data_size c"
proof -
  have "length (snapshot_log c) \<le> data_size c" "even (data_size c)"
    using ok log_length [OF ok] by (simp_all add: config_ok_def)
  moreover have "odd (length (snapshot_log c))" if "fst t = Running"
    using log that by (auto simp: tallied_def pair_log_length)
  moreover have "length (snapshot_log c) \<le> snd t" using log by (simp add: tallied_def)
  ultimately have "length (snapshot_log c) \<le> data_size c \<and> length (snapshot_log c) \<noteq> data_size c"
    using may by fastforce
  then show ?thesis by simp
qed

section \<open>The invariant of all runs\<close>

definition fits :: "'w platform \<Rightarrow> 'w agent \<Rightarrow> (c_int \<Rightarrow> tally) \<Rightarrow> bool" where
  "fits P s u \<longleftrightarrow> agent_inv P s \<and>
    (\<forall>j c. slot_of s j = Some c \<longrightarrow> tallied (u j) (snapshot_log c))"

lemma fits_inv: "fits P s u \<Longrightarrow> agent_inv P s"
  by (simp add: fits_def)

lemma fits_config: "fits P s u \<Longrightarrow> slot_of s j = Some c \<Longrightarrow> config_ok P c \<and> tallied (u j) (snapshot_log c)"
  using index_of_slot by (auto simp: fits_def)

lemma fits_unchanged: "fits P s u \<Longrightarrow> unchanged s s' \<Longrightarrow> fits P s' u"
  using unchanged_inv unchanged_slot_of by (fastforce simp: fits_def)

text \<open>Recording neither makes nor destroys event sets.\<close>

definition same_ids :: "'w agent \<Rightarrow> 'w agent \<Rightarrow> bool" where
  "same_ids s s' \<longleftrightarrow> (\<forall>j. slot_of s' j = None \<longleftrightarrow> slot_of s j = None)"

lemma fits_updated:
  assumes fits: "fits P s u" and s': "agent_inv P s'" "updated E (set ids) s s'"
    and E: "\<And>t cs c c'. config_ok P c \<Longrightarrow> tallied t (snapshot_log c) \<Longrightarrow> E cs c c' \<Longrightarrow>
      tallied (f t) (snapshot_log c')"
  shows "fits P s' (advance f ids u) \<and> same_ids s s'"
proof -
  have "tallied (advance f ids u j) (snapshot_log c')" if c': "slot_of s' j = Some c'" for j c'
  proof (cases "j \<in> set ids")
    case True
    obtain c where c: "slot_of s j = Some c"
      using c' updated_valid [OF s'(2), of j] by auto
    from updated_at [OF s'(2) True c] c' have "E (agent_counters s) c c'" by auto
    then have "tallied (f (u j)) (snapshot_log c')"
      using fits_config [OF fits c] by (intro E [of c]) blast+
    then show ?thesis using True by (simp add: advance_def)
  next
    case False
    then have "slot_of s j = Some c'" using s'(2) c' by (simp add: updated_def)
    then show ?thesis using fits_config [OF fits] False by (simp add: advance_def)
  qed
  then show ?thesis using s'(1) updated_valid [OF s'(2)] by (simp add: fits_def same_ids_def)
qed

lemma fits_created:
  assumes fits: "fits P s u" and created: "created P m names s (j, s')"
  shows "fits P s' (u(j := (Balanced, 0)))"
proof -
  show ?thesis
  proof (cases "j = - 1")
    case True
    then have "slot_of s' i = slot_of s i" for i
      using created by (simp add: created_def slot_of_def)
    moreover have "slot_of s j = None" using True by (simp add: slot_of_def)
    ultimately show ?thesis
      using fits created by (auto simp: fits_def created_def)
  next
    case False
    then obtain c where c: "0 \<le> sint j" "slot_map s' = (slot_map s)(nat (sint j) \<mapsto> c)" "data_index c = 0"
      using created by (auto simp: created_def fresh_config_def)
    show ?thesis
      using fits created c(3)
      by (auto simp: fits_def created_def slot_of_upd [OF c(1,2)] snapshot_log_def tallied_reset)
  qed
qed

lemma fits_create:
  assumes jvm: "jvm_delivers P" and fits: "fits P s u" and room: "length (slots s) < 2147483647"
    and run: "Measurement_createEventSet P m names options s = Done (j, s')"
  shows "fits P s' (u(j := (Balanced, 0)))"
  using createEventSet_created [OF jvm fits_inv [OF fits] room, of m names options] run
  by (intro fits_created [OF fits]) simp

lemma fits_attach:
  assumes jvm: "jvm_delivers P" and fits: "fits P s u" and room: "length (slots s) < 2147483647"
    and run: "create_attached P thread m names options s = Done (j, s')"
  shows "fits P s' (u(j := (Balanced, 0)))"
proof -
  have "\<not> attach_overruns P m names options s"
    using create_attached_overruns [of P m names options s thread] run by auto
  from create_attached_created [OF jvm fits_inv [OF fits] room this, of thread] run
  have "created P m names s (j, s')" by simp
  then show ?thesis by (rule fits_created [OF fits])
qed

lemma fits_destroy:
  assumes jvm: "jvm_delivers P" and fits: "fits P s u"
    and run: "Measurement_destroyEventSet P j s = Done s'"
  shows "fits P s' u"
proof (cases "slot_of s j = None")
  case True
  then show ?thesis
    using destroy_spec [OF jvm fits_inv [OF fits], of j] run fits_unchanged [OF fits]
    by (auto simp: threw_def)
next
  case False
  then have j: "0 \<le> sint j" by (auto simp: slot_of_def split: if_splits)
  have s': "agent_inv P s'" "slot_map s' = (slot_map s)(nat (sint j) := None)"
    using destroy_spec [OF jvm fits_inv [OF fits], of j] run False by auto
  show ?thesis
    using fits s'(1) by (auto simp: fits_def slot_of_upd [OF j s'(2)])
qed

text \<open>Each recording operation, where the program may call it.\<close>

lemma distinct_leading: "distinct js \<Longrightarrow> distinct (leading_valid s js)"
  by (simp add: leading_valid_def distinct_takeWhile)

lemma leading_subset: "j \<in> set (leading_valid s js) \<Longrightarrow> j \<in> set js"
  by (auto simp: leading_valid_def dest: set_takeWhileD)

lemma config_even: "config_ok P c \<Longrightarrow> 2 \<le> data_size c \<and> even (data_size c)"
  by (simp add: config_ok_def)

lemma start_fits:
  assumes "jvm_delivers P" and fits: "fits P s u" and "distinct js"
  shows "returns (Measurement_start P js s) (\<lambda>s'. fits P s' (advance after_start (leading_valid s js) u) \<and> same_ids s s')"
  unfolding Measurement_start_def
proof (rule returns_mono [OF starting.on_event_sets_spec [OF assms(1) fits_inv [OF fits]
      distinct_leading [OF assms(3)]]], simp, elim conjE)
  fix s'
  assume "agent_inv P s'"
    "updated (overwrites P UBENCH_SNAPSHOT_TYPE_START) (set (leading_valid s js)) s s'"
  then show "fits P s' (advance after_start (leading_valid s js) u) \<and> same_ids s s'"
    by (rule fits_updated [OF fits])
       (auto simp: overwrites_def fills_def UBENCH_SNAPSHOT_TYPE_START_def
         intro!: tallied_start dest: config_even)
qed

lemma sample_fits:
  assumes "jvm_delivers P" and fits: "fits P s u" and "distinct js"
  shows "returns (Measurement_sample P user_id js s)
    (\<lambda>s'. fits P s' (advance after_sample (leading_valid s js) u) \<and> same_ids s s')"
  unfolding Measurement_sample_def
proof (rule returns_mono [OF sampling.on_event_sets_spec [OF assms(1) fits_inv [OF fits]
      distinct_leading [OF assms(3)]]], simp, elim conjE)
  fix s'
  assume "agent_inv P s'" "updated (overwrites P user_id) (set (leading_valid s js)) s s'"
  then show "fits P s' (advance after_sample (leading_valid s js) u) \<and> same_ids s s'"
    by (rule fits_updated [OF fits]) (auto simp only: overwrites_def intro!: tallied_sample)
qed

lemma reset_fits:
  assumes "jvm_delivers P" and fits: "fits P s u" and "distinct js"
  shows "returns (Measurement_reset P js s) (\<lambda>s'. fits P s' (advance at_reset (leading_valid s js) u) \<and> same_ids s s')"
  unfolding Measurement_reset_def
proof (rule returns_mono [OF resetting.on_event_sets_spec [OF assms(1) fits_inv [OF fits]
      distinct_leading [OF assms(3)]]], simp, elim conjE)
  fix s'
  assume "agent_inv P s'" "updated (\<lambda>cs c c'. snapshot_log c' = []) (set (leading_valid s js)) s s'"
  then show "fits P s' (advance at_reset (leading_valid s js) u) \<and> same_ids s s'"
    by (rule fits_updated [OF fits]) (simp add: at_reset_def tallied_reset)
qed

lemma stop_fits:
  assumes "jvm_delivers P" and fits: "fits P s u" and "distinct js" and may: "\<forall>j \<in> set js. may_stop s u j"
  shows "returns (Measurement_stop P js s) (\<lambda>s'. fits P s' (advance after_stop (leading_valid s js) u) \<and> same_ids s s')"
  unfolding Measurement_stop_def
proof (rule returns_mono [OF stopping.on_event_sets_spec [OF assms(1) fits_inv [OF fits]
      distinct_leading [OF assms(3)]]])
  have "data_index c < data_size c" if "j \<in> set js" "slot_of s j = Some c" for j c
    using tallied_room [of P c "u j"] fits_config [OF fits that(2)] may that log_length
    by (fastforce simp: may_stop_def)
  then show "\<forall>j \<in> set (leading_valid s js). \<forall>c. slot_of s j = Some c \<longrightarrow> data_index c < data_size c"
    using leading_subset by blast
next
  fix s'
  assume "agent_inv P s' \<and> updated (appends P UBENCH_SNAPSHOT_TYPE_END) (set (leading_valid s js)) s s' \<and>
    reported s js s'"
  then have "agent_inv P s'" "updated (appends P UBENCH_SNAPSHOT_TYPE_END) (set (leading_valid s js)) s s'"
    by simp_all
  then show "fits P s' (advance after_stop (leading_valid s js) u) \<and> same_ids s s'"
    by (rule fits_updated [OF fits])
       (auto simp: appends_def fills_def UBENCH_SNAPSHOT_TYPE_END_def intro!: tallied_stop)
qed

lemma on_thread_event_inv:
  assumes "registry_inv r" and "on_thread_event P r e = Done r'"
  shows "registry_inv r'"
proof (cases e)
  case (Thread_started w)
  with assms(2) show ?thesis
    by (auto simp: jvmti_callback_on_thread_start_def obind_Done_iff registers_def
      split: prod.splits dest: register_done [OF assms(1)])
next
  case (Thread_ended w)
  with assms(2) obtain n b where "ubench_unregister_native_thread P r n = Done (b, r')"
    by (auto simp: jvmti_callback_on_thread_end_def obind_Done_iff split: prod.splits)
  with unregister_spec [OF assms(1), of P n] show ?thesis
    by simp
qed

text \<open>The virtual machine's side: counting, threads and the results that it hands out.\<close>

lemma fits_java:
  "fits P s u \<Longrightarrow> fits P (s\<lparr>pending_exception := None, world := w\<rparr>) u"
  by (erule fits_unchanged) (simp add: unchanged_def)

lemma fits_same_table:
  assumes "fits P s u" and "all_eventsets s' = all_eventsets s"
    and "all_eventset_count s' = all_eventset_count s" and "registry_inv (agent_registry s')"
  shows "fits P s' u"
proof -
  have "slots s' = slots s" using assms(2) by (simp add: slots_def)
  moreover from this have "slot_map s' = slot_map s" by (simp add: slot_map_def fun_eq_iff)
  ultimately show ?thesis using assms by (simp add: fits_def agent_inv_def slot_of_def)
qed

lemma fits_registry: "fits P s u \<Longrightarrow> registry_inv (agent_registry s)"
  by (simp add: fits_def agent_inv_def)

lemma fits_counted: "fits P s u \<Longrightarrow> fits P (s\<lparr>agent_counters := cs\<rparr>) u"
  by (rule fits_same_table) (simp_all add: fits_registry)

lemma fits_thread:
  assumes fits: "fits P s u" and run: "on_thread_event P (agent_registry s) e = Done r"
  shows "fits P (s\<lparr>agent_registry := r\<rparr>) u"
proof -
  have "registry_inv r"
    using on_thread_event_inv [OF fits_registry [OF fits], of P e] by (simp add: run)
  then show ?thesis by (intro fits_same_table [OF fits]) simp_all
qed

lemma fits_results:
  assumes "jvm_delivers P" and "jvm_creates_results P" and fits: "fits P s u"
  shows "Measurement_getResults P j s = Done (r, s') \<Longrightarrow> fits P s' u"
    and "Measurement_getRawResults P j s = Done (r, s') \<Longrightarrow> fits P s' u"
  using getResults_eq [OF assms(1,2) fits_inv [OF fits], of j]
    getRawResults_eq [OF assms(1,2) fits_inv [OF fits], of j] fits_unchanged [OF fits, of s']
  by auto

lemma usage_fits:
  assumes jvm: "jvm_delivers P" "jvm_creates_results P"
  shows "usage P s u \<Longrightarrow> fits P s u"
proof (induction rule: usage.induct)
  case (loaded w u)
  then show ?case by (simp add: fits_def agent_inv_initial slot_of_def slot_map_def)
next
  case (create s u m names options j s')
  show ?case by (rule fits_create [OF jvm(1) create.IH create.hyps(2,3)])
next
  case (attach s u thread m names options j s')
  show ?case by (rule fits_attach [OF jvm(1) attach.IH attach.hyps(2,3)])
next
  case (destroy s u j s')
  show ?case by (rule fits_destroy [OF jvm(1) destroy.IH destroy.hyps(2)])
next
  case (start s u js s')
  then show ?case using start_fits [OF jvm(1) start.IH start.hyps(2)] by simp
next
  case (stop s u js s')
  then show ?case using stop_fits [OF jvm(1) stop.IH stop.hyps(2,3)] by simp
next
  case (sample s u js user_id s')
  then show ?case using sample_fits [OF jvm(1) sample.IH sample.hyps(2), of user_id] by simp
next
  case (reset s u js s')
  then show ?case using reset_fits [OF jvm(1) reset.IH reset.hyps(2)] by simp
next
  case (results s u j r s')
  show ?case by (rule fits_results(1) [OF jvm results.IH results.hyps(2)])
next
  case (raw_results s u j r s')
  show ?case by (rule fits_results(2) [OF jvm raw_results.IH raw_results.hyps(2)])
next
  case (java s u w)
  then show ?case by (simp add: fits_java)
next
  case (counted s u es ns cs)
  then show ?case by (simp add: fits_counted)
next
  case (thread s u e r)
  then show ?case by (simp add: fits_thread)
qed

section \<open>What holds for every program\<close>

text \<open>A short program for the examples: one event set, and one measurement on it.\<close>

lemma sample_usage:
  "\<exists>s u c. usage sample_platform s u \<and> slot_of s 0 = Some c \<and> u 0 = (Balanced, 2)"
proof -
  note jvm = sample_jvm sample_creates_results
  let ?s0 = "initial_agent (0 :: nat)" and ?u1 = "(\<lambda>_. (Irregular, 9))(0 := (Balanced, 0)) :: c_int \<Rightarrow> tally"
  obtain s1 where s1: "Measurement_createEventSet sample_platform 1 [''SYS:wallclock-time''] [] ?s0 =
      Done (0, s1)"
    using sample_creation ..
  have use1: "usage sample_platform s1 ?u1"
    by (rule usage.create [OF usage.loaded _ s1]) simp
  note fits1 = usage_fits [OF jvm use1]
  obtain c1 where c1: "slot_of s1 0 = Some c1"
    using createEventSet_created [OF jvm(1) agent_inv_initial, of 0 1 "[''SYS:wallclock-time'']" "[]"] s1
    by (auto simp: created_def slot_of_def)
  then have lv1: "leading_valid s1 [0] = [0]" by (simp add: leading_valid_def)
  from start_fits [OF jvm(1) fits1, of "[0]"]
  obtain s2 where s2: "Measurement_start sample_platform [0] s1 = Done s2" "same_ids s1 s2"
    by (auto simp: returns_iff)
  have use2: "usage sample_platform s2 (advance after_start [0] ?u1)"
    using usage.start [OF use1 _ s2(1)] by (simp add: lv1)
  note fits2 = usage_fits [OF jvm use2]
  have lv2: "leading_valid s2 [0] = [0]" using s2(2) c1 by (simp add: leading_valid_def same_ids_def)
  have may: "\<forall>j \<in> set [0]. may_stop s2 (advance after_start [0] ?u1) j"
    by (simp add: may_stop_def advance_def)
  from stop_fits [OF jvm(1) fits2 _ may]
  obtain s3 where s3: "Measurement_stop sample_platform [0] s2 = Done s3" "same_ids s2 s3"
    by (auto simp: returns_iff)
  then obtain c3 where "slot_of s3 0 = Some c3"
    using s2(2) c1 by (fastforce simp: same_ids_def)
  moreover have "usage sample_platform s3 (advance after_stop [0] (advance after_start [0] ?u1))"
    using usage.stop [OF use2 _ may s3(1)] by (simp add: lv2)
  moreover have "advance after_stop [0] (advance after_start [0] ?u1) 0 = (Balanced, 2)"
    by (simp add: advance_def)
  ultimately show ?thesis by blast
qed



text \<open>
  C5: Whatever else the program does with other event sets, an event set on which starts and stops
  alternated since its creation or its last reset has a log of start and stop snapshots in turn,
  and \<open>getResults\<close> reports each of these pairs once, in order: no snapshot is left over.
\<close>

theorem alternating_use_reports_every_pair:
  assumes jvm: "jvm_delivers P" "jvm_creates_results P" and use: "usage P s u"
    and c: "slot_of s j = Some c" and balanced: "fst (u j) = Balanced"
  shows "\<exists>ps. snapshot_log c = pair_log ps \<and>
    (\<forall>(a, b) \<in> set ps. snap_type a = - 1 \<and> snap_type b = - 2) \<and>
    returns (Measurement_getResults P j s) (\<lambda>(r, s').
      map_option data_rows r =
        Some (map (\<lambda>(a, b). map (value_of P (windows_timer_frequency s) a b) (events_of c)) ps))"
proof -
  have fits: "fits P s u" by (rule usage_fits [OF jvm use])
  obtain ps where ps: "measurements ps" "snapshot_log c = pair_log ps"
    using fits_config [OF fits c] balanced by (auto simp: tallied_def)
  then have pairs: "completed (snapshot_log c) = ps"
    by (simp add: completed_pair_log measurements_def)
  have "returns (Measurement_getResults P j s) (\<lambda>(r, s'). map_option data_rows r =
      Some (map (\<lambda>(a, b). map (value_of P (windows_timer_frequency s) a b) (events_of c)) ps))"
    by (rule returns_mono [OF getResults_eq [OF jvm fits_inv [OF fits]]])
       (use c pairs in \<open>auto simp: results_of_def\<close>)
  then show ?thesis using ps unfolding measurements_def by blast
qed

theorem alternating_use_reports_every_pair_witness:
  "\<exists>s c ps. slot_of s 0 = Some c \<and> snapshot_log c = pair_log ps \<and>
    returns (Measurement_getResults sample_platform 0 s) (\<lambda>(r, s').
      map_option (length \<circ> data_rows) r = Some (length ps))"
proof -
  obtain s u c where s: "usage sample_platform s u" "slot_of s 0 = Some c" "u 0 = (Balanced, 2)"
    using sample_usage by blast
  then show ?thesis
    using alternating_use_reports_every_pair [OF sample_jvm sample_creates_results s(1,2)]
    by (fastforce simp: option.map_comp [symmetric] elim!: returns_mono)
qed

end
