(* ===== verification/EndToEnd.thy ===== *)
theory EndToEnd
  imports Usage
begin

text \<open>
  One measurement from \<open>start\<close> to \<open>getResults\<close>: whatever the program and the virtual machine do with
  other event sets in between, the row that Java gets holds what happened between the two calls: the
  time on the clock and the number of compilations.
\<close>

section \<open>Between two calls\<close>

text \<open>
  Everything that can happen to the agent between two calls for the event set \<open>j\<close>: the program runs,
  the virtual machine counts (\<open>es\<close>, in order) and reports threads, and other event sets are used.
\<close>

inductive meanwhile :: "'w platform \<Rightarrow> c_int \<Rightarrow> counter_event list \<Rightarrow> 'w agent \<Rightarrow> 'w agent \<Rightarrow> bool"
  for P :: "'w platform" and j :: c_int where
  nothing: "meanwhile P j [] s s"
| program: "meanwhile P j es s s1 \<Longrightarrow>
    meanwhile P j es s (s1\<lparr>pending_exception := None, world := w\<rparr>)"
| counting: "meanwhile P j es s s1 \<Longrightarrow> run_counters P (agent_counters s1) es1 = (ns, cs) \<Longrightarrow>
    meanwhile P j (es @ es1) s (s1\<lparr>agent_counters := cs\<rparr>)"
| threads: "meanwhile P j es s s1 \<Longrightarrow> on_thread_event P (agent_registry s1) e = Done r \<Longrightarrow>
    meanwhile P j es s (s1\<lparr>agent_registry := r\<rparr>)"
| creation: "meanwhile P j es s s1 \<Longrightarrow> length (slots s1) < 2147483647 \<Longrightarrow>
    Measurement_createEventSet P m names options s1 = Done (i, s2) \<Longrightarrow> meanwhile P j es s s2"
| attachment: "meanwhile P j es s s1 \<Longrightarrow> length (slots s1) < 2147483647 \<Longrightarrow>
    create_attached P thread m names options s1 = Done (i, s2) \<Longrightarrow> meanwhile P j es s s2"
| destruction: "meanwhile P j es s s1 \<Longrightarrow> i \<noteq> j \<Longrightarrow>
    Measurement_destroyEventSet P i s1 = Done s2 \<Longrightarrow> meanwhile P j es s s2"
| starts: "meanwhile P j es s s1 \<Longrightarrow> distinct js \<Longrightarrow> j \<notin> set js \<Longrightarrow>
    Measurement_start P js s1 = Done s2 \<Longrightarrow> meanwhile P j es s s2"
| samples: "meanwhile P j es s s1 \<Longrightarrow> distinct js \<Longrightarrow> j \<notin> set js \<Longrightarrow>
    Measurement_sample P user_id js s1 = Done s2 \<Longrightarrow> meanwhile P j es s s2"
| resets: "meanwhile P j es s s1 \<Longrightarrow> distinct js \<Longrightarrow> j \<notin> set js \<Longrightarrow>
    Measurement_reset P js s1 = Done s2 \<Longrightarrow> meanwhile P j es s s2"
| stops: "meanwhile P j es s s1 \<Longrightarrow> distinct js \<Longrightarrow> j \<notin> set js \<Longrightarrow>
    \<forall>i \<in> set js. \<forall>c. slot_of s1 i = Some c \<longrightarrow> data_index c < data_size c \<Longrightarrow>
    Measurement_stop P js s1 = Done s2 \<Longrightarrow> meanwhile P j es s s2"
| rows: "meanwhile P j es s s1 \<Longrightarrow> Measurement_getResults P i s1 = Done (r, s2) \<Longrightarrow>
    meanwhile P j es s s2"
| raw_rows: "meanwhile P j es s s1 \<Longrightarrow> Measurement_getRawResults P i s1 = Done (r, s2) \<Longrightarrow>
    meanwhile P j es s s2"

text \<open>The event set, the invariant and the counters, apart from \<open>es\<close>, are as before.\<close>

definition untouched ::
    "'w platform \<Rightarrow> c_int \<Rightarrow> counter_event list \<Rightarrow> 'w agent \<Rightarrow> 'w agent \<Rightarrow> bool" where
  "untouched P j es s s' \<longleftrightarrow> agent_inv P s' \<and> slot_of s' j = slot_of s j \<and>
    agent_counters s' = snd (run_counters P (agent_counters s) es)"

lemma run_counters_append:
  "snd (run_counters P c (es @ es1)) = snd (run_counters P (snd (run_counters P c es)) es1)"
proof (induction P c es rule: run_counters.induct)
  case (4 P c es)
  then show ?case
    by (cases "CompilationCounter_getCompilationCountAndReset c") (simp add: split_beta)
qed simp_all

lemma same_table:
  assumes "agent_inv P s" and "all_eventsets s' = all_eventsets s"
    and "all_eventset_count s' = all_eventset_count s" and "registry_inv (agent_registry s')"
  shows "agent_inv P s' \<and> slot_of s' = slot_of s"
proof -
  have "slots s' = slots s" using assms(2) by (simp add: slots_def)
  moreover from this have "slot_map s' = slot_map s" by (simp add: slot_map_def fun_eq_iff)
  ultimately have "agent_inv P s'" "slot_of s' i = slot_of s i" for i
    using assms by (simp_all add: agent_inv_def slot_of_def)
  then show ?thesis by blast
qed

lemma untouched_unchanged: "untouched P j es s s1 \<Longrightarrow> unchanged s1 s2 \<Longrightarrow> untouched P j es s s2"
  using unchanged_inv [of s1 s2] unchanged_slot_of [of s1 s2] by (auto simp: untouched_def unchanged_def)

lemma untouched_recording:
  assumes "untouched P j es s s1" and "agent_inv P s2" and "updated E (set (leading_valid s1 js)) s1 s2"
    and "j \<notin> set js"
  shows "untouched P j es s s2"
proof -
  have "j \<notin> set (leading_valid s1 js)" using assms(4) leading_subset by blast
  then have "slot_of s2 j = slot_of s1 j" "agent_counters s2 = agent_counters s1"
    using assms(3) by (simp_all add: updated_def)
  then show ?thesis using assms(1,2) by (simp add: untouched_def)
qed

lemma untouched_created:
  assumes u: "untouched P j es s s1" and j: "slot_of s j \<noteq> None" and created: "created P m names s1 (i, s2)"
  shows "untouched P j es s s2"
proof -
  have "slot_of s2 j = slot_of s1 j"
  proof (cases "i = - 1")
    case True
    then show ?thesis using created by (simp add: created_def slot_of_def)
  next
    case False
    then obtain c where i: "0 \<le> sint i" "slot_map s1 (nat (sint i)) = None"
      "slot_map s2 = (slot_map s1)(nat (sint i) \<mapsto> c)"
      using created by (auto simp: created_def)
    then have "slot_of s1 i = None" by (simp add: slot_of_def)
    then have "i \<noteq> j" using u j by (auto simp: untouched_def)
    then show ?thesis by (simp add: slot_of_upd [OF i(1,3)])
  qed
  then show ?thesis using u created by (simp add: untouched_def created_def)
qed

lemma untouched_creation:
  assumes jvm: "jvm_delivers P" and u: "untouched P j es s s1" and j: "slot_of s j \<noteq> None"
    and room: "length (slots s1) < 2147483647"
    and run: "Measurement_createEventSet P m names options s1 = Done (i, s2)"
  shows "untouched P j es s s2"
proof -
  have inv: "agent_inv P s1" using u by (simp add: untouched_def)
  show ?thesis
    using createEventSet_created [OF jvm inv room, of m names options] run
    by (intro untouched_created [OF u j]) simp
qed

lemma untouched_attachment:
  assumes jvm: "jvm_delivers P" and u: "untouched P j es s s1" and j: "slot_of s j \<noteq> None"
    and room: "length (slots s1) < 2147483647"
    and run: "create_attached P thread m names options s1 = Done (i, s2)"
  shows "untouched P j es s s2"
proof -
  have inv: "agent_inv P s1" using u by (simp add: untouched_def)
  have "\<not> attach_overruns P m names options s1"
    using create_attached_overruns [of P m names options s1 thread] run by auto
  from create_attached_created [OF jvm inv room this, of thread] run
  have "created P m names s1 (i, s2)" by simp
  then show ?thesis by (rule untouched_created [OF u j])
qed

lemma untouched_destruction:
  assumes jvm: "jvm_delivers P" and u: "untouched P j es s s1" and "i \<noteq> j"
    and run: "Measurement_destroyEventSet P i s1 = Done s2"
  shows "untouched P j es s s2"
proof (cases "slot_of s1 i = None")
  case True
  have inv: "agent_inv P s1" using u by (simp add: untouched_def)
  show ?thesis
    using destroy_spec [OF jvm inv, of i] run True untouched_unchanged [OF u] by (auto simp: threw_def)
next
  case False
  have inv: "agent_inv P s1" using u by (simp add: untouched_def)
  have i: "0 \<le> sint i" using False by (auto simp: slot_of_def split: if_splits)
  have s2: "agent_inv P s2" "slot_map s2 = (slot_map s1)(nat (sint i) := None)"
    "agent_counters s2 = agent_counters s1"
    using destroy_spec [OF jvm inv, of i] run False by auto
  show ?thesis
    using u s2(1,3) \<open>i \<noteq> j\<close> by (simp add: untouched_def slot_of_upd [OF i s2(2)])
qed

lemma meanwhile_untouched:
  assumes jvm: "jvm_delivers P" "jvm_creates_results P"
  shows "meanwhile P j es s s' \<Longrightarrow> agent_inv P s \<Longrightarrow> slot_of s j \<noteq> None \<Longrightarrow> untouched P j es s s'"
proof (induction rule: meanwhile.induct)
  case (nothing s)
  then show ?case by (simp add: untouched_def)
next
  case (program es s s1 w)
  then have "untouched P j es s s1" by blast
  then show ?case by (rule untouched_unchanged) (simp add: unchanged_def)
next
  case (counting es s s1 es1 ns cs)
  then have "untouched P j es s s1" by blast
  then show ?case
    using counting.hyps(2) same_table [of P s1 "s1\<lparr>agent_counters := cs\<rparr>"]
    by (simp add: untouched_def run_counters_append agent_inv_def)
next
  case (threads es s s1 e r)
  then have u: "untouched P j es s s1" by blast
  then have "registry_inv r"
    using on_thread_event_inv threads.hyps(2) by (auto simp: untouched_def agent_inv_def)
  then show ?case
    using u same_table [of P s1 "s1\<lparr>agent_registry := r\<rparr>"] by (simp add: untouched_def)
next
  case (creation es s s1 m names options i s2)
  then show ?case using untouched_creation [OF jvm(1)] by blast
next
  case (attachment es s s1 thread m names options i s2)
  then show ?case using untouched_attachment [OF jvm(1)] by blast
next
  case (destruction es s s1 i s2)
  then show ?case using untouched_destruction [OF jvm(1)] by blast
next
  case (starts es s s1 js s2)
  then have u: "untouched P j es s s1" and inv: "agent_inv P s1" by (auto simp: untouched_def)
  show ?case
    using starting.on_event_sets_spec [OF jvm(1) inv distinct_leading [OF starts.hyps(2)]]
      starts.hyps untouched_recording [OF u] by (auto simp: Measurement_start_def)
next
  case (samples es s s1 js user_id s2)
  then have u: "untouched P j es s s1" and inv: "agent_inv P s1" by (auto simp: untouched_def)
  show ?case
    using sampling.on_event_sets_spec [OF jvm(1) inv distinct_leading [OF samples.hyps(2)], of user_id]
      samples.hyps untouched_recording [OF u] by (auto simp: Measurement_sample_def)
next
  case (resets es s s1 js s2)
  then have u: "untouched P j es s s1" and inv: "agent_inv P s1" by (auto simp: untouched_def)
  show ?case
    using resetting.on_event_sets_spec [OF jvm(1) inv distinct_leading [OF resets.hyps(2)]]
      resets.hyps untouched_recording [OF u] by (auto simp: Measurement_reset_def)
next
  case (stops es s s1 js s2)
  then have u: "untouched P j es s s1" and inv: "agent_inv P s1" by (auto simp: untouched_def)
  show ?case
    using stopping.on_event_sets_spec [OF jvm(1) inv distinct_leading [OF stops.hyps(2)]]
      stops.hyps untouched_recording [OF u] leading_subset by (fastforce simp: Measurement_stop_def)
next
  case (rows es s s1 i r s2)
  then have u: "untouched P j es s s1" and inv: "agent_inv P s1" by (auto simp: untouched_def)
  show ?case
    using getResults_eq [OF jvm inv, of i] rows.hyps(2) untouched_unchanged [OF u] by auto
next
  case (raw_rows es s s1 i r s2)
  then have u: "untouched P j es s s1" and inv: "agent_inv P s1" by (auto simp: untouched_def)
  show ?case
    using getRawResults_eq [OF jvm inv, of i] raw_rows.hyps(2) untouched_unchanged [OF u] by auto
qed

section \<open>One identifier\<close>

text \<open>
  A recording method with a single valid identifier: it reads the array, which the virtual machine
  may take time for, runs the operation on the configuration, and releases the array.
\<close>

lemma single_id:
  assumes jvm: "jvm_delivers P" and inv: "agent_inv P s" and c: "slot_of s j = Some c"
    and op: "op (agent_counters s) c (snd (jni_GetIntArrayElements P [j] (world s))) = Done (c', w')"
    and ok: "config_ok P c'"
  shows "\<exists>s'. on_event_sets P op [j] s = Done s' \<and> agent_inv P s' \<and> slot_of s' j = Some c' \<and>
    world s' = w' \<and> agent_counters s' = agent_counters s \<and> pending_exception s' = pending_exception s"
proof -
  obtain acc s1 where e: "GetIntArrayElements P [j] s = (acc, s1)" by (metis prod.exhaust)
  have acc using GetIntArrayElements_result(1) [OF e] jvm by (simp add: jvm_delivers_def)
  have u: "unchanged s s1" using e by (rule GetIntArrayElements_result)
  have w1: "world s1 = snd (jni_GetIntArrayElements P [j] (world s))"
    using e by (auto simp: GetIntArrayElements_def call_ext_def borrow_def split: prod.splits if_splits)
  have inv1: "agent_inv P s1" and c1: "slot_of s1 j = Some c"
    using unchanged_inv [OF u inv] unchanged_slot_of [OF u] c by simp_all
  let ?i = "nat (sint j)"
  obtain el where el: "buf_get (all_eventsets s1) ?i = Done el" "config el = c" "valid el"
    using slot_of_get [OF c1] by auto
  have i: "?i < length (slots s1)" and pos: "0 \<le> sint j"
    using c1 by (auto simp: slot_of_def slot_map_def split: if_splits)
  let ?s = "s1\<lparr>world := w'\<rparr>"
  have u1: "unchanged s1 ?s" by (simp add: unchanged_def)
  obtain s2 where s2: "store_slot ?i \<lparr>config = c', valid = True\<rparr> ?s = Done s2" "agent_inv P s2"
    "slot_map s2 = (slot_map s1)(?i := Some c')" "pending_exception s2 = pending_exception s1"
    "agent_counters s2 = agent_counters s1" "world s2 = w'"
    using store_slot_spec [of P ?s ?i True c'] unchanged_inv [OF u1 inv1] unchanged_slots [OF u1] i ok
    by auto
  have slot: "el\<lparr>config := c'\<rparr> = \<lparr>config = c', valid = True\<rparr>" using el(3) by simp
  have "op (agent_counters s1) (config el) (world s1) = Done (c', w')"
    using op el(2) w1 u by (simp add: unchanged_def)
  then have "on_slot op ?i s1 = Done s2"
    by (simp only: on_slot_def el(1) obind.simps prod.case slot s2(1))
  then have "on_event_sets P op [j] s = Done (ReleaseIntArrayElements True s2)"
    using \<open>acc\<close> c1 by (simp add: on_event_sets_def e is_valid_id_eq [OF inv1])
  then show ?thesis
    using s2 u slot_of_upd [OF pos s2(3), of j] GetIntArrayElements_result(3) [OF e]
    by (simp add: unchanged_def) (simp add: ReleaseIntArrayElements_def give_back_def)
qed

lemma record_done:
  assumes "config_ok P c" and "data_index c < data_size c"
    and "\<And>old w. fills P cs (used_backends c) type old (fst (meas c old w))"
  obtains old c' where "record_snapshot meas c w = Done (c', snd (meas c old w))" "config_ok P c'"
    "same_setup c c'" "snapshot_log c' = snapshot_log c @ [fst (meas c old w)]"
proof -
  have "length (papi_events (fst (meas c old w))) = length (papi_events old)" for old w
    using assms(3) [of old w] by (simp add: fills_def)
  then obtain old new w' where m: "meas c old w = (new, w')" and
    "returns (record_snapshot meas c w) (\<lambda>(c', w''). w'' = w' \<and> config_ok P c' \<and> same_setup c c' \<and>
      snapshot_log c' = snapshot_log c @ [new])"
    using record_snapshot_spec [OF assms(1,2), of meas w] by blast
  with that [of _ old] m show thesis by (auto simp: returns_iff)
qed

lemma start_single:
  assumes jvm: "jvm_delivers P" and inv: "agent_inv P s" and c: "slot_of s j = Some c"
    and room: "length (snapshot_log c) < data_size c"
  obtains s1 c1 old where "Measurement_start P [j] s = Done s1" "agent_inv P s1" "slot_of s1 j = Some c1"
    "same_setup c c1" "snapshot_log c1 = snapshot_log c @ [fst (ubench_measure_start P (agent_counters s) c
      old (snd (jni_GetIntArrayElements P [j] (world s))))]"
    "world s1 = snd (ubench_measure_start P (agent_counters s) c old
      (snd (jni_GetIntArrayElements P [j] (world s))))" "agent_counters s1 = agent_counters s"
proof -
  have ok: "config_ok P c" "data_index c < data_size c"
    using index_of_slot [OF inv c] room by simp_all
  let ?w = "snd (jni_GetIntArrayElements P [j] (world s))"
  obtain old c1 where r: "record_snapshot (ubench_measure_start P (agent_counters s)) c ?w =
      Done (c1, snd (ubench_measure_start P (agent_counters s) c old ?w))" "config_ok P c1" "same_setup c c1"
    "snapshot_log c1 = snapshot_log c @ [fst (ubench_measure_start P (agent_counters s) c old ?w)]"
    using record_done [where meas = "ubench_measure_start P (agent_counters s)" and w = ?w, OF ok measure_start_fills]
    by blast
  have "start_one P (agent_counters s) c ?w =
      Done (c1, snd (ubench_measure_start P (agent_counters s) c old ?w))"
    using ok r(1) by (simp add: start_one_def make_room_def)
  from single_id [where op = "start_one P", OF jvm inv c this r(2)] that r show thesis
    by (auto simp: Measurement_start_def)
qed

lemma stop_single:
  assumes jvm: "jvm_delivers P" and inv: "agent_inv P s" and c: "slot_of s j = Some c"
    and room: "length (snapshot_log c) < data_size c"
  obtains s1 c1 old where "Measurement_stop P [j] s = Done s1" "agent_inv P s1" "slot_of s1 j = Some c1"
    "same_setup c c1" "snapshot_log c1 = snapshot_log c @ [fst (ubench_measure_stop P (agent_counters s) c
      old (snd (jni_GetIntArrayElements P [j] (world s))))]" "agent_counters s1 = agent_counters s"
proof -
  have ok: "config_ok P c" "data_index c < data_size c"
    using index_of_slot [OF inv c] room by simp_all
  let ?w = "snd (jni_GetIntArrayElements P [j] (world s))"
  obtain old c1 where r: "record_snapshot (ubench_measure_stop P (agent_counters s)) c ?w =
      Done (c1, snd (ubench_measure_stop P (agent_counters s) c old ?w))" "config_ok P c1" "same_setup c c1"
    "snapshot_log c1 = snapshot_log c @ [fst (ubench_measure_stop P (agent_counters s) c old ?w)]"
    using record_done [where meas = "ubench_measure_stop P (agent_counters s)" and w = ?w, OF ok measure_stop_fills]
    by blast
  have "stop_one P (agent_counters s) c ?w =
      Done (c1, snd (ubench_measure_stop P (agent_counters s) c old ?w))"
    using r(1) by (simp add: stop_one_def)
  from single_id [where op = "stop_one P", OF jvm inv c this r(2)] that r show thesis
    by (auto simp: Measurement_stop_def)
qed

section \<open>What the row says\<close>

lemma total_after:
  "atomic_value (counter_compilation_total (snd (run_counters P cs es))) =
    atomic_value (counter_compilation_total cs) + of_nat (count_list es Method_compiled)"
proof (induction P cs es rule: run_counters.induct)
  case (4 P c es)
  then show ?case
    by (cases "CompilationCounter_getCompilationCountAndReset c")
       (auto simp: split_beta CompilationCounter_getCompilationCountAndReset_def)
qed (simp_all add: jvmti_callback_on_compiled_method_load_def
  jvmti_callback_on_garbage_collection_finish_def ubench_atomic_int_inc_def Let_def)

text \<open>The counter is a C \<open>int\<close>: past its largest value the difference is off by \<open>2^32\<close>.\<close>

lemma compilations_between:
  assumes t0: "0 \<le> sint (t0 :: c_int)" and n: "n < 2147483648"
  shows "sint (long_of_int (t0 + of_nat n) - long_of_int t0) =
    (if sint t0 + int n < 2147483648 then int n else int n - 4294967296)"
proof -
  let ?t = "sint t0 + int n" and ?a = "long_of_int (t0 + of_nat n)" and ?b = "long_of_int t0"
  have small: "sint t0 < 2147483648" using sint_range32 [of t0] by simp
  have "t0 + of_nat n = word_of_int ?t" by simp
  moreover have "(word_of_int ?t :: c_int) = word_of_int (?t - 4294967296)"
    by (simp only: wi_hom_sub [symmetric]) simp
  ultimately have sum: "sint (t0 + of_nat n) = (if ?t < 2147483648 then ?t else ?t - 4294967296)"
    using sint_of_int32 [of ?t] sint_of_int32 [of "?t - 4294967296"] t0 n small
    by (simp only: split: if_split) linarith
  have "?a - ?b = word_of_int (sint ?a - sint ?b)"
    by (simp add: wi_hom_sub [symmetric])
  moreover have "sint ?a - sint ?b = (if ?t < 2147483648 then int n else int n - 4294967296)"
    using sum by simp
  ultimately show ?thesis
    using n by (simp only:) (rule sint_of_int64, auto)
qed

lemma event_backends:
  assumes "config_ok P c" and "e \<in> set (events_of c)"
  shows "op_get e = Some WallClockTime \<Longrightarrow> uses_backend (used_backends c) UBENCH_EVENT_BACKEND_SYS_WALLCLOCK"
    and "op_get e = Some JvmCompilations \<Longrightarrow> uses_backend (used_backends c) UBENCH_EVENT_BACKEND_JVM_COMPILATIONS"
proof -
  have e: "resolved P e" "used_backends c AND backend e = backend e"
    using config_events(3) [OF assms(1)] assms(2) by (auto simp: event_ok_def)
  have "op_get e = Some WallClockTime \<Longrightarrow> backend e = UBENCH_EVENT_BACKEND_SYS_WALLCLOCK"
    "op_get e = Some JvmCompilations \<Longrightarrow> backend e = UBENCH_EVENT_BACKEND_JVM_COMPILATIONS"
    using e(1) by (auto simp: resolved_def known_events_def plain_event_def split: if_splits)
  then show "op_get e = Some WallClockTime \<Longrightarrow> uses_backend (used_backends c) UBENCH_EVENT_BACKEND_SYS_WALLCLOCK"
    "op_get e = Some JvmCompilations \<Longrightarrow> uses_backend (used_backends c) UBENCH_EVENT_BACKEND_JVM_COMPILATIONS"
    using e(2) by (auto simp: backend_defs)
qed

text \<open>The wall clock: \<open>start\<close> reads it last, \<open>stop\<close> reads it first.\<close>

lemma start_clock:
  assumes "HAS_TIMESPEC P" and "uses_backend (used_backends c) UBENCH_EVENT_BACKEND_SYS_WALLCLOCK"
    and clock: "\<And>w. clock_monotonic P w = (Some (now w), tick w)"
  shows "\<exists>w0. snd (ubench_measure_start P cs c old w) = tick w0 \<and>
    stamp_timespec (timestamp (fst (ubench_measure_start P cs c old w))) = now w0"
proof -
  obtain s1 w1 where e: "step_papi_start P c old w = (s1, w1)" by (metis prod.exhaust)
  show ?thesis
    using snapshot_clock_last [OF assms, of cs "s1\<lparr>snap_type := UBENCH_SNAPSHOT_TYPE_START\<rparr>" w1]
    by (simp add: ubench_measure_start_def e)
qed

text \<open>What one event reports for a start at \<open>w\<close> and a stop at \<open>w'\<close> with \<open>es\<close> in between.\<close>

definition true_value ::
    "('w \<Rightarrow> timespec) \<Rightarrow> ('w \<Rightarrow> 'w) \<Rightarrow> counters \<Rightarrow> counter_event list \<Rightarrow> 'w \<Rightarrow> 'w \<Rightarrow>
      ubench_event_info_t \<Rightarrow> c_long \<Rightarrow> bool" where
  "true_value now tick cs es w w' e v \<longleftrightarrow>
    (op_get e = Some WallClockTime \<longrightarrow>
      (\<exists>w0. w = tick w0 \<and> v = timespec_diff_ns (now w0) (now w'))) \<and>
    (op_get e = Some JvmCompilations \<longrightarrow>
      (let total = sint (ubench_atomic_int_get (counter_compilation_total cs));
           n = count_list es Method_compiled in
       0 \<le> total \<and> n < 2147483648 \<longrightarrow>
       sint v = (if total + int n < 2147483648 then int n else int n - 4294967296)))"

lemma values_are_true:
  assumes ok: "config_ok P c" and e: "e \<in> set (events_of c)" and same: "used_backends c' = used_backends c"
    and clock: "HAS_TIMESPEC P" "\<And>w. clock_monotonic P w = (Some (now w), tick w)"
    and cs': "cs' = snd (run_counters P cs es)"
  shows "true_value now tick cs es (snd (ubench_measure_start P cs c old w)) w' e
    (value_of P freq (fst (ubench_measure_start P cs c old w)) (fst (ubench_measure_stop P cs' c' old' w')) e)"
proof -
  let ?a = "fst (ubench_measure_start P cs c old w)" and ?b = "fst (ubench_measure_stop P cs' c' old' w')"
  have wall: "\<exists>w0. snd (ubench_measure_start P cs c old w) = tick w0 \<and>
      value_of P freq ?a ?b e = timespec_diff_ns (now w0) (now w')" if g: "op_get e = Some WallClockTime"
  proof -
    note uses = event_backends(1) [OF ok e g]
    obtain w0 where "snd (ubench_measure_start P cs c old w) = tick w0"
      "stamp_timespec (timestamp ?a) = now w0"
      using start_clock [OF clock(1) uses clock(2)] by blast
    moreover have "stamp_timespec (timestamp ?b) = now w'"
      using stop_clock_first [OF clock(1) _ clock(2)] uses same by simp
    ultimately show ?thesis
      using clock(1)
      by (auto simp: value_of_def call_op_get_def g getter_wall_clock_time_def timestamp_diff_ns_def)
  qed
  have compiled: "value_of P freq ?a ?b e =
      long_of_int (atomic_value (counter_compilation_total cs) + of_nat (count_list es Method_compiled)) -
      long_of_int (atomic_value (counter_compilation_total cs))" if g: "op_get e = Some JvmCompilations"
    using measure_start_fills [of P cs c old w] measure_stop_fills [of P cs' c' old' w']
      event_backends(2) [OF ok e g] same
    by (simp add: value_of_def call_op_get_def g getter_jvm_compilations_def fills_def cs' total_after)
  show ?thesis
    unfolding true_value_def Let_def ubench_atomic_int_get_def
    using wall compiled compilations_between by auto
qed

lemma measured_types:
  "snap_type (fst (ubench_measure_start P cs c old w)) = - 1"
  "snap_type (fst (ubench_measure_stop P cs c old w)) = - 2"
  using measure_start_fills [of P cs c old w] measure_stop_fills [of P cs c old w]
  by (simp_all add: fills_def UBENCH_SNAPSHOT_TYPE_START_def UBENCH_SNAPSHOT_TYPE_END_def)

lemma row_added:
  assumes jvm: "jvm_delivers P" "jvm_creates_results P" and inv: "agent_inv P s"
    and c: "slot_of s j = Some c" "events_of c = es"
    and log: "snapshot_log c = (pair_log ps @ [a]) @ [b]"
      "\<forall>(a, b) \<in> set ps. snap_type a = - 1 \<and> snap_type b = - 2"
    and types: "snap_type a = - 1" "snap_type b = - 2"
    and good: "\<And>e. e \<in> set es \<Longrightarrow> good e (value_of P (windows_timer_frequency s) a b e)"
  shows "returns (Measurement_getResults P j s) (\<lambda>(r, _). \<exists>v. map_option data_rows r =
      Some (map (\<lambda>(a, b). map (value_of P (windows_timer_frequency s) a b) es) ps @ [map v es]) \<and>
    (\<forall>e \<in> set es. good e (v e)))"
proof -
  have "completed (snapshot_log c) = ps @ [(a, b)]"
    using completed_pair_log [of "ps @ [(a, b)]"] log types by (simp add: pair_log_append)
  then show ?thesis
    by (intro returns_mono [OF getResults_eq [OF jvm inv]])
       (use c good in \<open>auto simp: results_of_def intro!: exI [of _ "value_of P (windows_timer_frequency s) a b"]\<close>)
qed

text \<open>
  C2: End to end. On an event set whose starts and stops alternated so far and that has room, \<open>start\<close>,
  then anything the program, the virtual machine and other event sets do, \<open>stop\<close>, again anything,
  and \<open>getResults\<close>: one row is added to those of the earlier measurements. Its wall-clock column is the
  difference of two readings of the clock, the last thing that \<open>start\<close> did and the first that \<open>stop\<close>
  does after it has the array of identifiers; its column of compilations is the number of
  compilations that the virtual machine reported between the two calls (off by \<open>2^32\<close> exactly when
  the agent's count of all compilations passes \<open>2^31\<close> in between).
\<close>

theorem a_measurement_reports_what_happened:
  assumes jvm: "jvm_delivers P" "jvm_creates_results P" and inv: "agent_inv P s"
    and c: "slot_of s j = Some c" and room: "length (snapshot_log c) < data_size c"
    and log: "snapshot_log c = pair_log ps" "\<forall>(a, b) \<in> set ps. snap_type a = - 1 \<and> snap_type b = - 2"
    and clock: "HAS_TIMESPEC P" "\<And>w. clock_monotonic P w = (Some (now w), tick w)"
  shows "returns (Measurement_start P [j] s) (\<lambda>s1. \<forall>es s2. meanwhile P j es s1 s2 \<longrightarrow>
    returns (Measurement_stop P [j] s2) (\<lambda>s3. \<forall>es' s4. meanwhile P j es' s3 s4 \<longrightarrow>
    returns (Measurement_getResults P j s4) (\<lambda>(r, _). \<exists>v.
      map_option data_rows r = Some (map (\<lambda>(a, b). map (value_of P (windows_timer_frequency s4) a b)
        (events_of c)) ps @ [map v (events_of c)]) \<and>
      (\<forall>e \<in> set (events_of c). true_value now tick (agent_counters s) es (world s1)
        (snd (jni_GetIntArrayElements P [j] (world s2))) e (v e)))))"
proof -
  have ok: "config_ok P c" using index_of_slot [OF inv c] by simp
  obtain s1 c1 old where s1: "Measurement_start P [j] s = Done s1" "agent_inv P s1" "slot_of s1 j = Some c1"
    "same_setup c c1" "agent_counters s1 = agent_counters s"
    and a: "snapshot_log c1 = pair_log ps @ [fst (ubench_measure_start P (agent_counters s) c old
      (snd (jni_GetIntArrayElements P [j] (world s))))]"
    and w1: "world s1 = snd (ubench_measure_start P (agent_counters s) c old
      (snd (jni_GetIntArrayElements P [j] (world s))))"
    by (rule start_single [OF jvm(1) inv c room]) (simp only: log(1))
  let ?a = "fst (ubench_measure_start P (agent_counters s) c old
    (snd (jni_GetIntArrayElements P [j] (world s))))"
  have "even (length (snapshot_log c))" "even (data_size c)"
    using ok by (simp_all add: log(1) pair_log_length config_ok_def)
  then have "Suc (length (snapshot_log c)) < data_size c" using room by presburger
  then have room1: "length (snapshot_log c1) < data_size c1"
    using same_setup_members [OF s1(4)] by (simp add: a log(1))
  have "returns (Measurement_stop P [j] s2) (\<lambda>s3. \<forall>es' s4. meanwhile P j es' s3 s4 \<longrightarrow>
    returns (Measurement_getResults P j s4) (\<lambda>(r, _). \<exists>v.
      map_option data_rows r = Some (map (\<lambda>(a, b). map (value_of P (windows_timer_frequency s4) a b)
        (events_of c)) ps @ [map v (events_of c)]) \<and>
      (\<forall>e \<in> set (events_of c). true_value now tick (agent_counters s) es (world s1)
        (snd (jni_GetIntArrayElements P [j] (world s2))) e (v e))))"
    if between: "meanwhile P j es s1 s2" for es s2
  proof -
    have s2: "agent_inv P s2" "slot_of s2 j = Some c1"
      and cs: "agent_counters s2 = snd (run_counters P (agent_counters s) es)"
      using meanwhile_untouched [OF jvm between s1(2)] s1(3,5) by (auto simp: untouched_def)
    obtain s3 c2 old' where s3: "Measurement_stop P [j] s2 = Done s3" "agent_inv P s3"
      "slot_of s3 j = Some c2" "same_setup c1 c2"
      and b: "snapshot_log c2 = snapshot_log c1 @ [fst (ubench_measure_stop P (agent_counters s2) c1 old'
        (snd (jni_GetIntArrayElements P [j] (world s2))))]"
      by (rule stop_single [OF jvm(1) s2 room1])
    have events: "events_of c2 = events_of c"
      using same_setup_members [OF s1(4)] same_setup_members [OF s3(4)] by (simp add: events_of_def)
    have "used_backends c1 = used_backends c" using same_setup_members [OF s1(4)] by simp
    note true = values_are_true [OF ok _ this clock cs]
    have "returns (Measurement_getResults P j s4) (\<lambda>(r, _). \<exists>v.
        map_option data_rows r = Some (map (\<lambda>(a, b). map (value_of P (windows_timer_frequency s4) a b)
          (events_of c)) ps @ [map v (events_of c)]) \<and>
        (\<forall>e \<in> set (events_of c). true_value now tick (agent_counters s) es (world s1)
          (snd (jni_GetIntArrayElements P [j] (world s2))) e (v e)))"
      if after: "meanwhile P j es' s3 s4" for es' s4
    proof -
      have s4: "agent_inv P s4" "slot_of s4 j = Some c2"
        using meanwhile_untouched [OF jvm after s3(2)] s3(3) by (auto simp: untouched_def)
      show ?thesis
        by (rule row_added [OF jvm s4 events b [unfolded a] log(2) measured_types])
           (unfold w1, rule true)
    qed
    then show ?thesis by (simp add: s3(1))
  qed
  then show ?thesis by (simp add: s1(1))
qed

text \<open>An agent with one event set, for the wall clock and the compilations, for the example.\<close>

definition timed_events :: "ubench_event_info_t list" where
  "timed_events =
    [zero_event_info\<lparr>backend := UBENCH_EVENT_BACKEND_SYS_WALLCLOCK, op_get_raw := Some WallClockTime,
       op_get := Some WallClockTime, event_name := Some ''SYS:wallclock-time''\<rparr>,
     zero_event_info\<lparr>backend := UBENCH_EVENT_BACKEND_JVM_COMPILATIONS, op_get_raw := Some JvmCompilations,
       op_get := Some JvmCompilations, event_name := Some ''JVM:compilations''\<rparr>]"

definition timed_config :: benchmark_configuration_t where
  "timed_config = (sample_config (UBENCH_EVENT_BACKEND_SYS_WALLCLOCK OR UBENCH_EVENT_BACKEND_JVM_COMPILATIONS))
    \<lparr>used_events := Buf timed_events, used_events_count := 2,
     data := Buf (replicate 2 zero_snapshot), data_size := 2\<rparr>"

definition timed_agent :: "nat agent" where
  "timed_agent = (initial_agent 0)
    \<lparr>all_eventsets := Buf [\<lparr>config = timed_config, valid = True\<rparr>], all_eventset_count := 1\<rparr>"

lemma timed_config_ok: "config_ok sample_platform timed_config"
proof -
  have "\<forall>e \<in> set timed_events. event_ok sample_platform
      (UBENCH_EVENT_BACKEND_SYS_WALLCLOCK OR UBENCH_EVENT_BACKEND_JVM_COMPILATIONS) e"
    by (simp add: timed_events_def event_ok_def resolved_def known_events_def plain_event_def
        sample_platform_def backend_defs zero_event_info_def UBENCH_MAX_PAPI_EVENTS_def)
  moreover have "papi_codes timed_events = {}"
    by (auto simp: papi_codes_def is_papi_def timed_events_def backend_defs)
  then have "papi_table_ok [] timed_events"
    by (auto simp: papi_table_ok_def papi_counters_def papi_index_ok_def is_papi_def timed_events_def backend_defs
        UBENCH_MAX_PAPI_EVENTS_def)
  ultimately have "events_ok sample_platform 2 timed_config"
    unfolding events_ok_def
    by (intro exI [of _ timed_events]) (simp add: timed_config_def sample_config_def timed_events_def)
  then show ?thesis
    by (simp add: config_ok_def timed_config_def sample_config_def zero_snapshot_def)
qed

lemma timed_agent_slots: "slots timed_agent = [\<lparr>config = timed_config, valid = True\<rparr>]"
  by (simp add: timed_agent_def slots_def)

lemma timed_agent_inv: "agent_inv sample_platform timed_agent"
proof -
  have "config_ok sample_platform c" if "c \<in> ran (slot_map timed_agent)" for c
    using that timed_config_ok by (auto simp: ran_def slot_map_def timed_agent_slots split: if_splits)
  then show ?thesis
    by (simp add: agent_inv_def timed_agent_slots)
       (simp add: timed_agent_def initial_agent_def registry_inv_initial)
qed

lemma timed_agent_slot: "slot_of timed_agent 0 = Some timed_config"
  by (simp add: slot_of_def slot_map_def timed_agent_slots)

lemma timed_values:
  assumes "\<forall>e \<in> set timed_events. true_value (\<lambda>w. \<lparr>ts_sec = 1, ts_nsec = 100 * of_nat w\<rparr>) Suc
    initial_counters (replicate 3 Method_compiled) w
    (snd (jni_GetIntArrayElements sample_platform [0] (w + 50))) e (v e)"
  shows "map v timed_events = [5100, 3]"
proof -
  obtain e1 e2 where e: "timed_events = [e1, e2]" "op_get e1 = Some WallClockTime" "op_get e2 = Some JvmCompilations"
    by (simp add: timed_events_def)
  have "v e1 = 5100"
    using assms e(2) by (auto simp: e(1) true_value_def sample_platform_def timespec_diff_ns_def Let_def
        algebra_simps)
  moreover have "sint (v e2) = sint (3 :: c_long)"
    using assms e(3) by (simp add: e(1) true_value_def initial_counters_def ubench_atomic_int_get_def Let_def numeral_3_eq_3)
  then have "v e2 = 3" by (rule signed_word_eqI)
  ultimately show ?thesis by (simp add: e(1))
qed

theorem a_measurement_reports_what_happened_witness:
  "\<exists>s1 cs. Measurement_start sample_platform [0] timed_agent = Done s1 \<and>
    cs = snd (run_counters sample_platform initial_counters (replicate 3 Method_compiled)) \<and>
    returns (Measurement_stop sample_platform [0]
        (s1\<lparr>agent_counters := cs, pending_exception := None, world := world s1 + 50\<rparr>)) (\<lambda>s3.
      returns (Measurement_getResults sample_platform 0 s3) (\<lambda>(r, _).
        map_option data_rows r = Some [[5100, 3]]))"
proof -
  let ?es = "replicate 3 Method_compiled"
  let ?cs = "snd (run_counters sample_platform initial_counters ?es)"
  let ?now = "\<lambda>w. \<lparr>ts_sec = 1, ts_nsec = 100 * of_nat w\<rparr> :: timespec"
  have clock: "HAS_TIMESPEC sample_platform"
    "clock_monotonic sample_platform w = (Some (?now w), Suc w)" for w
    by (simp_all add: sample_platform_def)
  have empty: "length (snapshot_log timed_config) < data_size timed_config"
    "snapshot_log timed_config = pair_log []"
    by (simp_all add: snapshot_log_def timed_config_def sample_config_def)
  from a_measurement_reports_what_happened [OF sample_jvm sample_creates_results timed_agent_inv
      timed_agent_slot empty _ clock]
  obtain s1 where s1: "Measurement_start sample_platform [0] timed_agent = Done s1"
    and run: "\<And>es s2. meanwhile sample_platform 0 es s1 s2 \<Longrightarrow>
      returns (Measurement_stop sample_platform [0] s2) (\<lambda>s3. \<forall>es' s4. meanwhile sample_platform 0 es' s3 s4 \<longrightarrow>
      returns (Measurement_getResults sample_platform 0 s4) (\<lambda>(r, _). \<exists>v.
        map_option data_rows r = Some [map v timed_events] \<and>
        (\<forall>e \<in> set timed_events. true_value ?now Suc initial_counters es (world s1)
          (snd (jni_GetIntArrayElements sample_platform [0] (world s2))) e (v e))))"
    by (auto simp: returns_iff events_of_def timed_config_def timed_agent_def initial_agent_def)
  let ?s2 = "s1\<lparr>agent_counters := ?cs, pending_exception := None, world := world s1 + 50\<rparr>"
  have "agent_counters s1 = initial_counters"
    by (rule start_single [OF sample_jvm timed_agent_inv timed_agent_slot empty(1)])
       (use s1 in \<open>simp add: timed_agent_def initial_agent_def\<close>)
  then have "meanwhile sample_platform 0 ([] @ ?es) s1 (s1\<lparr>agent_counters := ?cs\<rparr>)"
    by (intro meanwhile.counting [OF meanwhile.nothing]) (simp add: prod_eq_iff)
  from meanwhile.program [OF this, of "world s1 + 50"]
  have "meanwhile sample_platform 0 ?es s1 ?s2" by simp
  note stopped = run [OF this]
  have "returns (Measurement_stop sample_platform [0] ?s2) (\<lambda>s3.
      returns (Measurement_getResults sample_platform 0 s3) (\<lambda>(r, _).
        map_option data_rows r = Some [[5100, 3]]))"
  proof (rule returns_mono [OF stopped], elim allE impE)
    fix s3 show "meanwhile sample_platform 0 [] s3 s3" by (rule meanwhile.nothing)
  next
    fix s3
    assume "returns (Measurement_getResults sample_platform 0 s3) (\<lambda>(r, _). \<exists>v.
      map_option data_rows r = Some [map v timed_events] \<and>
      (\<forall>e \<in> set timed_events. true_value ?now Suc initial_counters ?es (world s1)
        (snd (jni_GetIntArrayElements sample_platform [0] (world ?s2))) e (v e)))"
    then show "returns (Measurement_getResults sample_platform 0 s3) (\<lambda>(r, _).
        map_option data_rows r = Some [[5100, 3]])"
      by (rule returns_mono) (clarsimp, erule timed_values)
  qed
  then show ?thesis using s1 by blast
qed

end
