(* ===== verification/LogTable.thy ===== *)
theory LogTable
  imports Results Creation
begin

text \<open>
  The native methods on event sets as an abstract machine: a table that gives each valid identifier
  the room of its event set and the types of the snapshots in its log. Every sequence of calls, with
  any identifiers, has the answers that the table allows, and runs into undefined behaviour only at
  a \<open>stop\<close> on a full log and at an attaching creation that fails.
\<close>

section \<open>The abstract machine\<close>

type_synonym set_state = "nat \<times> c_int list"
type_synonym table = "c_int \<Rightarrow> set_state option"

text \<open>What a call does to one event set; \<open>None\<close> is undefined behaviour.\<close>

fun spec_open :: "c_int \<Rightarrow> set_state \<Rightarrow> set_state option" where
  "spec_open type (n, log) = Some (n, (if n \<le> length log then take (n - 2) log else log) @ [type])"

fun spec_close :: "set_state \<Rightarrow> set_state option" where
  "spec_close (n, log) = (if length log < n then Some (n, log @ [- 2]) else None)"

fun spec_clear :: "set_state \<Rightarrow> set_state option" where
  "spec_clear (n, log) = Some (n, [])"

text \<open>The identifiers in turn, also repeated ones; \<open>False\<close> when an invalid one ended the call.\<close>

fun spec_each :: "(set_state \<Rightarrow> set_state option) \<Rightarrow> c_int list \<Rightarrow> table \<Rightarrow> (bool \<times> table) option" where
  "spec_each f [] a = Some (True, a)"
| "spec_each f (j # js) a =
     (case a j of None \<Rightarrow> Some (False, a)
      | Some x \<Rightarrow> (case f x of None \<Rightarrow> None | Some y \<Rightarrow> spec_each f js (a(j \<mapsto> y))))"

text \<open>The number of measurements in a log; the flag says that one is open.\<close>

fun spec_rows :: "bool \<Rightarrow> c_int list \<Rightarrow> nat" where
  "spec_rows opened [] = 0"
| "spec_rows False (t # ts) = spec_rows (t = - 1) ts"
| "spec_rows True (t # ts) = (if t = - 2 then Suc (spec_rows False ts) else spec_rows True ts)"

datatype call =
    Create c_int "string list" "c_int list"
  | Attach attachee c_int "string list" "c_int list"
  | Destroy c_int
  | Start "c_int list" | Stop "c_int list" | Sample c_int "c_int list" | Reset "c_int list"
  | Rows_of c_int | Raw_rows_of c_int

text \<open>What Java sees: an exception, an identifier, the number of rows, the last column of the raw ones.\<close>

datatype answer = Finished | Thrown string | Created c_int | Rows nat | Types "c_long list"

definition invalid_id :: answer where
  "invalid_id = Thrown ''Invalid event set id.''"

definition spec_recording :: "(bool \<times> table) option \<Rightarrow> answer \<Rightarrow> table \<Rightarrow> bool" where
  "spec_recording result r a' \<longleftrightarrow>
    (case result of None \<Rightarrow> False
     | Some (ok, b) \<Rightarrow> r = (if ok then Finished else invalid_id) \<and> a' = b)"

text \<open>A creation makes a new entry, or throws.\<close>

definition spec_created :: "c_int \<Rightarrow> table \<Rightarrow> answer \<Rightarrow> table \<Rightarrow> bool" where
  "spec_created m a r a' \<longleftrightarrow>
    (\<exists>message. r = Thrown message) \<and> a' = a \<or>
    (\<exists>j. r = Created j \<and> 0 \<le> sint j \<and> a j = None \<and> a' = a(j \<mapsto> (nat (sint (m * 2)), [])))"

fun spec_call :: "call \<Rightarrow> table \<Rightarrow> answer \<Rightarrow> table \<Rightarrow> bool" where
  "spec_call (Create m names options) a r a' \<longleftrightarrow> spec_created m a r a'"
| "spec_call (Attach thread m names options) a r a' \<longleftrightarrow> spec_created m a r a'"
| "spec_call (Destroy j) a r a' \<longleftrightarrow>
     r = (if a j = None then invalid_id else Finished) \<and> a' = a(j := None)"
| "spec_call (Start js) a r a' \<longleftrightarrow> spec_recording (spec_each (spec_open (- 1)) js a) r a'"
| "spec_call (Stop js) a r a' \<longleftrightarrow> spec_recording (spec_each spec_close js a) r a'"
| "spec_call (Sample k js) a r a' \<longleftrightarrow> spec_recording (spec_each (spec_open k) js a) r a'"
| "spec_call (Reset js) a r a' \<longleftrightarrow> spec_recording (spec_each spec_clear js a) r a'"
| "spec_call (Rows_of j) a r a' \<longleftrightarrow> a' = a \<and>
     r = (case a j of None \<Rightarrow> invalid_id | Some (n, log) \<Rightarrow> Rows (spec_rows False log))"
| "spec_call (Raw_rows_of j) a r a' \<longleftrightarrow> a' = a \<and>
     r = (case a j of None \<Rightarrow> invalid_id | Some (n, log) \<Rightarrow> Types (map long_of_int log))"

inductive spec_trace :: "table \<Rightarrow> (call \<times> answer) list \<Rightarrow> table \<Rightarrow> bool" where
  no_call: "spec_trace a [] a"
| one_call: "spec_call c a r a1 \<Longrightarrow> spec_trace a1 rs a2 \<Longrightarrow> spec_trace a ((c, r) # rs) a2"

inductive_simps spec_trace_simps: "spec_trace a [] b" "spec_trace a ((c, r) # rs) b"

section \<open>The agent's side\<close>


definition answered :: "answer \<Rightarrow> 'w agent \<Rightarrow> answer \<times> 'w agent" where
  "answered r s = ((case pending_exception s of None \<Rightarrow> r | Some message \<Rightarrow> Thrown message), s)"

fun perform :: "'w platform \<Rightarrow> call \<Rightarrow> 'w agent \<Rightarrow> (answer \<times> 'w agent) outcome" where
  "perform P (Create m names options) s =
     obind (Measurement_createEventSet P m names options s) (\<lambda>(j, s'). Done (answered (Created j) s'))"
| "perform P (Attach thread m names options) s =
     obind (create_attached P thread m names options s) (\<lambda>(j, s'). Done (answered (Created j) s'))"
| "perform P (Destroy j) s =
     obind (Measurement_destroyEventSet P j s) (\<lambda>s'. Done (answered Finished s'))"
| "perform P (Start js) s = obind (Measurement_start P js s) (\<lambda>s'. Done (answered Finished s'))"
| "perform P (Stop js) s = obind (Measurement_stop P js s) (\<lambda>s'. Done (answered Finished s'))"
| "perform P (Sample k js) s = obind (Measurement_sample P k js s) (\<lambda>s'. Done (answered Finished s'))"
| "perform P (Reset js) s = obind (Measurement_reset P js s) (\<lambda>s'. Done (answered Finished s'))"
| "perform P (Rows_of j) s = obind (Measurement_getResults P j s) (\<lambda>(r, s').
     Done (answered (case r of None \<Rightarrow> Finished | Some t \<Rightarrow> Rows (length (data_rows t))) s'))"
| "perform P (Raw_rows_of j) s = obind (Measurement_getRawResults P j s) (\<lambda>(r, s').
     Done (answered (case r of None \<Rightarrow> Finished | Some t \<Rightarrow> Types (map last (data_rows t))) s'))"

text \<open>
  A call from Java: no exception is pending, and since the last call the environment, the counters
  and the registry of threads may have changed in any way.
\<close>

type_synonym 'w entrance = "'w \<times> counters \<times> registry \<times> call"

definition call_of :: "'w entrance \<Rightarrow> call" where
  "call_of x = snd (snd (snd x))"

fun enter :: "'w entrance \<Rightarrow> 'w agent \<Rightarrow> 'w agent" where
  "enter (w, cs, registry, c) s =
    s\<lparr>pending_exception := None, world := w, agent_counters := cs, agent_registry := registry\<rparr>"

fun run_calls :: "'w platform \<Rightarrow> 'w entrance list \<Rightarrow> 'w agent \<Rightarrow> (answer list \<times> 'w agent) outcome" where
  "run_calls P [] s = Done ([], s)"
| "run_calls P (x # calls) s =
     obind (perform P (call_of x) (enter x s)) (\<lambda>(r, s1).
     obind (run_calls P calls s1) (\<lambda>(rs, s2). Done (r # rs, s2)))"

text \<open>The registry is one that its operations can produce.\<close>

definition sound_registries :: "'w entrance list \<Rightarrow> bool" where
  "sound_registries calls \<longleftrightarrow> (\<forall>(w, cs, registry, c) \<in> set calls. registry_inv registry)"

text \<open>The abstraction of a state.\<close>

definition entry :: "benchmark_configuration_t \<Rightarrow> set_state" where
  "entry c = (data_size c, map snap_type (snapshot_log c))"

definition table_of :: "'w agent \<Rightarrow> table" where
  "table_of s j = map_option entry (slot_of s j)"

text \<open>
  The calls that run into undefined behaviour: a \<open>stop\<close> that meets a full log, and on a build with
  PAPI an attaching one whose creation fails.
\<close>

fun goes_wrong :: "'w platform \<Rightarrow> call \<Rightarrow> 'w agent \<Rightarrow> bool" where
  "goes_wrong P (Stop js) s \<longleftrightarrow> spec_each spec_close js (table_of s) = None"
| "goes_wrong P (Attach thread m names options) s \<longleftrightarrow> attach_overruns P m names options s"
| "goes_wrong P _ s \<longleftrightarrow> False"

section \<open>Recording\<close>

text \<open>\<open>simulates P s r m\<close>: from the state \<open>s\<close> the code \<open>m\<close> does what the specification \<open>r\<close> says.\<close>

definition simulates :: "'w platform \<Rightarrow> 'w agent \<Rightarrow> (bool \<times> table) option \<Rightarrow> 'w agent outcome \<Rightarrow> bool" where
  "simulates P s r m = (case r of
     None \<Rightarrow> m = Fault OutOfBounds
   | Some (ok, a) \<Rightarrow> returns m (\<lambda>s'. agent_inv P s' \<and> table_of s' = a \<and>
       length (slots s') = length (slots s) \<and>
       pending_exception s' = (if ok then pending_exception s else Some ''Invalid event set id.'')))"

text \<open>An invalid identifier is refused, and the table stays.\<close>

lemma refused_refines:
  assumes jvm: "jvm_delivers P" and inv: "agent_inv P s"
  shows "returns (do_throw P INVALID_ID_MESSAGE s) (\<lambda>s'. agent_inv P s' \<and> table_of s' = table_of s \<and>
    length (slots s') = length (slots s) \<and> pending_exception s' = Some ''Invalid event set id.'')"
proof (rule returns_mono [OF throw_invalid [OF jvm inv]], elim conjE)
  fix s' assume s': "agent_inv P s'" "threw INVALID_ID_MESSAGE s s'"
  then have "table_of s' = table_of s" "length (slots s') = length (slots s)"
    using unchanged_slot_of [of s s'] unchanged_slots [of s s']
    by (simp_all add: threw_def table_of_def fun_eq_iff)
  with s' show "agent_inv P s' \<and> table_of s' = table_of s \<and> length (slots s') = length (slots s) \<and>
      pending_exception s' = Some ''Invalid event set id.''"
    by (simp add: threw_def INVALID_ID_MESSAGE_def)
qed

text \<open>The contract of an operation on one event set that implements an abstract one.\<close>

locale recording_spec =
  fixes P :: "'w platform"
    and op :: "'w slot_op"
    and f :: "set_state \<Rightarrow> set_state option"
  assumes undefined_law: "config_ok P c \<Longrightarrow> f (entry c) = None \<Longrightarrow> op cs c w = Fault OutOfBounds"
    and defined_law: "config_ok P c \<Longrightarrow> f (entry c) \<noteq> None \<Longrightarrow> returns (op cs c w)
      (\<lambda>(c', w'). config_ok P c' \<and> same_setup c c' \<and> f (entry c) = Some (entry c'))"

sublocale recording_spec \<subseteq> slot_operation P op "\<lambda>c. f (entry c) \<noteq> None"
  "\<lambda>cs c c'. f (entry c) = Some (entry c')"
  by unfold_locales (rule defined_law)

context recording_spec
begin

lemma on_slot_refines:
  assumes inv: "agent_inv P s" and c: "slot_of s j = Some c"
  shows "simulates P s (map_option (\<lambda>x. (True, (table_of s)(j \<mapsto> x))) (f (entry c)))
    (on_slot op (nat (sint j)) s)"
proof (cases "f (entry c)")
  case None
  have "config_ok P c" using index_of_slot [OF inv c] by blast
  then have "op (agent_counters s) c (world s) = Fault OutOfBounds" using None by (rule undefined_law)
  then show ?thesis
    using slot_of_get [OF c] by (auto simp: simulates_def None on_slot_def)
next
  case (Some x)
  have en: "f (entry c) \<noteq> None" using Some by simp
  have "agent_inv P s' \<and> table_of s' = (table_of s)(j \<mapsto> x) \<and> length (slots s') = length (slots s)"
    if s': "agent_inv P s'" "updated (\<lambda>cs c c'. f (entry c) = Some (entry c')) {j} s s'" for s'
  proof -
    obtain c' where c': "slot_of s' j = Some c'" "f (entry c) = Some (entry c')"
      using updated_at [OF s'(2) _ c] by blast
    have "table_of s' i = ((table_of s)(j \<mapsto> x)) i" for i
      using s'(2) c' Some by (cases "i = j") (simp_all add: table_of_def updated_def)
    then show ?thesis using s' by (simp add: updated_def fun_eq_iff)
  qed
  note post = this
  have "returns (on_slot op (nat (sint j)) s) (\<lambda>s'. agent_inv P s' \<and>
      table_of s' = (table_of s)(j \<mapsto> x) \<and> length (slots s') = length (slots s) \<and>
      pending_exception s' = pending_exception s)"
  proof (rule returns_mono [OF on_slot_spec [OF inv c en]], elim conjE)
    fix s' assume "agent_inv P s'" "updated (\<lambda>cs c c'. f (entry c) = Some (entry c')) {j} s s'"
      "pending_exception s' = pending_exception s"
    then show "agent_inv P s' \<and> table_of s' = (table_of s)(j \<mapsto> x) \<and>
        length (slots s') = length (slots s) \<and> pending_exception s' = pending_exception s"
      using post [of s'] by simp
  qed
  then show ?thesis by (simp add: simulates_def Some)
qed

lemma for_ids_refines:
  assumes jvm: "jvm_delivers P" and "agent_inv P s"
  shows "simulates P s (spec_each f js (table_of s)) (for_ids P op js s)"
  using assms(2)
proof (induction js arbitrary: s)
  case Nil
  then show ?case by (simp add: simulates_def table_of_def fun_eq_iff)
next
  case (Cons j js)
  note inv = Cons.prems
  show ?case
  proof (cases "slot_of s j")
    case None
    moreover have "table_of s j = None" using None by (simp add: table_of_def)
    ultimately show ?thesis
      using refused_refines [OF jvm inv] by (simp add: simulates_def is_valid_id_eq [OF inv])
  next
    case (Some c)
    have run: "for_ids P op (j # js) s = obind (on_slot op (nat (sint j)) s) (\<lambda>s'. for_ids P op js s')"
      using Some by (simp add: is_valid_id_eq [OF inv])
    have entry: "table_of s j = Some (entry c)" using Some by (simp add: table_of_def)
    show ?thesis
    proof (cases "f (entry c)")
      case None
      then show ?thesis
        using on_slot_refines [OF inv Some] by (simp add: simulates_def run entry del: for_ids.simps)
    next
      case x: (Some x)
      from on_slot_refines [OF inv Some]
      obtain s1 where s1: "on_slot op (nat (sint j)) s = Done s1" "agent_inv P s1"
        "table_of s1 = (table_of s)(j \<mapsto> x)" "length (slots s1) = length (slots s)"
        "pending_exception s1 = pending_exception s"
        by (auto simp: simulates_def x returns_iff)
      have "simulates P s1 (spec_each f js (table_of s1)) (for_ids P op js s1)"
        by (rule Cons.IH [OF s1(2)])
      then show ?thesis
        by (simp only: simulates_def run entry s1 obind.simps spec_each.simps option.simps x)
    qed
  qed
qed

lemma on_event_sets_refines:
  assumes jvm: "jvm_delivers P" and inv: "agent_inv P s"
  shows "simulates P s (spec_each f js (table_of s)) (on_event_sets P op js s)"
proof (cases "js = []")
  case True
  then show ?thesis using inv by (simp add: simulates_def on_event_sets_def)
next
  case False
  obtain acc s1 where e: "GetIntArrayElements P js s = (acc, s1)"
    by (metis prod.exhaust)
  have acc using GetIntArrayElements_result(1) [OF e] jvm by (simp add: jvm_delivers_def)
  have u: "unchanged s s1" using e by (rule GetIntArrayElements_result)
  have same: "table_of s1 = table_of s" "length (slots s1) = length (slots s)"
    "pending_exception s1 = pending_exception s"
    using unchanged_slots [OF u] unchanged_slot_of [OF u] GetIntArrayElements_result(3) [OF e]
    by (auto simp: table_of_def fun_eq_iff)
  have "simulates P s1 (spec_each f js (table_of s1)) (for_ids P op js s1)"
    using jvm unchanged_inv [OF u inv] by (rule for_ids_refines)
  moreover have "on_event_sets P op js s = for_ids P op js s1"
    using False \<open>acc\<close> by (simp add: on_event_sets_def e)
  ultimately show ?thesis by (simp only: simulates_def same)
qed

end

lemma overwrites_entry:
  "same_setup c c' \<Longrightarrow> overwrites P type cs c c' \<Longrightarrow> spec_open type (entry c) = Some (entry c')"
  by (auto simp: overwrites_def fills_def entry_def log_append_def take_map dest!: same_setup_members)

lemma appends_entry:
  "same_setup c c' \<Longrightarrow> appends P (- 2) cs c c' \<Longrightarrow> length (snapshot_log c) < data_size c \<Longrightarrow>
    spec_close (entry c) = Some (entry c')"
  by (auto simp: appends_def fills_def entry_def dest!: same_setup_members)

lemma record_faults:
  "config_ok P c \<Longrightarrow> data_size c \<le> data_index c \<Longrightarrow> record_snapshot meas c w = Fault OutOfBounds"
  by (auto simp: record_snapshot_def config_ok_def is_live_iff)

interpretation starts: recording_spec P "start_one P" "spec_open (- 1)" for P
proof
  show "returns (start_one P cs c w)
      (\<lambda>(c', w'). config_ok P c' \<and> same_setup c c' \<and> spec_open (- 1) (entry c) = Some (entry c'))"
    if "config_ok P c" for c cs w
    using start_one_spec [OF that, of cs w] overwrites_entry
    by (auto simp: UBENCH_SNAPSHOT_TYPE_START_def elim!: returns_mono)
qed (simp add: entry_def)

interpretation samples: recording_spec P "sample_one P user_id" "spec_open user_id" for P user_id
proof
  show "returns (sample_one P user_id cs c w)
      (\<lambda>(c', w'). config_ok P c' \<and> same_setup c c' \<and> spec_open user_id (entry c) = Some (entry c'))"
    if "config_ok P c" for c cs w
    using sample_one_spec [OF that, of user_id cs w] overwrites_entry by (auto elim!: returns_mono)
qed (simp add: entry_def)

interpretation resets: recording_spec P reset_one spec_clear for P
proof
  show "returns (reset_one cs c w)
      (\<lambda>(c', w'). config_ok P c' \<and> same_setup c c' \<and> spec_clear (entry c) = Some (entry c'))"
    if "config_ok P c" for c cs w
    using reset_one_spec [OF that, of cs w]
    by (auto simp: entry_def dest: same_setup_members elim!: returns_mono)
qed (simp add: entry_def)

interpretation stops: recording_spec P "stop_one P" spec_close for P
proof
  show "stop_one P cs c w = Fault OutOfBounds" if "config_ok P c" "spec_close (entry c) = None" for c cs w
    using that log_length [OF that(1)]
    by (simp add: stop_one_def entry_def record_faults split: if_splits)
  show "returns (stop_one P cs c w)
      (\<lambda>(c', w'). config_ok P c' \<and> same_setup c c' \<and> spec_close (entry c) = Some (entry c'))"
    if ok: "config_ok P c" and room: "spec_close (entry c) \<noteq> None" for c cs w
  proof -
    have less: "length (snapshot_log c) < data_size c"
      using room by (simp add: entry_def split: if_splits)
    then have "data_index c < data_size c" by (simp add: log_length [OF ok])
    from stop_one_spec [OF ok this, of cs w] show ?thesis
      using appends_entry [OF _ _ less]
      by (auto simp: UBENCH_SNAPSHOT_TYPE_END_def elim!: returns_mono)
  qed
qed

section \<open>One call\<close>

lemma spec_rows_dropWhile:
  "spec_rows False ts = (case dropWhile (\<lambda>t. t \<noteq> - 1) ts of [] \<Rightarrow> 0 | t # r \<Rightarrow> spec_rows True r)"
  "spec_rows True ts = (case dropWhile (\<lambda>t. t \<noteq> - 2) ts of [] \<Rightarrow> 0 | t # r \<Rightarrow> Suc (spec_rows False r))"
proof (induction ts)
  case (Cons t ts)
  case 1 show ?case using Cons by (cases "t = - 1") simp_all
  case 2 show ?case using Cons by (cases "t = - 2") simp_all
qed simp_all

lemma length_completed: "length (completed log) = spec_rows False (map snap_type log)"
proof (induction log rule: completed.induct)
  case (1 log)
  have drop: "dropWhile (\<lambda>t. t \<noteq> k) (map snap_type xs) = map snap_type (dropWhile (\<lambda>s. snap_type s \<noteq> k) xs)"
    for k xs by (simp add: dropWhile_map comp_def)
  note unfold = completed.simps [of log] spec_rows_dropWhile(1) [of "map snap_type log"] drop list.map
    list.case
  show ?case
  proof (cases "dropWhile (\<lambda>s. snap_type s \<noteq> - 1) log")
    case Nil
    show ?thesis by (simp only: unfold Nil list.size)
  next
    case a: (Cons a rest)
    note unfold = unfold a spec_rows_dropWhile(2) [of "map snap_type rest"]
    show ?thesis
    proof (cases "dropWhile (\<lambda>s. snap_type s \<noteq> - 2) rest")
      case Nil
      show ?thesis by (simp only: unfold Nil list.size)
    next
      case (Cons b rest')
      show ?thesis
        using "1.IH" [OF a Cons] by (simp only: unfold Cons list.size)
    qed
  qed
qed

text \<open>What has to hold after a call that returns.\<close>

definition allowed :: "'w platform \<Rightarrow> call \<Rightarrow> 'w agent \<Rightarrow> answer \<times> 'w agent \<Rightarrow> bool" where
  "allowed P c s result = (case result of (r, s') \<Rightarrow> agent_inv P s' \<and>
    spec_call c (table_of s) r (table_of s') \<and> length (slots s') \<le> length (slots s) + 1)"

lemma recorded:
  assumes "pending_exception s = None" and "simulates P s r m"
  shows "if r = None then obind m (\<lambda>s'. Done (answered Finished s')) = Fault OutOfBounds
    else returns (obind m (\<lambda>s'. Done (answered Finished s'))) (\<lambda>(a, s'). agent_inv P s' \<and>
      spec_recording r a (table_of s') \<and> length (slots s') \<le> length (slots s) + 1)"
  using assms
  by (cases r) (auto simp: simulates_def returns_iff answered_def spec_recording_def invalid_id_def)

lemma table_of_upd:
  assumes "0 \<le> sint j" and "slot_map s' = (slot_map s)(nat (sint j) := x)"
  shows "table_of s' = (table_of s)(j := map_option entry x)"
  using slot_of_upd [OF assms] by (auto simp: table_of_def fun_eq_iff)

lemma table_of_same: "slot_of s' = slot_of s \<Longrightarrow> table_of s' = table_of s"
  by (simp add: table_of_def fun_eq_iff)

lemma created_refines:
  assumes made: "created P m names s (j, s')" and fresh: "pending_exception s = None"
    and quiet: "j \<noteq> - 1 \<longrightarrow> pending_exception s' = pending_exception s"
  shows "agent_inv P s' \<and> spec_created m (table_of s) (fst (answered (Created j) s')) (table_of s') \<and>
    length (slots s') \<le> length (slots s) + 1"
proof -
  have after: "agent_inv P s'" "length (slots s') \<le> length (slots s) + 1"
    using made by (simp_all add: created_def)
  show ?thesis
  proof (cases "j = - 1")
    case True
    then obtain message where "pending_exception s' = Some message" "slot_map s' = slot_map s"
      using made by (auto simp: created_def)
    moreover from this have "table_of s' = table_of s"
      by (intro table_of_same) (simp add: slot_of_def fun_eq_iff)
    ultimately show ?thesis
      using after by (simp add: spec_created_def answered_def)
  next
    case False
    then obtain c where c: "0 \<le> sint j" "slot_map s (nat (sint j)) = None" "fresh_config P m names c"
      "slot_map s' = (slot_map s)(nat (sint j) \<mapsto> c)"
      using made by (auto simp: created_def)
    have "entry c = (nat (sint (m * 2)), [])"
      using c(3) by (simp add: fresh_config_def entry_def snapshot_log_def)
    then have "table_of s' = (table_of s)(j \<mapsto> (nat (sint (m * 2)), []))"
      using table_of_upd [OF c(1,4)] by simp
    moreover have "table_of s j = None" using c(1,2) by (simp add: table_of_def slot_of_def)
    moreover have "pending_exception s' = None"
      using quiet False fresh by simp
    ultimately show ?thesis
      using after c(1) by (simp add: spec_created_def answered_def)
  qed
qed

lemma create_refines:
  assumes jvm: "jvm_delivers P" and inv: "agent_inv P s" and room: "length (slots s) < 2147483647"
    and fresh: "pending_exception s = None"
  shows "returns (perform P (Create m names options) s) (allowed P (Create m names options) s)"
proof -
  obtain j s' where run: "Measurement_createEventSet P m names options s = Done (j, s')"
    and made: "created P m names s (j, s')"
    using createEventSet_created [OF jvm inv room] by (fastforce simp: returns_iff)
  have quiet: "j \<noteq> - 1 \<longrightarrow> pending_exception s' = pending_exception s"
    using creation_throws_nothing [OF run] by blast
  show ?thesis
    using created_refines [OF made fresh quiet] by (simp add: run allowed_def answered_def)
qed

lemma attach_refines:
  assumes jvm: "jvm_delivers P" and inv: "agent_inv P s" and room: "length (slots s) < 2147483647"
    and fresh: "pending_exception s = None" and safe: "\<not> attach_overruns P m names options s"
  shows "returns (perform P (Attach thread m names options) s) (allowed P (Attach thread m names options) s)"
proof -
  obtain j s' where run: "create_attached P thread m names options s = Done (j, s')"
    and made: "created P m names s (j, s')" and quiet: "j \<noteq> - 1 \<longrightarrow> pending_exception s' = pending_exception s"
    using create_attached_created [OF jvm inv room safe, of thread] by (auto simp: returns_iff)
  show ?thesis
    using created_refines [OF made fresh quiet] by (simp add: run allowed_def answered_def)
qed

lemma destroy_refines:
  assumes jvm: "jvm_delivers P" and inv: "agent_inv P s" and fresh: "pending_exception s = None"
  shows "returns (perform P (Destroy j) s) (allowed P (Destroy j) s)"
proof -
  obtain s' where run: "Measurement_destroyEventSet P j s = Done s'" and after: "agent_inv P s'"
    and change: "if slot_of s j = None then threw INVALID_ID_MESSAGE s s'
      else slot_map s' = (slot_map s)(nat (sint j) := None) \<and>
        pending_exception s' = pending_exception s \<and> agent_counters s' = agent_counters s \<and>
        length (slots s') = length (slots s)"
    using destroy_spec [OF jvm inv] by (fastforce simp: returns_iff)
  show ?thesis
  proof (cases "slot_of s j = None")
    case True
    then have u: "unchanged s s'" "pending_exception s' = Some ''Invalid event set id.''"
      using change by (simp_all add: threw_def INVALID_ID_MESSAGE_def)
    have "table_of s' = table_of s" by (rule table_of_same [OF unchanged_slot_of [OF u(1)]])
    moreover have "table_of s j = None" using True by (simp add: table_of_def)
    ultimately show ?thesis
      using after u(2) unchanged_slots [OF u(1)]
      by (simp add: run allowed_def answered_def invalid_id_def fun_upd_idem)
  next
    case False
    then have "0 \<le> sint j" by (auto simp: slot_of_def split: if_splits)
    then have "table_of s' = (table_of s)(j := None)"
      using table_of_upd [of j s' s None] False change by simp
    moreover obtain x where "table_of s j = Some x" using False by (fastforce simp: table_of_def)
    ultimately show ?thesis
      using after False change fresh by (simp add: run allowed_def answered_def)
  qed
qed

lemma results_refine:
  assumes jvm: "jvm_delivers P" "jvm_creates_results P" and inv: "agent_inv P s"
    and fresh: "pending_exception s = None"
  shows "returns (perform P (Rows_of j) s) (allowed P (Rows_of j) s)"
    and "returns (perform P (Raw_rows_of j) s) (allowed P (Raw_rows_of j) s)"
proof -
  have allowed: "allowed P c s (r, s')"
    if "unchanged s s'" and "spec_call c (table_of s) r (table_of s)" for c r s'
    using that unchanged_inv [OF that(1) inv] table_of_same [OF unchanged_slot_of [OF that(1)]]
      unchanged_slots [OF that(1)] by (simp add: allowed_def)
  show "returns (perform P (Rows_of j) s) (allowed P (Rows_of j) s)"
  proof (cases "slot_of s j")
    case None
    then have "table_of s j = None" by (simp add: table_of_def)
    then show ?thesis
      using getResults_eq [OF jvm inv, of j] None
      by (auto simp: returns_iff answered_def invalid_id_def intro!: allowed)
  next
    case (Some c)
    then have "table_of s j = Some (entry c)" by (simp add: table_of_def)
    then show ?thesis
      using getResults_eq [OF jvm inv, of j] Some fresh
      by (auto simp: returns_iff answered_def results_of_def length_completed entry_def intro!: allowed)
  qed
  show "returns (perform P (Raw_rows_of j) s) (allowed P (Raw_rows_of j) s)"
  proof (cases "slot_of s j")
    case None
    then have "table_of s j = None" by (simp add: table_of_def)
    then show ?thesis
      using getRawResults_eq [OF jvm inv, of j] None
      by (auto simp: returns_iff answered_def invalid_id_def intro!: allowed)
  next
    case (Some c)
    then have "table_of s j = Some (entry c)" by (simp add: table_of_def)
    then show ?thesis
      using getRawResults_eq [OF jvm inv, of j] Some fresh
      by (auto simp: returns_iff answered_def raw_results_of_def entry_def comp_def intro!: allowed)
  qed
qed

lemma perform_refines:
  assumes jvm: "jvm_delivers P" "jvm_creates_results P" and inv: "agent_inv P s"
    and fresh: "pending_exception s = None" and room: "length (slots s) < 2147483647"
  shows "if goes_wrong P c s then perform P c s = Fault OutOfBounds
    else returns (perform P c s) (allowed P c s)"
proof -
  note recording = starts.on_event_sets_refines [OF jvm(1) inv]
    samples.on_event_sets_refines [OF jvm(1) inv] resets.on_event_sets_refines [OF jvm(1) inv]
    stops.on_event_sets_refines [OF jvm(1) inv]
  have defined: "spec_each (spec_open k) js a \<noteq> None" "spec_each spec_clear js a \<noteq> None" for k js a
    by (induction js arbitrary: a) (auto split: option.split)
  show ?thesis
  proof (cases c)
    case (Create m names options)
    then show ?thesis using create_refines [OF jvm(1) inv room fresh] by simp
  next
    case (Attach thread m names options)
    then show ?thesis
      using attach_refines [OF jvm(1) inv room fresh, of m names options thread]
        create_attached_overruns [of P m names options s thread] by simp
  next
    case (Destroy j)
    then show ?thesis using destroy_refines [OF jvm(1) inv fresh] by simp
  next
    case (Start js)
    then show ?thesis
      using recorded [OF fresh recording(1) [of js]] defined
      by (simp add: Measurement_start_def allowed_def [abs_def])
  next
    case (Stop js)
    show ?thesis
      unfolding Stop perform.simps goes_wrong.simps spec_call.simps Measurement_stop_def
        allowed_def [abs_def]
      by (rule recorded [OF fresh recording(4) [of js]])
  next
    case (Sample k js)
    then show ?thesis
      using recorded [OF fresh recording(2) [of k js]] defined
      by (simp add: Measurement_sample_def allowed_def [abs_def])
  next
    case (Reset js)
    then show ?thesis
      using recorded [OF fresh recording(3) [of js]] defined
      by (simp add: Measurement_reset_def allowed_def [abs_def])
  next
    case (Rows_of j)
    then show ?thesis using results_refine(1) [OF jvm inv fresh] by simp
  next
    case (Raw_rows_of j)
    then show ?thesis using results_refine(2) [OF jvm inv fresh] by simp
  qed
qed

section \<open>All calls\<close>

text \<open>
  The abstract machine explains a run of the agent: it has the same answers; or the calls before
  some call have, and that call goes wrong.
\<close>

definition explained :: "'w platform \<Rightarrow> 'w agent \<Rightarrow> 'w entrance list \<Rightarrow> bool" where
  "explained P s calls \<longleftrightarrow> (case run_calls P calls s of
     Done (rs, s') \<Rightarrow> length rs = length calls \<and>
       spec_trace (table_of s) (zip (map call_of calls) rs) (table_of s')
   | Fault e \<Rightarrow> e = OutOfBounds \<and> (\<exists>before x after rs s1. calls = before @ x # after \<and>
       run_calls P before s = Done (rs, s1) \<and> length rs = length before \<and>
       spec_trace (table_of s) (zip (map call_of before) rs) (table_of s1) \<and>
       goes_wrong P (call_of x) (enter x s1))
   | Exit \<Rightarrow> False
   | Hang \<Rightarrow> False)"

lemma explained_step:
  assumes one: "perform P (call_of x) (enter x s) = Done (r, s1)"
    and call: "spec_call (call_of x) (table_of s) r (table_of s1)" and rest: "explained P s1 calls"
  shows "explained P s (x # calls)"
proof (cases "run_calls P calls s1")
  case (Done y)
  then show ?thesis
    using one call rest by (cases y) (auto simp: explained_def intro: one_call)
next
  case (Fault e)
  then obtain before y after rs s2 where e: "e = OutOfBounds" "calls = before @ y # after"
    "length rs = length before" "run_calls P before s1 = Done (rs, s2)"
    "spec_trace (table_of s1) (zip (map call_of before) rs) (table_of s2)"
    "goes_wrong P (call_of y) (enter y s2)"
    using rest by (auto simp: explained_def)
  then have "x # calls = (x # before) @ y # after" "length (r # rs) = length (x # before)"
    "run_calls P (x # before) s = Done (r # rs, s2)"
    "spec_trace (table_of s) (zip (map call_of (x # before)) (r # rs)) (table_of s2)"
    using one call by (auto intro: one_call)
  moreover have "run_calls P (x # calls) s = Fault OutOfBounds"
    using one Fault e(1) by simp
  ultimately show ?thesis
    using e(6) unfolding explained_def by (simp only: outcome.case) blast
qed (use one rest in \<open>simp_all add: explained_def\<close>)

lemma explained_wrong:
  assumes "perform P (call_of x) (enter x s) = Fault OutOfBounds" and "goes_wrong P (call_of x) (enter x s)"
  shows "explained P s (x # calls)"
proof -
  have "x # calls = [] @ x # calls \<and> run_calls P [] s = Done ([], s) \<and> length [] = length [] \<and>
      spec_trace (table_of s) (zip (map call_of []) []) (table_of s) \<and> goes_wrong P (call_of x) (enter x s)"
    using assms(2) no_call by simp
  moreover have "run_calls P (x # calls) s = Fault OutOfBounds" using assms(1) by simp
  ultimately show ?thesis unfolding explained_def by (simp only: outcome.case) blast
qed

text \<open>What changes between two calls does not concern the event sets.\<close>

lemma enter_slots [simp]: "slots (enter x s) = slots s"
  by (cases x) (simp add: slots_def)

lemma enter_table [simp]: "table_of (enter x s) = table_of s"
  by (simp add: table_of_def slot_of_def slot_map_def fun_eq_iff)

lemma enter_state:
  assumes "agent_inv P s" and "sound_registries (x # calls)"
  shows "agent_inv P (enter x s)" "pending_exception (enter x s) = None" "sound_registries calls"
proof -
  obtain w cs registry c where x: "x = (w, cs, registry, c)" by (cases x)
  have map: "slot_map (enter x s) = slot_map s" by (simp add: slot_map_def fun_eq_iff)
  show "agent_inv P (enter x s)"
    using assms map enter_slots [of x s] unfolding x by (simp add: agent_inv_def sound_registries_def)
  show "pending_exception (enter x s) = None" by (simp add: x)
  show "sound_registries calls" using assms(2) by (simp add: sound_registries_def)
qed

lemma step_refines:
  assumes jvm: "jvm_delivers P" "jvm_creates_results P" and inv: "agent_inv P s"
    and sound: "sound_registries (x # calls)" and room: "length (slots s) < 2147483647"
  shows "if goes_wrong P (call_of x) (enter x s) then perform P (call_of x) (enter x s) = Fault OutOfBounds
    else returns (perform P (call_of x) (enter x s)) (\<lambda>(r, s1). agent_inv P s1 \<and>
      spec_call (call_of x) (table_of s) r (table_of s1) \<and> length (slots s1) \<le> length (slots s) + 1)"
proof -
  have "allowed P (call_of x) (enter x s) = (\<lambda>(r, s1). agent_inv P s1 \<and>
      spec_call (call_of x) (table_of s) r (table_of s1) \<and> length (slots s1) \<le> length (slots s) + 1)"
    by (simp add: allowed_def fun_eq_iff)
  then show ?thesis
    using room perform_refines [OF jvm enter_state(1,2) [OF inv sound], of "call_of x"]
    by (cases "goes_wrong P (call_of x) (enter x s)") simp_all
qed

lemma run_explained:
  assumes jvm: "jvm_delivers P" "jvm_creates_results P"
  shows "agent_inv P s \<Longrightarrow> sound_registries calls \<Longrightarrow> length (slots s) + length calls < 2147483648 \<Longrightarrow>
    explained P s calls"
proof (induction calls arbitrary: s)
  case Nil
  then show ?case by (simp add: explained_def no_call)
next
  case (Cons x calls)
  have room: "length (slots s) < 2147483647" using Cons.prems(3) by simp
  note step = step_refines [OF jvm Cons.prems(1,2) room]
  show ?case
  proof (cases "goes_wrong P (call_of x) (enter x s)")
    case True
    then show ?thesis using step by (simp add: explained_wrong)
  next
    case False
    then obtain r s1 where one: "perform P (call_of x) (enter x s) = Done (r, s1)" "agent_inv P s1"
      "spec_call (call_of x) (table_of s) r (table_of s1)" "length (slots s1) \<le> length (slots s) + 1"
      using step by (auto simp: returns_iff)
    have "explained P s1 calls"
      using Cons.prems(3) one(4) enter_state(3) [OF Cons.prems(1,2)] by (intro Cons.IH one(2)) simp_all
    with one(1,3) show ?thesis by (rule explained_step)
  qed
qed

lemma table_of_initial [simp]: "table_of (initial_agent w) = Map.empty"
  by (simp add: table_of_def slot_of_def slot_map_def initial_agent_def slots_def fun_eq_iff)

text \<open>
  C6: The agent refines the table: take any sequence of fewer than \<open>2^31\<close> calls of the native methods
  on event sets, the attaching ones included, from the start, with any arguments and with the counters,
  the registered threads and the environment changing at will in between. The answers are those that
  the table of logs allows; or the run ends, in an access outside an array, at the first call that is a
  \<open>stop\<close> on a log that is full by then, or an attaching creation on a build with PAPI when
  \<open>createEventSet\<close> fails, and the answers before are those that the table allows. It never exits or hangs.
\<close>

theorem agent_refines_log_table:
  assumes "jvm_delivers P" and "jvm_creates_results P" and "sound_registries calls"
    and "length calls < 2147483648"
  shows "case run_calls P calls (initial_agent w) of
      Done (rs, s') \<Rightarrow> length rs = length calls \<and>
        spec_trace Map.empty (zip (map call_of calls) rs) (table_of s')
    | Fault e \<Rightarrow> e = OutOfBounds \<and> (\<exists>before x after rs s1. calls = before @ x # after \<and>
        run_calls P before (initial_agent w) = Done (rs, s1) \<and> length rs = length before \<and>
        spec_trace Map.empty (zip (map call_of before) rs) (table_of s1) \<and>
        goes_wrong P (call_of x) (enter x s1))
    | Exit \<Rightarrow> False
    | Hang \<Rightarrow> False"
proof -
  have "explained P (initial_agent w) calls"
    using assms(4) by (intro run_explained [OF assms(1,2) agent_inv_initial assms(3)]) simp
  then show ?thesis by (simp only: explained_def table_of_initial)
qed

definition entrance :: "call \<Rightarrow> nat entrance" where
  "entrance c = (0, initial_counters, initial_registry, c)"

lemma entrance_simps [simp]: "call_of (entrance c) = c" "sound_registries (map entrance cs)"
  by (auto simp: entrance_def call_of_def sound_registries_def registry_inv_initial)

lemma enter_initial [simp]: "enter (entrance c) (initial_agent (0 :: nat)) = initial_agent 0"
  by (simp add: entrance_def initial_agent_def)

lemma sample_create_call:
  "\<exists>s1. perform sample_platform (Create 1 [''SYS:wallclock-time''] []) (initial_agent 0) =
    Done (Created 0, s1)"
proof -
  obtain s1 where run: "Measurement_createEventSet sample_platform 1 [''SYS:wallclock-time''] []
      (initial_agent 0) = Done (0, s1)"
    using sample_creation ..
  have "pending_exception s1 = None"
    using creation_throws_nothing [OF run] by (simp add: initial_agent_def)
  then show ?thesis by (simp add: run answered_def)
qed

theorem agent_refines_log_table_witness:
  "\<exists>s'. run_calls sample_platform
      (map entrance [Create 1 [''SYS:wallclock-time''] [], Start [0], Stop [0], Rows_of 0, Stop [7]])
      (initial_agent 0) =
    Done ([Created 0, Finished, Finished, Rows 1, invalid_id], s')"
proof -
  let ?P = sample_platform and ?c = "Create 1 [''SYS:wallclock-time''] []"
  let ?calls = "map entrance [?c, Start [0], Stop [0], Rows_of 0, Stop [7]]"
  have first: "rs = Created 0 # tl rs" if "run_calls ?P (entrance ?c # xs) (initial_agent 0) = Done (rs, s)" for xs rs s
    using that sample_create_call by (auto simp: obind_Done_iff simp del: perform.simps)
  note trace = spec_trace_simps spec_recording_def spec_created_def length_Suc_conv
  note spec = agent_refines_log_table [OF sample_jvm sample_creates_results entrance_simps(2), of
      "[?c, Start [0], Stop [0], Rows_of 0, Stop [7]]" 0]
  show ?thesis
  proof (cases "run_calls ?P ?calls (initial_agent 0)")
    case (Done x)
    then obtain rs s' where x: "x = (rs, s')" by (cases x)
    have "rs = Created 0 # tl rs" using Done first by (simp add: x del: run_calls.simps)
    moreover have "length rs = Suc (Suc (Suc (Suc (Suc 0))))" "spec_trace Map.empty (zip (map call_of ?calls) rs) (table_of s')"
      using spec by (simp_all only: Done x) (simp_all)
    ultimately have "rs = [Created 0, Finished, Finished, Rows 1, invalid_id]"
      by (auto simp: trace)
    then show ?thesis using Done x by simp
  next
    case (Fault e)
    then obtain before y after rs s1 where "?calls = before @ y # after"
      "run_calls ?P before (initial_agent 0) = Done (rs, s1)" "length rs = length before"
      "spec_trace Map.empty (zip (map call_of before) rs) (table_of s1)"
      "goes_wrong ?P (call_of y) (enter y s1)"
      using spec by auto
    moreover from this have "before = [] \<or> rs = Created 0 # tl rs"
      using first by (cases before) (auto simp del: run_calls.simps)
    ultimately show ?thesis
      by (auto simp: trace Cons_eq_append_conv simp del: run_calls.simps)
  qed (use spec in simp_all)
qed

section \<open>When \<open>stop\<close> overruns the log\<close>

text \<open>
  The stop meets a full log: all identifiers up to some place are valid, and the log of the event set
  there is full by then. An event set named several times gets a snapshot each time.
\<close>

definition meets_full_log :: "'w agent \<Rightarrow> c_int list \<Rightarrow> bool" where
  "meets_full_log s jids \<longleftrightarrow> (\<exists>k < length jids. (\<forall>j \<in> set (take (Suc k) jids). slot_of s j \<noteq> None) \<and>
    (\<exists>c. slot_of s (jids ! k) = Some c \<and>
      data_size c \<le> length (snapshot_log c) + count_list (take k jids) (jids ! k)))"

definition full_at :: "table \<Rightarrow> c_int list \<Rightarrow> nat \<Rightarrow> bool" where
  "full_at a js k \<longleftrightarrow> (\<forall>j \<in> set (take (Suc k) js). a j \<noteq> None) \<and>
    (\<exists>n log. a (js ! k) = Some (n, log) \<and> n \<le> length log + count_list (take k js) (js ! k))"

lemma full_at_0: "full_at a (j # js) 0 \<longleftrightarrow> (\<exists>n log. a j = Some (n, log) \<and> n \<le> length log)"
  by (auto simp: full_at_def)

lemma full_at_Suc:
  assumes "a j = Some (n, log)"
  shows "full_at a (j # js) (Suc k) \<longleftrightarrow> full_at (a(j \<mapsto> (n, log @ [- 2]))) js k"
proof -
  have "(\<forall>i \<in> set (take (Suc k) js). (a(j \<mapsto> (n, log @ [- 2]))) i \<noteq> None) \<longleftrightarrow>
      (\<forall>i \<in> set (take (Suc (Suc k)) (j # js)). a i \<noteq> None)"
    using assms by auto
  then show ?thesis using assms unfolding full_at_def by (cases "js ! k = j") auto
qed

lemma spec_each_close_None:
  "spec_each spec_close js a = None \<longleftrightarrow> (\<exists>k < length js. full_at a js k)"
proof (induction js arbitrary: a)
  case (Cons j js)
  have split: "(\<exists>k < length (j # js). full_at a (j # js) k) \<longleftrightarrow>
      full_at a (j # js) 0 \<or> (\<exists>k < length js. full_at a (j # js) (Suc k))"
    by (simp only: list.size add_0_right add_Suc_right Ex_less_Suc2)
  show ?case
  proof (cases "a j")
    case None
    then show ?thesis by (simp add: full_at_def)
  next
    case (Some x)
    obtain n log where x: "x = (n, log)" by (cases x)
    with Some show ?thesis
      unfolding split full_at_0 by (simp add: Cons.IH full_at_Suc [of a j n log] del: fun_upd_apply)
  qed
qed simp

lemma meets_full_log_eq: "spec_each spec_close jids (table_of s) = None \<longleftrightarrow> meets_full_log s jids"
proof -
  have "table_of s j \<noteq> None \<longleftrightarrow> slot_of s j \<noteq> None"
    and "(\<exists>n log. table_of s j = Some (n, log) \<and> n \<le> length log + m) \<longleftrightarrow>
      (\<exists>c. slot_of s j = Some c \<and> data_size c \<le> length (snapshot_log c) + m)" for j m
    by (cases "slot_of s j"; simp add: table_of_def entry_def)+
  then show ?thesis by (simp only: spec_each_close_None full_at_def meets_full_log_def)
qed

lemma stop_overruns_iff:
  assumes "jvm_delivers P" and "agent_inv P s"
  shows "if meets_full_log s jids then Measurement_stop P jids s = Fault OutOfBounds
    else \<exists>s'. Measurement_stop P jids s = Done s'"
  using stops.on_event_sets_refines [OF assms, of jids]
  by (cases "spec_each spec_close jids (table_of s)")
     (auto simp: simulates_def Measurement_stop_def returns_iff meets_full_log_eq [symmetric])

text \<open>
  C30: \<open>stop\<close> lacks the bounds check of \<open>start\<close> and \<open>sample\<close>. It writes outside the array exactly when
  it comes to an event set whose log is full by then, all identifiers up to there being valid, and
  otherwise it returns. A plain start, followed by as many samples as fit and a stop, overruns the log,
  whatever number of measurements the event set was created for.
\<close>

theorem stop_overruns_full_log:
  assumes "jvm_delivers P" and "agent_inv P s"
  shows "(Measurement_stop P jids s = Fault OutOfBounds \<longleftrightarrow> meets_full_log s jids) \<and>
    (\<not> meets_full_log s jids \<longrightarrow> (\<exists>s'. Measurement_stop P jids s = Done s')) \<and>
    (\<forall>j c. slot_of s j = Some c \<and> snapshot_log c = [] \<longrightarrow>
      obind (Measurement_start P [j] s) (\<lambda>s1.
      obind (sample_times P user_id j (data_size c - 1) s1) (\<lambda>s2. Measurement_stop P [j] s2)) =
      Fault OutOfBounds)"
proof (intro conjI allI impI)
  note stop = stop_overruns_iff [OF assms, of jids]
  then show "Measurement_stop P jids s = Fault OutOfBounds \<longleftrightarrow> meets_full_log s jids"
    by (auto split: if_splits)
  show "\<exists>s'. Measurement_stop P jids s = Done s'" if "\<not> meets_full_log s jids"
    using stop that by simp
  fix j c assume "slot_of s j = Some c \<and> snapshot_log c = []"
  then show "obind (Measurement_start P [j] s) (\<lambda>s1.
      obind (sample_times P user_id j (data_size c - 1) s1) (\<lambda>s2. Measurement_stop P [j] s2)) =
      Fault OutOfBounds"
    using overrun_by_samples [OF assms] by blast
qed

theorem stop_overruns_full_log_witness:
  "obind (Measurement_start sample_platform [0] sample_agent) (\<lambda>s1.
    obind (Measurement_sample sample_platform 5 [0] s1) (\<lambda>s2. Measurement_stop sample_platform [0] s2)) =
    Fault OutOfBounds \<and> (\<exists>s'. Measurement_stop sample_platform [0] sample_agent = Done s')"
proof -
  have "\<not> meets_full_log sample_agent [0]"
    by (simp add: meets_full_log_def sample_agent_slot snapshot_log_def sample_papi_config_def)
  with stop_overruns_full_log [OF sample_jvm sample_agent_inv, of "[0]" 5]
  have "\<exists>s'. Measurement_stop sample_platform [0] sample_agent = Done s'"
    and "slot_of sample_agent 0 = Some sample_papi_config \<and> snapshot_log sample_papi_config = [] \<longrightarrow>
      obind (Measurement_start sample_platform [0] sample_agent) (\<lambda>s1.
      obind (sample_times sample_platform 5 0 (data_size sample_papi_config - 1) s1)
        (\<lambda>s2. Measurement_stop sample_platform [0] s2)) = Fault OutOfBounds"
    by blast+
  then show ?thesis
    using sample_agent_slot by (simp add: snapshot_log_def sample_papi_config_def obind_assoc)
qed

end
