(* ===== verification/Borrowing.thy ===== *)
theory Borrowing
  imports LogTable
begin

text \<open>
  What the agent owes the virtual machine. The characters of a Java string and the elements of a
  Java array have to be given back after use, and the agent does so, except on two error paths: a
  call of \<open>start\<close>, \<open>stop\<close>, \<open>sample\<close> or \<open>reset\<close> with an invalid identifier returns without the release
  of the identifiers, and a creation with events of different PAPI components without that of the
  event's name. That creation also loses the two blocks it allocated. The names of the events that a
  creation resolved are copies that nobody ever frees. The accounts cover every sequence of calls.
\<close>

section \<open>The parts\<close>

definition MIXED_COMPONENTS :: string where
  "MIXED_COMPONENTS = ''PAPI components are not the same in the event set.''"

lemma do_throw_done:
  "do_throw P message s = Done s' \<Longrightarrow>
    borrowed s' = borrowed s \<and> allocated s' = allocated s \<and>
    names_allocated s' = names_allocated s \<and> pending_exception s' = Some message"
  by (auto simp: do_throw_def call_ext_def split: prod.splits if_splits)

lemma do_papi_error_throw_done:
  "do_papi_error_throw P rc f s = Done s' \<Longrightarrow> borrowed s' = borrowed s \<and> allocated s' = allocated s \<and>
    names_allocated s' = names_allocated s \<and>
    pending_exception s' = Some (f @ '' failed: '' @ PAPI_strerror P rc @ ''.'')"
  by (auto simp: do_papi_error_throw_def Let_def split: if_splits dest!: do_throw_done)

lemma store_slot_done:
  "store_slot i e s = Done s' \<Longrightarrow>
    borrowed s' = borrowed s \<and> allocated s' = allocated s \<and>
    names_allocated s' = names_allocated s \<and> pending_exception s' = pending_exception s"
  by (auto simp: store_slot_def obind_Done_iff)

lemma allocate_slot_done:
  "allocate_slot P s = Done (r, s') \<Longrightarrow> borrowed s' = borrowed s \<and> allocated s' = allocated s \<and>
    names_allocated s' = names_allocated s \<and>
    pending_exception s' = (if r = None then Some ''Out of memory (allocating an event set).''
      else pending_exception s)"
  by (auto simp: allocate_slot_def obind_Done_iff THROW_OOM_def Let_def
      split: option.splits prod.splits if_splits dest!: do_throw_done
      dest: call_ext_borrowed call_ext_pending)

text \<open>
  The result of a part of the creation. \<open>b\<close> and \<open>a\<close> are the strings and arrays borrowed and the blocks
  allocated before the creation, \<open>held\<close> is what the part still borrows when it succeeds. Then the
  event set has two blocks.
\<close>

fun balanced :: "int \<Rightarrow> int \<Rightarrow> int \<Rightarrow> bool \<times> benchmark_configuration_t \<times> 'w agent \<Rightarrow> bool" where
  "balanced held b a (ok, c, s) \<longleftrightarrow>
    (if ok then pending_exception s = None \<and> borrowed s = b + held \<and> allocated s = a + 2
     else pending_exception s \<noteq> None \<and>
       (if pending_exception s = Some MIXED_COMPONENTS then borrowed s = b + 1 \<and> allocated s = a + 2
        else borrowed s = b \<and> allocated s = a))"

section \<open>The creation\<close>

lemma add_event_balanced:
  assumes jvm: "jvm_delivers P"
    and run: "add_event P name c s = Done r"
    and before: "pending_exception s = None" "borrowed s = b" "allocated s = a + 2"
  shows "balanced 0 b a r"
proof -
  obtain event s1 where e1: "GetStringUTFChars P name s = (event, s1)" by (metis prod.exhaust)
  obtain x where x: "buf_get (used_events c) (used_events_count c) = Done x"
    using run by (auto simp: add_event_def e1 obind_Done_iff)
  obtain ok info s2 where e2: "call_ext (ubench_event_resolve P event x) s1 = ((ok, info), s2)"
    by (metis prod.exhaust)
  have event: "event \<noteq> None"
    using GetStringUTFChars_result(1) [OF e1] jvm by (simp add: jvm_delivers_def)
  then have s2: "pending_exception s2 = None" "borrowed s2 = b + 1" "allocated s2 = a + 2"
    using GetStringUTFChars_result(3,4,5) [OF e1] call_ext_pending [OF e2] call_ext_borrowed [OF e2]
      before by auto
  show ?thesis
  proof (cases ok)
    case False
    with run obtain name c' s3 where "event = Some name" "r = (False, c', s3)"
      and throw: "do_throw P (unrecognized_event_message name)
        (count_blocks (- 2) (ReleaseStringUTFChars event s2)) = Done s3"
      by (auto simp: add_event_def e1 x e2 obind_Done_iff split: option.splits)
    moreover have "unrecognized_event_message name \<noteq> MIXED_COMPONENTS"
      by (simp add: unrecognized_event_message_def MIXED_COMPONENTS_def)
    ultimately show ?thesis
      using do_throw_done [OF throw] s2 event by simp
  next
    case True
    have "MIXED_COMPONENTS = ''PAPI components are not the same in the event set.''"
      by (simp only: MIXED_COMPONENTS_def)
    with True run s2 event show ?thesis
      by (auto simp: add_event_def e1 x e2 obind_Done_iff Let_def split: if_splits prod.splits
        dest!: do_throw_done)
  qed
qed

lemma add_events_balanced:
  assumes jvm: "jvm_delivers P"
  shows "add_events P names c s = Done r \<Longrightarrow> pending_exception s = None \<Longrightarrow> borrowed s = b \<Longrightarrow>
    allocated s = a + 2 \<Longrightarrow> balanced 0 b a r"
proof (induction names arbitrary: c s)
  case (Cons name names)
  obtain ok c1 s1 where one: "add_event P name c s = Done (ok, c1, s1)"
    and rest: "(if \<not> ok then Done (False, c1, s1) else add_events P names c1 s1) = Done r"
    using Cons.prems(1) by (auto simp: obind_Done_iff)
  from add_event_balanced [OF jvm one Cons.prems(2,3,4)] rest Cons.IH [of c1 s1] show ?case
    by (cases ok) auto
qed auto

text \<open>PAPI's errors: the options are given back before the exception is thrown.\<close>

lemma papi_failure_balanced:
  assumes run: "papi_failure P accessible rc f c s = Done r"
    and f: "f \<in> {''PAPI_create_eventset'', ''PAPI_assign_eventset_component'',
      ''PAPI_set_opt(PAPI_INHERIT)'', ''PAPI_add_event''}"
    and "borrowed s = b + (if accessible then 1 else 0)" "allocated s = a + 2"
  shows "balanced held b a r"
proof -
  obtain c' s' where r: "r = (False, c', s')"
    and throw: "do_papi_error_throw P rc f (count_blocks (- 2) (ReleaseIntArrayElements accessible s)) =
      Done s'"
    using run by (auto simp: papi_failure_def obind_Done_iff)
  have "f @ '' failed: '' @ message \<noteq> MIXED_COMPONENTS" for message
    using f by (auto simp: MIXED_COMPONENTS_def)
  then show ?thesis
    using do_papi_error_throw_done [OF throw] assms(3,4) by (simp add: r)
qed

lemma set_options_balanced:
  "set_options P accessible options c s = Done r \<Longrightarrow> pending_exception s = None \<Longrightarrow>
    borrowed s = b + (if accessible then 1 else 0) \<Longrightarrow> allocated s = a + 2 \<Longrightarrow>
    balanced (if accessible then 1 else 0) b a r"
proof (induction options arbitrary: s)
  case (Cons option options)
  obtain rc s1 where e: "call_ext (PAPI_set_opt_inherit_all P (papi_eventset c)) s = (rc, s1)"
    by (metis prod.exhaust)
  show ?case
    using Cons call_ext_pending [OF e] call_ext_borrowed [OF e]
      papi_failure_balanced [of P accessible rc "''PAPI_set_opt(PAPI_INHERIT)''" c s1 r b a]
    by (auto simp: e split: if_splits)
qed auto

lemma add_papi_events_balanced:
  "add_papi_events P accessible codes c s = Done r \<Longrightarrow> pending_exception s = None \<Longrightarrow>
    borrowed s = b + (if accessible then 1 else 0) \<Longrightarrow> allocated s = a + 2 \<Longrightarrow>
    balanced (if accessible then 1 else 0) b a r"
proof (induction codes arbitrary: s)
  case (Cons code codes)
  obtain rc s1 where e: "call_ext (PAPI_add_event P (papi_eventset c) code) s = (rc, s1)"
    by (metis prod.exhaust)
  show ?case
    using Cons call_ext_pending [OF e] call_ext_borrowed [OF e]
      papi_failure_balanced [of P accessible rc "''PAPI_add_event''" c s1 r b a]
    by (auto simp: e split: if_splits)
qed auto

lemma setup_papi_balanced:
  assumes run: "setup_papi P accessible options c s = Done r" and before: "pending_exception s = None"
    "borrowed s = b + (if accessible then 1 else 0)" "allocated s = a + 2"
  shows "balanced (if accessible then 1 else 0) b a r"
proof -
  let ?h = "if accessible then 1 else 0 :: int"
  obtain rc h s1 where e1: "call_ext (PAPI_create_eventset P (papi_eventset c)) s = ((rc, h), s1)"
    by (metis prod.exhaust)
  obtain rc' s2 where e2: "call_ext (PAPI_assign_eventset_component P h (papi_component c)) s1 = (rc', s2)"
    by (metis prod.exhaust)
  have s1: "borrowed s1 = b + ?h" "allocated s1 = a + 2"
    and s2: "pending_exception s2 = None" "borrowed s2 = b + ?h" "allocated s2 = a + 2"
    using before call_ext_pending [OF e1] call_ext_borrowed [OF e1] call_ext_pending [OF e2]
      call_ext_borrowed [OF e2] by simp_all
  let ?c = "c\<lparr>papi_eventset := h\<rparr>"
  consider (create) "papi_failure P accessible rc ''PAPI_create_eventset'' ?c s1 = Done r"
    | (assign) "papi_failure P accessible rc' ''PAPI_assign_eventset_component'' ?c s2 = Done r"
    | (add) ok c2 s3 where "set_options P accessible options ?c s2 = Done (ok, c2, s3)"
      "(if \<not> ok then Done (False, c2, s3)
        else add_papi_events P accessible (used_papi_events c2) c2 s3) = Done r"
    using run by (auto simp: setup_papi_def e1 e2 Let_def obind_Done_iff split: if_splits)
  then show ?thesis
  proof cases
    case create
    from papi_failure_balanced [OF this _ s1] show ?thesis by simp
  next
    case assign
    from papi_failure_balanced [OF this _ s2(2,3)] show ?thesis by simp
  next
    case add
    have "balanced ?h b a (ok, c2, s3)"
      by (rule set_options_balanced [OF add(1) s2])
    with add(2) add_papi_events_balanced [of P accessible "used_papi_events c2" c2 s3 r b a]
    show ?thesis by (cases ok) auto
  qed
qed

lemma finish_setup_balanced:
  assumes run: "finish_setup P options c s = Done r" and before: "pending_exception s = None"
    "borrowed s = b" "allocated s = a + 2"
  shows "balanced 0 b a r"
proof (cases "HAS_PAPI P")
  case False
  with run before show ?thesis by (auto simp: finish_setup_def)
next
  case True
  obtain acc s1 where e: "GetIntArrayElements P options s = (acc, s1)" by (metis prod.exhaust)
  let ?h = "if acc then 1 else 0 :: int"
  have s1: "pending_exception s1 = None" "borrowed s1 = b + ?h" "allocated s1 = a + 2"
    using GetIntArrayElements_result(3,4,5) [OF e] before by auto
  obtain ok c' s2 where part: "(if uses_backend (used_backends c) UBENCH_EVENT_BACKEND_PAPI
      then setup_papi P acc options c s1 else Done (True, c, s1)) = Done (ok, c', s2)"
    and r: "r = (ok, c', if ok then ReleaseIntArrayElements acc s2 else s2)"
    using run True by (auto simp: finish_setup_def e obind_Done_iff)
  have "balanced ?h b a (ok, c', s2)"
    using part s1 setup_papi_balanced [of P acc options c s1 "(ok, c', s2)" b a]
    by (auto split: if_splits)
  then show ?thesis by (cases ok) (auto simp: r)
qed

lemma setup_eventset_balanced:
  assumes jvm: "jvm_delivers P" and run: "setup_eventset P m names options c0 s = Done r"
    and before: "pending_exception s = None" "borrowed s = b" "allocated s = a"
  shows "balanced 0 b a r"
proof -
  obtain ok1 s1 where e1: "call_ext (malloc_ok P) s = (ok1, s1)" by (metis prod.exhaust)
  obtain ok2 s2 where e2: "call_ext (malloc_ok P) (count_blocks 1 s1) = (ok2, s2)" by (metis prod.exhaust)
  have s1: "borrowed s1 = b" "allocated s1 = a"
    and s2: "pending_exception s2 = None" "borrowed s2 = b" "allocated s2 = a + 1"
    using before call_ext_pending [OF e1] call_ext_borrowed [OF e1] call_ext_pending [OF e2]
      call_ext_borrowed [OF e2] by simp_all
  show ?thesis
  proof (cases "ok1 \<and> ok2")
    case False
    with run s1 s2 show ?thesis
      by (auto simp: setup_eventset_def e1 e2 THROW_OOM_def obind_Done_iff MIXED_COMPONENTS_def
          split: if_splits dest!: do_throw_done)
  next
    case True
    obtain ok c s3 where
      add: "add_events P names (cleared_config P m (length names) c0) (count_blocks 1 s2) = Done (ok, c, s3)"
      and rest: "(if \<not> ok then Done (False, c, s3) else finish_setup P options c s3) = Done r"
      using run True by (auto simp: setup_eventset_def e1 e2 obind_Done_iff)
    have "balanced 0 b a (ok, c, s3)"
      using s2 by (intro add_events_balanced [OF jvm add]) simp_all
    with rest finish_setup_balanced [of P options c s3 r b a] show ?thesis
      by (cases ok) auto
  qed
qed

text \<open>What a call still holds when it is over, by its answer.\<close>

fun kept :: "call \<Rightarrow> answer \<Rightarrow> int" where
  "kept (Create m names options) r = (if r = Thrown MIXED_COMPONENTS then 1 else 0)"
| "kept (Attach thread m names options) r = (if r = Thrown MIXED_COMPONENTS then 1 else 0)"
| "kept (Start js) r = (if r = Finished then 0 else 1)"
| "kept (Stop js) r = (if r = Finished then 0 else 1)"
| "kept (Sample k js) r = (if r = Finished then 0 else 1)"
| "kept (Reset js) r = (if r = Finished then 0 else 1)"
| "kept _ r = 0"

text \<open>And the blocks it leaves allocated: an event set has two of them.\<close>

fun kept_blocks :: "call \<Rightarrow> answer \<Rightarrow> int" where
  "kept_blocks (Create m names options) r =
    (case r of Thrown e \<Rightarrow> if e = MIXED_COMPONENTS then 2 else 0 | _ \<Rightarrow> 2)"
| "kept_blocks (Attach thread m names options) r =
    (case r of Thrown e \<Rightarrow> if e = MIXED_COMPONENTS then 2 else 0 | _ \<Rightarrow> 2)"
| "kept_blocks (Destroy j) r = (if r = Finished then - 2 else 0)"
| "kept_blocks _ r = 0"

text \<open>How a creation that returns ended: refused at once, without a slot, or with one.\<close>

lemma createEventSet_ends:
  assumes run: "Measurement_createEventSet P m names options s = Done (j, s')"
  obtains (refused) message where "j = - 1" "do_throw P message s = Done s'" "message \<noteq> MIXED_COMPONENTS"
  | (none) "j = - 1" "allocate_slot P s = Done (None, s')"
  | (slot) k s1 c0 ok c s2 where "allocate_slot P s = Done (Some k, s1)"
      "setup_eventset P (m * 2) names options c0 s1 = Done (ok, c, s2)"
      "store_slot k \<lparr>config = c, valid = ok\<rparr> s2 = Done s'" "\<not> ok \<longrightarrow> j = - 1"
proof (cases "sint (m * 2) \<le> 0 \<or> names = []")
  case True
  with run obtain message where "j = - 1" "do_throw P message s = Done s'" "message \<noteq> MIXED_COMPONENTS"
    by (cases "sint (m * 2) \<le> 0")
      (auto simp: Measurement_createEventSet_def obind_Done_iff MIXED_COMPONENTS_def)
  then show thesis by (rule refused)
next
  case False
  with run obtain i s1 where i: "allocate_slot P s = Done (i, s1)"
    by (auto simp: Measurement_createEventSet_def obind_Done_iff)
  show thesis
  proof (cases i)
    case None
    with run False i none show thesis by (simp add: Measurement_createEventSet_def)
  next
    case (Some k)
    with run False i obtain c0 ok c s2 where "allocate_slot P s = Done (Some k, s1)"
      "setup_eventset P (m * 2) names options c0 s1 = Done (ok, c, s2)"
      "store_slot k \<lparr>config = c, valid = ok\<rparr> s2 = Done s'" "\<not> ok \<longrightarrow> j = - 1"
      by (auto simp: Measurement_createEventSet_def obind_Done_iff)
    then show thesis by (rule slot)
  qed
qed

lemma createEventSet_throws:
  assumes run: "Measurement_createEventSet P m names options s = Done (- 1, s')"
    and inv: "agent_inv P s" and room: "length (slots s) < 2147483647" and jvm: "jvm_delivers P"
  shows "pending_exception s' \<noteq> None"
  using createEventSet_created [OF jvm inv room, of m names options] run by (simp add: created_def)

lemma createEventSet_balanced:
  assumes jvm: "jvm_delivers P" and run: "Measurement_createEventSet P m names options s = Done (j, s')"
    and before: "pending_exception s = None"
  shows "borrowed s' = borrowed s + kept (Create m names options) (fst (answered (Created j) s')) \<and>
    allocated s' = allocated s + kept_blocks (Create m names options) (fst (answered (Created j) s'))"
  using run
proof (cases rule: createEventSet_ends)
  case refused
  then show ?thesis
    using do_throw_done [OF refused(2)] by (simp add: answered_def)
next
  case none
  then show ?thesis
    using allocate_slot_done [OF none(2)] by (simp add: answered_def MIXED_COMPONENTS_def)
next
  case (slot k s1 c0 ok c s2)
  note s1 = allocate_slot_done [OF slot(1)]
  have "balanced 0 (borrowed s) (allocated s) (ok, c, s2)"
    using s1 before by (intro setup_eventset_balanced [OF jvm slot(2)]) simp_all
  then show ?thesis
    using store_slot_done [OF slot(3)] by (auto simp: answered_def split: if_splits)
qed

section \<open>The names of the events\<close>

text \<open>
  A part of the creation copies at most \<open>k\<close> names, exactly \<open>k\<close> when it succeeds and \<open>malloc\<close> does.
  \<open>n\<close> is the number of names copied before.
\<close>

fun copied :: "'w platform \<Rightarrow> int \<Rightarrow> int \<Rightarrow> bool \<times> 'c \<times> 'w agent \<Rightarrow> bool" where
  "copied P n k (ok, c, s) \<longleftrightarrow> n \<le> names_allocated s \<and> names_allocated s \<le> n + k \<and>
    (ok \<and> memory_suffices P \<longrightarrow> names_allocated s = n + k)"

lemma resolve_copies_name:
  assumes memory: "memory_suffices P"
  shows "ubench_event_resolve P event info w = ((True, i), w') \<Longrightarrow> event_name i \<noteq> None"
proof -
  have fill: "fill_event_info P it name info w = ((ok, i), w') \<Longrightarrow> event_name i \<noteq> None" for it name info w ok
    using memory by (auto simp: fill_event_info_def ubench_str_dup_def memory_suffices_def split: prod.splits if_splits)
      (metis fst_conv)
  have "resolve_in P its name info w = ((True, i), w') \<Longrightarrow> event_name i \<noteq> None" for its name
    by (induction its arbitrary: info w) (auto dest: fill split: option.splits if_splits prod.splits)
  then show "ubench_event_resolve P event info w = ((True, i), w') \<Longrightarrow> event_name i \<noteq> None"
    by (auto simp: ubench_event_resolve_def split: option.splits)
qed

lemma add_event_copies:
  assumes run: "add_event P name c s = Done r"
  shows "copied P (names_allocated s) 1 r"
proof -
  obtain event s1 where e1: "GetStringUTFChars P name s = (event, s1)" by (metis prod.exhaust)
  obtain x where x: "buf_get (used_events c) (used_events_count c) = Done x"
    using run by (auto simp: add_event_def e1 obind_Done_iff)
  obtain ok info s2 where e2: "call_ext (ubench_event_resolve P event x) s1 = ((ok, info), s2)"
    by (metis prod.exhaust)
  have s2: "names_allocated s2 = names_allocated s"
    using GetStringUTFChars_result(6) [OF e1] call_ext_borrowed [OF e2] by simp
  have "memory_suffices P \<Longrightarrow> ok \<Longrightarrow> event_name info \<noteq> None"
    using resolve_copies_name [of P event x "world s1" info "world s2"] call_ext_result_world [OF e2] by simp
  with run s2 show ?thesis
    by (auto simp: add_event_def e1 x e2 obind_Done_iff split: if_splits prod.splits option.splits
      dest!: do_throw_done)
qed

lemma add_events_copies:
  "add_events P names c s = Done r \<Longrightarrow> copied P (names_allocated s) (int (length names)) r"
proof (induction names arbitrary: c s)
  case (Cons name names)
  obtain ok c1 s1 where one: "add_event P name c s = Done (ok, c1, s1)"
    and rest: "(if \<not> ok then Done (False, c1, s1) else add_events P names c1 s1) = Done r"
    using Cons.prems by (auto simp: obind_Done_iff)
  from add_event_copies [OF one] rest Cons.IH [of c1 s1] show ?case
    by (cases r; cases ok) auto
qed auto

lemma papi_failure_copies: "papi_failure P accessible rc f c s = Done r \<Longrightarrow> copied P (names_allocated s) 0 r"
  by (auto simp: papi_failure_def obind_Done_iff dest!: do_papi_error_throw_done)

lemma set_options_copies: "set_options P accessible options c s = Done r \<Longrightarrow> copied P (names_allocated s) 0 r"
proof (induction options arbitrary: s)
  case (Cons x xs)
  obtain rc s1 where e: "call_ext (PAPI_set_opt_inherit_all P (papi_eventset c)) s = (rc, s1)"
    by (metis prod.exhaust)
  have "names_allocated s1 = names_allocated s" using call_ext_borrowed [OF e] by simp
  then show ?case
    using Cons.IH [of s1] Cons.IH [of s] Cons.prems papi_failure_copies [of P accessible rc _ c s1 r]
    by (auto simp: e split: if_splits)
qed auto

lemma add_papi_events_copies: "add_papi_events P accessible codes c s = Done r \<Longrightarrow> copied P (names_allocated s) 0 r"
proof (induction codes arbitrary: s)
  case (Cons x xs)
  obtain rc s1 where e: "call_ext (PAPI_add_event P (papi_eventset c) x) s = (rc, s1)"
    by (metis prod.exhaust)
  have "names_allocated s1 = names_allocated s" using call_ext_borrowed [OF e] by simp
  then show ?case
    using Cons.IH [of s1] Cons.IH [of s] Cons.prems papi_failure_copies [of P accessible rc _ c s1 r]
    by (auto simp: e split: if_splits)
qed auto

lemma setup_papi_copies:
  assumes run: "setup_papi P accessible options c s = Done r"
  shows "copied P (names_allocated s) 0 r"
proof -
  obtain rc h s1 where e1: "call_ext (PAPI_create_eventset P (papi_eventset c)) s = ((rc, h), s1)"
    by (metis prod.exhaust)
  obtain rc' s2 where e2: "call_ext (PAPI_assign_eventset_component P h (papi_component c)) s1 = (rc', s2)"
    by (metis prod.exhaust)
  have same: "names_allocated s1 = names_allocated s" "names_allocated s2 = names_allocated s"
    using call_ext_borrowed [OF e1] call_ext_borrowed [OF e2] by simp_all
  let ?c = "c\<lparr>papi_eventset := h\<rparr>"
  consider (create) "papi_failure P accessible rc ''PAPI_create_eventset'' ?c s1 = Done r"
    | (assign) "papi_failure P accessible rc' ''PAPI_assign_eventset_component'' ?c s2 = Done r"
    | (add) ok c2 s3 where "set_options P accessible options ?c s2 = Done (ok, c2, s3)"
      "(if \<not> ok then Done (False, c2, s3)
        else add_papi_events P accessible (used_papi_events c2) c2 s3) = Done r"
    using run by (auto simp: setup_papi_def e1 e2 Let_def obind_Done_iff split: if_splits)
  then show ?thesis
  proof cases
    case create
    from papi_failure_copies [OF this] show ?thesis by (simp only: same)
  next
    case assign
    from papi_failure_copies [OF this] show ?thesis by (simp only: same)
  next
    case add
    from set_options_copies [OF add(1)] add(2) show ?thesis
      using add_papi_events_copies [of P accessible "used_papi_events c2" c2 s3 r]
      by (cases ok; cases r) (auto simp: same)
  qed
qed

lemma finish_setup_copies:
  assumes run: "finish_setup P options c s = Done r"
  shows "copied P (names_allocated s) 0 r"
proof (cases "HAS_PAPI P")
  case False
  with run show ?thesis by (auto simp: finish_setup_def)
next
  case True
  obtain acc s1 where e: "GetIntArrayElements P options s = (acc, s1)" by (metis prod.exhaust)
  obtain ok c' s2 where part: "(if uses_backend (used_backends c) UBENCH_EVENT_BACKEND_PAPI
      then setup_papi P acc options c s1 else Done (True, c, s1)) = Done (ok, c', s2)"
    and r: "r = (ok, c', if ok then ReleaseIntArrayElements acc s2 else s2)"
    using run True by (auto simp: finish_setup_def e obind_Done_iff)
  have "copied P (names_allocated s1) 0 (ok, c', s2)"
    using part by (auto split: if_splits dest: setup_papi_copies)
  then show ?thesis using GetIntArrayElements_result(6) [OF e] by (simp add: r)
qed

lemma setup_eventset_copies:
  assumes run: "setup_eventset P m names options c0 s = Done r"
  shows "copied P (names_allocated s) (int (length names)) r"
proof -
  obtain ok1 s1 where e1: "call_ext (malloc_ok P) s = (ok1, s1)" by (metis prod.exhaust)
  obtain ok2 s2 where e2: "call_ext (malloc_ok P) (count_blocks 1 s1) = (ok2, s2)" by (metis prod.exhaust)
  have same: "names_allocated s1 = names_allocated s" "names_allocated s2 = names_allocated s"
    using call_ext_borrowed [OF e1] call_ext_borrowed [OF e2] by simp_all
  show ?thesis
  proof (cases "ok1 \<and> ok2")
    case False
    with run same show ?thesis
      by (auto simp: setup_eventset_def e1 e2 THROW_OOM_def obind_Done_iff split: if_splits dest!: do_throw_done)
  next
    case True
    obtain ok c s3 where
      add: "add_events P names (cleared_config P m (length names) c0) (count_blocks 1 s2) = Done (ok, c, s3)"
      and rest: "(if \<not> ok then Done (False, c, s3) else finish_setup P options c s3) = Done r"
      using run True by (auto simp: setup_eventset_def e1 e2 obind_Done_iff)
    from add_events_copies [OF add] rest show ?thesis
      using finish_setup_copies [of P options c s3 r] by (cases ok; cases r) (auto simp: same)
  qed
qed

lemma createEventSet_copies:
  assumes run: "Measurement_createEventSet P m names options s = Done (j, s')"
  shows "copied P (names_allocated s) (int (length names)) (j \<noteq> - 1, x, s')"
  using run
proof (cases rule: createEventSet_ends)
  case refused
  then show ?thesis using do_throw_done [OF refused(2)] by simp
next
  case none
  then show ?thesis using allocate_slot_done [OF none(2)] by simp
next
  case (slot k s1 c0 ok c s2)
  have "copied P (names_allocated s) (int (length names)) (ok, c, s2)"
    using setup_eventset_copies [OF slot(2)] allocate_slot_done [OF slot(1)] by simp
  then show ?thesis using store_slot_done [OF slot(3)] slot(4) by auto
qed

section \<open>Attaching\<close>

lemma attach_failure_done:
  assumes inv: "agent_inv P s" and j: "slot_of s j \<noteq> None" and run: "attach_failure P j throw s = Done (r, s')"
    and throw: "\<And>s1 s2. throw s1 = Done s2 \<Longrightarrow> borrowed s2 = borrowed s1 \<and> allocated s2 = allocated s1 \<and>
      names_allocated s2 = names_allocated s1 \<and> pending_exception s2 = Some message"
  shows "r = - 1 \<and> borrowed s' = borrowed s \<and> allocated s' = allocated s - 2 \<and>
    names_allocated s' = names_allocated s \<and> pending_exception s' = Some message"
  using run j
  by (auto simp: attach_failure_def obind_Done_iff Measurement_destroyEventSet_def is_valid_id_eq [OF inv]
      dest!: store_slot_done throw)

text \<open>
  What an attaching method does to the accounts: what the creation did, and when it destroys the event
  set again, its two blocks are freed.
\<close>

definition settled :: "c_int \<Rightarrow> 'w agent \<Rightarrow> c_int \<Rightarrow> 'w agent \<Rightarrow> bool" where
  "settled j s1 r s' \<longleftrightarrow> borrowed s' = borrowed s1 \<and> names_allocated s' = names_allocated s1 \<and>
    (r = j \<and> pending_exception s' = pending_exception s1 \<and> allocated s' = allocated s1 \<or>
     j \<noteq> - 1 \<and> r = - 1 \<and> allocated s' = allocated s1 - 2 \<and>
       (\<exists>message. pending_exception s' = Some message \<and> message \<noteq> MIXED_COMPONENTS))"

lemma papi_attach_error:
  "do_papi_error_throw P rc ''PAPI_attach'' s1 = Done s2 \<Longrightarrow> borrowed s2 = borrowed s1 \<and>
    allocated s2 = allocated s1 \<and> names_allocated s2 = names_allocated s1 \<and>
    pending_exception s2 = Some (''PAPI_attach failed: '' @ PAPI_strerror P rc @ ''.'')"
  by (auto dest!: do_papi_error_throw_done)

lemma settled_failure:
  assumes "agent_inv P s2" and "slot_of s2 j \<noteq> None" and "j \<noteq> - 1"
    and "attach_failure P j throw s2 = Done (r, s')"
    and "\<And>s1 s2. throw s1 = Done s2 \<Longrightarrow> borrowed s2 = borrowed s1 \<and> allocated s2 = allocated s1 \<and>
      names_allocated s2 = names_allocated s1 \<and> pending_exception s2 = Some message"
    and "message \<noteq> MIXED_COMPONENTS"
    and "borrowed s2 = borrowed s1 \<and> allocated s2 = allocated s1 \<and> names_allocated s2 = names_allocated s1"
  shows "settled j s1 r s'"
  using attach_failure_done [OF assms(1,2,4,5)] assms(3,6,7) by (auto simp: settled_def)

lemma attach_call_settled:
  assumes inv: "agent_inv P s2" and j: "slot_of s2 j \<noteq> None" "j \<noteq> - 1"
    and same: "borrowed s2 = borrowed s1 \<and> allocated s2 = allocated s1 \<and> names_allocated s2 = names_allocated s1"
      "pending_exception s2 = pending_exception s1"
    and run: "(case call_ext (PAPI_attach P h n) s2 of (rc, s3) \<Rightarrow>
      if rc \<noteq> PAPI_OK P then attach_failure P j (do_papi_error_throw P rc ''PAPI_attach'') s3
      else Done (j, s3)) = Done (r, s')"
  shows "settled j s1 r s'"
proof -
  obtain rc s3 where call: "call_ext (PAPI_attach P h n) s2 = (rc, s3)" by (metis prod.exhaust)
  have u: "unchanged s2 s3" using call by (rule call_ext_unchanged)
  have s3: "borrowed s3 = borrowed s1 \<and> allocated s3 = allocated s1 \<and> names_allocated s3 = names_allocated s1"
    "pending_exception s3 = pending_exception s1"
    using same call_ext_borrowed [OF call] call_ext_pending [OF call] by simp_all
  show ?thesis
  proof (cases "rc = PAPI_OK P")
    case True
    with run call s3 show ?thesis by (simp add: settled_def)
  next
    case False
    then have fail: "attach_failure P j (do_papi_error_throw P rc ''PAPI_attach'') s3 = Done (r, s')"
      using run call by simp
    have "slot_of s3 j \<noteq> None" using j(1) unchanged_slots [OF u] by (simp add: slot_of_def split: if_splits)
    then show ?thesis
      using unchanged_inv [OF u inv] j(2) fail papi_attach_error s3(1)
      by (intro settled_failure [of P s3 j _ r s']) (auto simp: MIXED_COMPONENTS_def)
  qed
qed

lemma create_attached_settled:
  assumes jvm: "jvm_delivers P" and inv: "agent_inv P s" and room: "length (slots s) < 2147483647"
    and run: "create_attached P thread m names options s = Done (r, s')"
  shows "\<exists>j s1. Measurement_createEventSet P m names options s = Done (j, s1) \<and> settled j s1 r s'"
proof -
  obtain j s1 where create: "Measurement_createEventSet P m names options s = Done (j, s1)"
    using createEventSet_created [OF jvm inv room, of m names options] by (auto simp: returns_iff)
  have "settled j s1 r s'"
  proof (cases "HAS_PAPI P")
    case False
    then show ?thesis using run create by (simp add: create_attached_plain settled_def)
  next
    case papi: True
    have j: "j \<noteq> - 1"
      using create_attached_overruns [of P m names options s thread] run create papi
      by (auto simp: attach_overruns_def)
    obtain c where c: "slot_of s1 j = Some c" and inv1: "agent_inv P s1"
      using created_slot [OF jvm inv room create] j by blast
    obtain e where e: "get_slot s1 j = Done e" "config e = c" using get_slot_eq [OF c] by blast
    show ?thesis
    proof (cases "uses_backend (used_backends c) UBENCH_EVENT_BACKEND_PAPI")
      case False
      then show ?thesis
        using run papi e create
        by (cases thread) (auto simp: Measurement_createAttachedEventSetWithJavaThread_def
          Measurement_createAttachedEventSetWithNativeThread_def settled_def)
    next
      case uses: True
      show ?thesis
      proof (cases thread)
        case (Native_thread n)
        then show ?thesis
          using run papi e create uses c
          by (intro attach_call_settled [OF inv1 _ j])
             (simp_all add: Measurement_createAttachedEventSetWithNativeThread_def)
      next
        case (Java_thread n)
        let ?n = "case registry_abs (agent_registry s1) n of None \<Rightarrow> UBENCH_THREAD_ID_INVALID | Some n \<Rightarrow> n"
        obtain reg where reg: "ubench_threads_get_native_id P (agent_registry s1) n = Done (?n, reg)"
          "agent_inv P (s1\<lparr>agent_registry := reg\<rparr>)" "slot_map (s1\<lparr>agent_registry := reg\<rparr>) = slot_map s1"
          "get_slot (s1\<lparr>agent_registry := reg\<rparr>) j = Done e"
          by (rule registry_lookup [OF inv1 c e(1)])
        have slot: "slot_of (s1\<lparr>agent_registry := reg\<rparr>) j \<noteq> None"
          using c reg(3) by (simp add: slot_of_def split: if_splits)
        show ?thesis
        proof (cases "?n = UBENCH_THREAD_ID_INVALID")
          case True
          then have "attach_failure P j (do_throw P ''Unknown thread (not registered with PAPI).'')
              (s1\<lparr>agent_registry := reg\<rparr>) = Done (r, s')"
            using run papi e create uses Java_thread reg(1)
            by (simp add: Measurement_createAttachedEventSetWithJavaThread_def Let_def)
          then show ?thesis
            by (rule settled_failure [OF reg(2) slot j]) (auto simp: MIXED_COMPONENTS_def dest: do_throw_done)
        next
          case False
          then show ?thesis
            using run papi e create uses Java_thread reg(1,4)
            by (intro attach_call_settled [OF reg(2) slot j])
               (simp_all add: Measurement_createAttachedEventSetWithJavaThread_def Let_def)
        qed
      qed
    qed
  qed
  with create show ?thesis by blast
qed

text \<open>The accounts of the two kinds of creation.\<close>

fun event_count :: "call \<Rightarrow> int" where
  "event_count (Create m names options) = int (length names)"
| "event_count (Attach thread m names options) = int (length names)"
| "event_count c = 0"

definition names_kept :: "'w platform \<Rightarrow> call \<Rightarrow> answer \<Rightarrow> 'w agent \<Rightarrow> 'w agent \<Rightarrow> bool" where
  "names_kept P c r s s' \<longleftrightarrow> names_allocated s \<le> names_allocated s' \<and>
    names_allocated s' \<le> names_allocated s + event_count c \<and>
    ((\<exists>j. r = Created j) \<and> memory_suffices P \<longrightarrow> names_allocated s' = names_allocated s + event_count c)"

lemma create_done:
  assumes jvm: "jvm_delivers P" and inv: "agent_inv P s" and room: "length (slots s) < 2147483647"
    and run: "perform P (Create m names options) s = Done (r, s')"
    and before: "pending_exception s = None"
  shows "borrowed s' = borrowed s + kept (Create m names options) r \<and>
    allocated s' = allocated s + kept_blocks (Create m names options) r \<and>
    names_kept P (Create m names options) r s s'"
proof -
  obtain j where create: "Measurement_createEventSet P m names options s = Done (j, s')"
    and r: "r = fst (answered (Created j) s')"
    using run by (auto simp: obind_Done_iff answered_def)
  have "\<exists>i. r = Created i \<Longrightarrow> j \<noteq> - 1"
    using createEventSet_throws [OF _ inv room jvm, of m names options s'] create r
    by (auto simp: answered_def split: option.splits)
  then show ?thesis
    using createEventSet_balanced [OF jvm create before] createEventSet_copies [OF create] r
    by (auto simp: names_kept_def)
qed

lemma attach_done:
  assumes jvm: "jvm_delivers P" and inv: "agent_inv P s" and room: "length (slots s) < 2147483647"
    and run: "perform P (Attach thread m names options) s = Done (r, s')"
    and before: "pending_exception s = None"
  shows "borrowed s' = borrowed s + kept (Attach thread m names options) r \<and>
    allocated s' = allocated s + kept_blocks (Attach thread m names options) r \<and>
    names_kept P (Attach thread m names options) r s s'"
proof -
  obtain i where attach: "create_attached P thread m names options s = Done (i, s')"
    and r: "r = fst (answered (Created i) s')"
    using run by (auto simp: obind_Done_iff answered_def)
  obtain j s1 where create: "Measurement_createEventSet P m names options s = Done (j, s1)"
    and settled: "settled j s1 i s'"
    using create_attached_settled [OF jvm inv room attach] by blast
  let ?q = "fst (answered (Created j) s1)"
  have one: "perform P (Create m names options) s = Done (?q, s1)"
    using create by (simp add: answered_def)
  note made = create_done [OF jvm inv room one before]
  consider (same) "r = ?q" "borrowed s' = borrowed s1" "allocated s' = allocated s1"
      "names_allocated s' = names_allocated s1"
    | (undone) message where "?q = Created j" "r = Thrown message" "message \<noteq> MIXED_COMPONENTS"
      "borrowed s' = borrowed s1" "allocated s' = allocated s1 - 2" "names_allocated s' = names_allocated s1"
    using settled creation_throws_nothing [OF create] before
    by (auto simp: settled_def r answered_def)
  then show ?thesis
  proof cases
    case same
    then show ?thesis using made by (simp add: names_kept_def)
  next
    case undone
    then show ?thesis using made by (simp add: names_kept_def)
  qed
qed

section \<open>Recording and results\<close>

lemma on_slot_done:
  "on_slot f i s = Done s' \<Longrightarrow>
    borrowed s' = borrowed s \<and> allocated s' = allocated s \<and>
    names_allocated s' = names_allocated s \<and> pending_exception s' = pending_exception s"
  by (auto simp: on_slot_def obind_Done_iff dest!: store_slot_done)

lemma for_ids_done:
  "for_ids P f js s = Done s' \<Longrightarrow> pending_exception s = None \<Longrightarrow>
    borrowed s' = borrowed s - (if pending_exception s' = None then 1 else 0) \<and>
    allocated s' = allocated s \<and> names_allocated s' = names_allocated s"
proof (induction js arbitrary: s)
  case (Cons j js)
  from Cons.prems show ?case
    by (auto simp: obind_Done_iff split: if_splits dest!: do_throw_done on_slot_done Cons.IH)
qed auto

lemma on_event_sets_done:
  assumes jvm: "jvm_delivers P" and run: "on_event_sets P f js s = Done s'"
    and before: "pending_exception s = None"
  shows "borrowed s' = borrowed s + (if fst (answered Finished s') = Finished then 0 else 1) \<and>
    allocated s' = allocated s \<and> names_allocated s' = names_allocated s"
proof (cases "js = []")
  case True
  with run before show ?thesis by (simp add: on_event_sets_def answered_def)
next
  case False
  obtain acc s1 where e: "GetIntArrayElements P js s = (acc, s1)" by (metis prod.exhaust)
  have acc using GetIntArrayElements_result(1) [OF e] jvm by (simp add: jvm_delivers_def)
  with run False have "for_ids P f js s1 = Done s'"
    by (simp add: on_event_sets_def e)
  from for_ids_done [OF this] show ?thesis
    using GetIntArrayElements_result(3,4,5,6) [OF e] \<open>acc\<close> before
    by (auto simp: answered_def split: option.splits)
qed

text \<open>A method that leaves the accounts alone, step by step.\<close>

definition accounts :: "'w agent \<Rightarrow> int \<times> int \<times> int" where
  "accounts s = (borrowed s, allocated s, names_allocated s)"

definition keeps :: "int \<times> int \<times> int \<Rightarrow> ('a \<times> 'w agent) outcome \<Rightarrow> bool" where
  "keeps b m \<longleftrightarrow> (\<forall>r s. m = Done (r, s) \<longrightarrow> accounts s = b)"

lemma keeps_Done: "accounts s = b \<Longrightarrow> keeps b (Done (r, s))"
  and keeps_Fault: "keeps b (Fault e)"
  and keeps_if: "(c \<Longrightarrow> keeps b m1) \<Longrightarrow> (\<not> c \<Longrightarrow> keeps b m2) \<Longrightarrow> keeps b (if c then m1 else m2)"
  and keeps_bind: "(\<And>x. m = Done x \<Longrightarrow> keeps b (f x)) \<Longrightarrow> keeps b (obind m f)"
  by (auto simp: keeps_def obind_Done_iff)

lemma keeps_ext:
  "accounts s = b \<Longrightarrow> (\<And>r s1. accounts s1 = b \<Longrightarrow> keeps b (f r s1)) \<Longrightarrow>
    keeps b (case call_ext g s of (r, s1) \<Rightarrow> f r s1)"
  by (cases "call_ext g s") (auto simp: accounts_def dest: call_ext_borrowed)

lemma keeps_call:
  "keeps b m \<Longrightarrow> (\<And>r s. accounts s = b \<Longrightarrow> keeps b (f r s)) \<Longrightarrow> keeps b (obind m (\<lambda>(r, s). f r s))"
  by (auto simp: keeps_def obind_Done_iff)

lemma keeps_extra:
  assumes "accounts s = b" and "\<And>names s1. accounts s1 = b \<Longrightarrow> keeps b (f names s1)"
  shows "keeps b (case (case extra of [] \<Rightarrow> ([], s)
    | name # _ \<Rightarrow> (case call_ext (jni_NewStringUTF P (Some name)) s of (n, s') \<Rightarrow> ([n], s'))) of
    (names, s1) \<Rightarrow> f names s1)"
  using assms by (cases extra) (auto simp: accounts_def split: prod.split dest!: call_ext_borrowed)

lemmas keeps_intros = keeps_Done keeps_Fault keeps_if keeps_call keeps_bind keeps_ext keeps_extra

lemma names_of_events_keeps: "accounts s = b \<Longrightarrow> keeps b (names_of_events P es i n s)"
proof (induction n arbitrary: i s)
  case (Suc n)
  show ?case
    unfolding names_of_events.simps by (intro keeps_intros Suc)
qed (simp add: keeps_def)

lemma build_results_keeps: "accounts s = b \<Longrightarrow> keeps b (build_results P extra rows c s)"
  unfolding build_results_def by (intro keeps_intros names_of_events_keeps)

lemma results_done:
  assumes "with_valid_slot P j (build_results P extra rows) s = Done (r, s')"
  shows "borrowed s' = borrowed s \<and> allocated s' = allocated s \<and> names_allocated s' = names_allocated s"
proof -
  have "keeps (accounts s) (with_valid_slot P j (build_results P extra rows) s)"
    unfolding with_valid_slot_def
    by (intro keeps_intros build_results_keeps refl) (auto simp: accounts_def dest: do_throw_done)
  with assms show ?thesis by (simp add: keeps_def accounts_def)
qed

lemma perform_done:
  assumes jvm: "jvm_delivers P" and inv: "agent_inv P s" and room: "length (slots s) < 2147483647"
    and run: "perform P c s = Done (r, s')" and before: "pending_exception s = None"
  shows "borrowed s' = borrowed s + kept c r \<and> allocated s' = allocated s + kept_blocks c r \<and>
    names_kept P c r s s'"
proof (cases c)
  case (Create m names options)
  with create_done [OF jvm inv room _ before] run show ?thesis by metis
next
  case (Attach thread m names options)
  with attach_done [OF jvm inv room _ before] run show ?thesis by metis
next
  case (Destroy j)
  with run before show ?thesis
    by (auto simp: obind_Done_iff answered_def Measurement_destroyEventSet_def names_kept_def split: if_splits
        dest!: do_throw_done store_slot_done)
next
  case (Rows_of j)
  with run show ?thesis
    by (auto simp: obind_Done_iff answered_def Measurement_getResults_def names_kept_def dest!: results_done)
next
  case (Raw_rows_of j)
  with run show ?thesis
    by (auto simp: obind_Done_iff answered_def Measurement_getRawResults_def names_kept_def dest!: results_done)
qed (use run on_event_sets_done [OF jvm _ before] in
  \<open>auto simp: obind_Done_iff answered_def Measurement_start_def Measurement_stop_def
    Measurement_sample_def Measurement_reset_def names_kept_def\<close>)

section \<open>The account of a run\<close>

text \<open>The names of the events of an event set that a call made.\<close>

definition created_names :: "call \<Rightarrow> answer \<Rightarrow> int" where
  "created_names c r = (case r of Created j \<Rightarrow> event_count c | _ \<Rightarrow> 0)"

lemma enter_accounts [simp]:
  "borrowed (enter x s) = borrowed s" "allocated (enter x s) = allocated s"
  "names_allocated (enter x s) = names_allocated s"
  by (cases x; simp)+

lemma run_calls_account:
  assumes jvm: "jvm_delivers P" "jvm_creates_results P"
  shows "agent_inv P s \<Longrightarrow> sound_registries calls \<Longrightarrow> length (slots s) + length calls < 2147483648 \<Longrightarrow>
    run_calls P calls s = Done (rs, s') \<Longrightarrow>
    borrowed s' = borrowed s + sum_list (map2 kept (map call_of calls) rs) \<and>
    allocated s' = allocated s + sum_list (map2 kept_blocks (map call_of calls) rs) \<and>
    names_allocated s' \<le> names_allocated s + sum_list (map (event_count \<circ> call_of) calls) \<and>
    (memory_suffices P \<longrightarrow> names_allocated s +
      sum_list (map2 created_names (map call_of calls) rs) \<le> names_allocated s')"
proof (induction calls arbitrary: s rs)
  case (Cons x calls)
  have room: "length (slots s) < 2147483647" using Cons.prems(3) by simp
  obtain r s1 rs1 where one: "perform P (call_of x) (enter x s) = Done (r, s1)"
    and rest: "run_calls P calls s1 = Done (rs1, s')" and rs: "rs = r # rs1"
    using Cons.prems(4) by (auto simp: obind_Done_iff)
  have s1: "agent_inv P s1" "length (slots s1) \<le> length (slots s) + 1"
    using step_refines [OF jvm Cons.prems(1,2) room] one by (auto split: if_splits)
  note enter = enter_state [OF Cons.prems(1,2)]
  have account: "borrowed s1 = borrowed s + kept (call_of x) r" "allocated s1 = allocated s + kept_blocks (call_of x) r"
    and names: "names_kept P (call_of x) r (enter x s) s1"
    using perform_done [OF jvm(1) enter(1) _ one enter(2)] room by simp_all
  have "names_allocated s1 \<le> names_allocated s + event_count (call_of x)"
    "memory_suffices P \<longrightarrow> names_allocated s + created_names (call_of x) r \<le> names_allocated s1"
    using names by (auto simp: names_kept_def created_names_def split: answer.splits)
  with account show ?case
    using Cons.IH [OF s1(1) enter(3) _ rest] Cons.prems(3) s1(2) by (cases "memory_suffices P") (simp_all add: rs)
qed simp

text \<open>A run without a call that can go wrong returns.\<close>

lemma explained_returns:
  assumes "explained P s calls" and safe: "\<And>x t. x \<in> set calls \<Longrightarrow> \<not> goes_wrong P (call_of x) t"
  obtains rs s' where "run_calls P calls s = Done (rs, s')" "length rs = length calls"
    "spec_trace (table_of s) (zip (map call_of calls) rs) (table_of s')"
proof (cases "run_calls P calls s")
  case (Done y)
  then show thesis using assms(1) that by (cases y) (simp add: explained_def)
next
  case (Fault e)
  then obtain before x after s1 where "calls = before @ x # after" "goes_wrong P (call_of x) (enter x s1)"
    using assms(1) by (simp only: explained_def outcome.case) metis
  then show thesis using safe [of x] by simp
qed (use assms(1) in \<open>simp_all add: explained_def\<close>)

text \<open>
  C7: The account with the virtual machine is exact for every sequence of fewer than \<open>2^31\<close> calls of
  the native methods on event sets from the start. When it returns, the strings and arrays that were
  not released are one for every call of \<open>start\<close>, \<open>stop\<close>, \<open>sample\<close> or \<open>reset\<close> that threw and one for
  every creation, attaching or not, refused for its PAPI components; every other call, failed or not,
  gives back what it borrowed. It can only fail to return in an access outside an array, by a \<open>stop\<close>
  or, on a build with PAPI, by an attaching creation.
\<close>

theorem borrowed_account:
  assumes "jvm_delivers P" and "jvm_creates_results P" and "sound_registries calls"
    and "length calls < 2147483648"
  shows "case run_calls P calls (initial_agent w) of
      Done (rs, s') \<Rightarrow> length rs = length calls \<and>
        borrowed s' = sum_list (map2 kept (map call_of calls) rs)
    | Fault e \<Rightarrow> e = OutOfBounds \<and> ((\<exists>js. Stop js \<in> call_of ` set calls) \<or>
        HAS_PAPI P \<and> (\<exists>thread m names options. Attach thread m names options \<in> call_of ` set calls))
    | Exit \<Rightarrow> False | Hang \<Rightarrow> False"
proof -
  have wrong: "(\<exists>js. c = Stop js) \<or> HAS_PAPI P \<and> (\<exists>thread m names options. c = Attach thread m names options)"
    if "goes_wrong P c s" for c s
    using that by (cases c) (auto simp: attach_overruns_def)
  have run: "explained P (initial_agent w) calls"
    using assms(4) by (intro run_explained [OF assms(1,2) agent_inv_initial assms(3)]) simp
  show ?thesis
  proof (cases "run_calls P calls (initial_agent w)")
    case (Done x)
    obtain rs s' where x: "x = (rs, s')" by (cases x)
    have "borrowed (initial_agent w) = 0"
      by (simp add: initial_agent_def)
    then show ?thesis
      using run run_calls_account [OF assms(1,2) agent_inv_initial assms(3) _ Done [unfolded x]] assms(4)
      by (simp add: Done x explained_def)
  next
    case (Fault e)
    then obtain before x after s1 where e: "e = OutOfBounds" "calls = before @ x # after"
      "goes_wrong P (call_of x) (enter x s1)"
      using run by (auto simp: explained_def)
    then have "call_of x \<in> call_of ` set calls" by simp
    with wrong [OF e(3)] show ?thesis
      unfolding Fault e(1) outcome.case by metis
  qed (use run in \<open>simp_all add: explained_def\<close>)
qed

theorem borrowed_account_witness:
  "\<exists>rs s'. run_calls sample_platform (map entrance [Reset [7], Rows_of 0, Sample 1 [7]]) (initial_agent 0) =
    Done (rs, s') \<and> borrowed s' = 2"
proof -
  let ?calls = "map entrance [Reset [7], Rows_of 0, Sample 1 [7]]"
  have "explained sample_platform (initial_agent 0) ?calls"
    by (rule run_explained [OF sample_jvm sample_creates_results agent_inv_initial entrance_simps(2)]) simp
  then obtain rs s' where "run_calls sample_platform ?calls (initial_agent 0) = Done (rs, s')"
    and rs: "length rs = length ?calls" "spec_trace Map.empty (zip (map call_of ?calls) rs) (table_of s')"
    by (rule explained_returns) auto
  moreover have "rs = [invalid_id, invalid_id, invalid_id]"
    using rs by (auto simp: spec_trace_simps spec_recording_def length_Suc_conv)
  ultimately have run: "run_calls sample_platform ?calls (initial_agent 0) =
      Done ([invalid_id, invalid_id, invalid_id], s')"
    by simp
  have "borrowed s' = 2"
    using borrowed_account [OF sample_jvm sample_creates_results entrance_simps(2), of
        "[Reset [7], Rows_of 0, Sample 1 [7]]" 0]
    unfolding run by (simp add: invalid_id_def)
  with run show ?thesis by blast
qed

section \<open>The blocks of the event sets\<close>

text \<open>
  In the specification: the change of the number of identifiers in use is what the calls leave
  allocated, except for the creations refused for their PAPI components.
\<close>

lemma spec_each_dom: "spec_each f js a = Some (ok, b) \<Longrightarrow> dom b = dom a"
proof (induction js arbitrary: a)
  case (Cons j js)
  show ?case
  proof (cases "a j")
    case None
    with Cons.prems show ?thesis by simp
  next
    case (Some x)
    with Cons.prems obtain y where "spec_each f js (a(j \<mapsto> y)) = Some (ok, b)"
      by (auto split: option.splits)
    moreover have "j \<in> dom a"
      using Some by blast
    ultimately show ?thesis
      using Cons.IH by (auto simp: insert_absorb simp del: fun_upd_apply)
  qed
qed simp

lemma invalid_id_not_mixed [simp]:
  "invalid_id \<noteq> Thrown MIXED_COMPONENTS" "Thrown MIXED_COMPONENTS \<noteq> invalid_id"
  by (simp_all add: invalid_id_def MIXED_COMPONENTS_def)

lemma invalid_id_not_finished [simp]: "invalid_id \<noteq> Finished"
  by (simp add: invalid_id_def)

lemma spec_recording_blocks:
  "spec_recording (spec_each f js a) r b \<Longrightarrow> dom b = dom a \<and> r \<noteq> Thrown MIXED_COMPONENTS"
  by (auto simp: spec_recording_def split: option.splits if_splits dest!: spec_each_dom)

lemma spec_call_blocks:
  assumes "spec_call c a r b"
  shows "2 * int (card (dom b)) + (if r = Thrown MIXED_COMPONENTS then 2 else 0) =
    2 * int (card (dom a)) + kept_blocks c r"
proof (cases c)
  case (Create m names options)
  then show ?thesis
    using assms by (auto simp: spec_created_def domIff split: if_splits)
next
  case (Attach thread m names options)
  then show ?thesis
    using assms by (auto simp: spec_created_def domIff split: if_splits)
next
  case (Destroy j)
  show ?thesis
  proof (cases "a j")
    case None
    then have "a(j := None) = a" by auto
    with None assms Destroy show ?thesis
      by auto
  next
    case (Some x)
    then have "j \<in> dom a" by blast
    then have "0 < card (dom a)" by (auto simp: card_gt_0_iff)
    with Some \<open>j \<in> dom a\<close> assms Destroy show ?thesis by simp
  qed
qed (use assms in \<open>auto dest!: spec_recording_blocks split: option.splits\<close>)

lemma spec_trace_blocks:
  "spec_trace a xs b \<Longrightarrow>
    2 * int (card (dom b)) + 2 * int (count_list (map snd xs) (Thrown MIXED_COMPONENTS)) =
    2 * int (card (dom a)) + sum_list (map (\<lambda>(c, r). kept_blocks c r) xs)"
  by (induction rule: spec_trace.induct) (auto dest!: spec_call_blocks split: if_splits)

text \<open>A creation that is refused for its components.\<close>

lemma sample_mixed_creation:
  "\<exists>s1. Measurement_createEventSet sample_platform 1 [''PAPI_TOT_INS'', ''rapl:ENERGY''] []
    (initial_agent (0 :: nat)) = Done (- 1, s1) \<and> pending_exception s1 = Some MIXED_COMPONENTS"
proof -
  let ?P = "sample_platform"
  have P: "HAS_PAPI ?P" "malloc_ok ?P = (\<lambda>w. (True, w))" "jni_GetStringUTFChars ?P = (\<lambda>n w. (Some n, w))"
    "jni_FindClass ?P = (\<lambda>c w. (True, w))"
    by (simp_all add: sample_platform_def)
  show ?thesis
    by (simp add: Measurement_createEventSet_def allocate_slot_def initial_agent_def call_ext_def
        P Let_def setup_eventset_def cleared_config_def indeterminate_slot_def,
      simp add: P add_event_def store_event_def register_papi_event_def borrowing_defs call_ext_def
        backend_defs sample_resolution UBENCH_MAX_PAPI_EVENTS_def do_throw_def store_slot_def
        MIXED_COMPONENTS_def)
qed

lemma sample_mixed_run:
  "\<exists>s'. run_calls sample_platform (map entrance [Create 1 [''PAPI_TOT_INS'', ''rapl:ENERGY''] []]) (initial_agent 0) =
    Done ([Thrown MIXED_COMPONENTS], s')"
  using sample_mixed_creation by (auto simp: answered_def)

text \<open>An event set that is created and destroyed again.\<close>

lemma sample_destroyed_run:
  "\<exists>s'. run_calls sample_platform (map entrance [Create 1 [''SYS:wallclock-time''] [], Destroy 0]) (initial_agent 0) =
    Done ([Created 0, Finished], s') \<and> table_of s' = Map.empty"
proof -
  let ?P = sample_platform and ?c = "Create 1 [''SYS:wallclock-time''] []"
  let ?calls = "map entrance [?c, Destroy 0]"
  have first: "rs = Created 0 # tl rs" if "run_calls ?P (entrance ?c # xs) (initial_agent 0) = Done (rs, s)" for xs rs s
    using that sample_create_call by (auto simp: obind_Done_iff simp del: perform.simps)
  have "explained ?P (initial_agent 0) ?calls"
    by (rule run_explained [OF sample_jvm sample_creates_results agent_inv_initial entrance_simps(2)]) simp
  then obtain rs s' where run: "run_calls ?P ?calls (initial_agent 0) = Done (rs, s')"
    and rs: "length rs = length ?calls" "spec_trace Map.empty (zip (map call_of ?calls) rs) (table_of s')"
    by (rule explained_returns) auto
  have "rs = Created 0 # tl rs" using run first by (simp del: run_calls.simps)
  then have "rs = [Created 0, Finished] \<and> table_of s' = Map.empty"
    using rs by (auto simp: spec_trace_simps spec_created_def length_Suc_conv)
  with run show ?thesis by blast
qed

text \<open>
  C8: After any sequence of fewer than \<open>2^31\<close> calls of the native methods on event sets from the start
  that returns, the blocks of measurements and of event descriptions that are allocated and not freed
  are two for every event set that is alive, and two for every creation refused because its
  PAPI events are of different components: every other error path frees them, and no block
  is freed twice. The copies of the events' names are never freed: however many event sets
  were destroyed, at least one is left for every event of every event set that a call returned, if \<open>malloc\<close>
  never failed, and at most one for every event that a creation asked for.
\<close>

theorem heap_account:
  assumes "jvm_delivers P" and "jvm_creates_results P" and "sound_registries calls"
    and "length calls < 2147483648" and "run_calls P calls (initial_agent w) = Done (rs, s')"
  shows "allocated s' = 2 * int (card {j. slot_of s' j \<noteq> None}) +
      2 * int (count_list rs (Thrown MIXED_COMPONENTS)) \<and>
    names_allocated s' \<le> sum_list (map (event_count \<circ> call_of) calls) \<and>
    (memory_suffices P \<longrightarrow> sum_list (map2 created_names (map call_of calls) rs) \<le> names_allocated s')"
proof -
  let ?cs = "map call_of calls"
  have start: "allocated (initial_agent w) = 0" "names_allocated (initial_agent w) = 0"
    by (simp_all add: initial_agent_def)
  have "explained P (initial_agent w) calls"
    using assms(4) by (intro run_explained [OF assms(1,2) agent_inv_initial assms(3)]) simp
  then have len: "length rs = length ?cs" and trace: "spec_trace Map.empty (zip ?cs rs) (table_of s')"
    using assms(5) by (auto simp: explained_def)
  have "dom (table_of s') = {j. slot_of s' j \<noteq> None}"
    by (auto simp: table_of_def dom_def)
  moreover have "map snd (zip ?cs rs) = rs"
    using len by simp
  moreover note run_calls_account [OF assms(1,2) agent_inv_initial assms(3) _ assms(5)]
  ultimately show ?thesis
    using spec_trace_blocks [OF trace] start assms(4) by simp
qed

theorem heap_account_witness:
  "(\<exists>s'. run_calls sample_platform (map entrance [Create 1 [''PAPI_TOT_INS'', ''rapl:ENERGY''] []]) (initial_agent 0) =
    Done ([Thrown MIXED_COMPONENTS], s') \<and> (\<forall>j. slot_of s' j = None) \<and> allocated s' = 2) \<and>
  (\<exists>s'. run_calls sample_platform (map entrance [Create 1 [''SYS:wallclock-time''] [], Destroy 0]) (initial_agent 0) =
    Done ([Created 0, Finished], s') \<and> allocated s' = 0 \<and> names_allocated s' = 1)"
proof
  let ?calls = "map entrance [Create 1 [''PAPI_TOT_INS'', ''rapl:ENERGY''] []]"
  obtain s' where run: "run_calls sample_platform ?calls (initial_agent 0) = Done ([Thrown MIXED_COMPONENTS], s')"
    using sample_mixed_run ..
  have "explained sample_platform (initial_agent 0) ?calls"
    by (rule run_explained [OF sample_jvm sample_creates_results agent_inv_initial entrance_simps(2)]) simp
  then have "table_of s' = Map.empty"
    unfolding explained_def run by (auto simp: spec_trace_simps spec_created_def)
  then have none: "slot_of s' j = None" for j
    by (simp add: table_of_def fun_eq_iff)
  have "allocated s' = 2"
    using heap_account [OF sample_jvm sample_creates_results entrance_simps(2) _ run] by (simp add: none)
  with run none show "\<exists>s'. run_calls sample_platform ?calls (initial_agent 0) =
    Done ([Thrown MIXED_COMPONENTS], s') \<and> (\<forall>j. slot_of s' j = None) \<and> allocated s' = 2" by blast
next
  let ?calls = "map entrance [Create 1 [''SYS:wallclock-time''] [], Destroy 0]"
  obtain s' where run: "run_calls sample_platform ?calls (initial_agent 0) = Done ([Created 0, Finished], s')"
    and "table_of s' = Map.empty"
    using sample_destroyed_run by blast
  then have none: "slot_of s' j = None" for j
    by (simp add: table_of_def fun_eq_iff)
  have "memory_suffices sample_platform" by (simp add: memory_suffices_def sample_platform_def)
  then have "allocated s' = 0 \<and> names_allocated s' = 1"
    using heap_account [OF sample_jvm sample_creates_results entrance_simps(2) _ run]
    by (simp add: none created_names_def comp_def)
  with run show "\<exists>s'. run_calls sample_platform ?calls (initial_agent 0) =
    Done ([Created 0, Finished], s') \<and> allocated s' = 0 \<and> names_allocated s' = 1" by blast
qed

end
