(* ===== verification/RegistryThreads.thy ===== *)
theory RegistryThreads
  imports ThreadRegistry
begin

text \<open>
  Many threads use the thread map at once. Each operation of \<open>threads.c\<close> on the map is its spin
  loop, its body and its unlock; the model lets threads interleave between any two evaluations of
  the loop condition, and splits the body into reading the shared map and writing the result back,
  so that a lost update would show. The history records the finished bodies in the order of their
  writes.
\<close>

section \<open>The bodies between lock and unlock\<close>

fun registry_body ::
    "('w, 'x) c_platform_scheme \<Rightarrow> registry_op \<Rightarrow> thread_map_t \<Rightarrow> 'w \<Rightarrow>
      (registry_result \<times> thread_map_t \<times> 'w) outcome" where
  "registry_body P (Put j n) m w =
     obind (thread_map_put_java_thread P m j n w) (\<lambda>(r, m', w'). Done (Status r, m', w'))"
| "registry_body P (Remove n) m w =
     obind (thread_map_remove_native_thread m n) (\<lambda>(r, m'). Done (Status r, m', w))"
| "registry_body P (Get j) m w =
     obind (thread_map_native_id m j) (\<lambda>n. Done (NativeId n, m, w))"

lemma registry_body_spec:
  assumes "tm_inv m" and "registry_body P op m w = Done (r, m', w')"
  shows "tm_inv m' \<and> registry_spec (tm_abs m) op r (tm_abs m')"
proof (cases op)
  case (Put j n)
  with assms(2) obtain e where
    e: "thread_map_put_java_thread P m j n w = Done (e, m', w')" "r = Status e"
    by (auto simp: obind_Done_iff)
  show ?thesis
    using tm.put_law [OF assms(1) e(1)] by (simp add: Put e(2))
next
  case (Remove n)
  with assms(2) obtain e where "thread_map_remove_native_thread m n = Done (e, m')" "r = Status e"
    by (auto simp: obind_Done_iff)
  then show ?thesis
    using tm.remove_law [OF assms(1), of n] by (simp add: Remove)
next
  case (Get j)
  with assms show ?thesis
    by (auto simp: thread_map_native_id_spec)
qed

lemma registry_body_returns:
  assumes "tm_inv m" and room: "card (dom (tm_abs m)) < INT_MAX"
  shows "\<exists>r m' w'. registry_body P op m w = Done (r, m', w')"
proof (cases op)
  case (Put j n)
  then show ?thesis
    using tm.put_returns [OF assms, of P j n w] by (auto simp: returns_iff)
next
  case (Remove n)
  then show ?thesis
    using tm.remove_law [OF assms(1), of n] by (auto simp: returns_iff)
next
  case (Get j)
  then show ?thesis
    by (simp add: thread_map_native_id_spec [OF assms(1)])
qed

section \<open>Threads and their steps\<close>

type_synonym client = nat

datatype pc =
    Outside
  | Spinning registry_op
  | Holding registry_op
  | Computing registry_op thread_map_t
  | Releasing

record 'w system =
  shared :: registry
  pcs :: "client \<Rightarrow> pc"
  history :: "(registry_op \<times> registry_result) list"
  environment :: 'w

inductive system_step :: "('w, 'x) c_platform_scheme \<Rightarrow> 'w system \<Rightarrow> 'w system \<Rightarrow> bool"
  for P :: "('w, 'x) c_platform_scheme" where
  call: "pcs s c = Outside \<Longrightarrow>
    system_step P s (s\<lparr>pcs := (pcs s)(c := Spinning op)\<rparr>)"
| spins: "pcs s c = Spinning op \<Longrightarrow>
    ubench_spinlock_attempt P (thread_map_lock (shared s)) = (ends, l) \<Longrightarrow>
    system_step P s (s\<lparr>shared := (shared s)\<lparr>thread_map_lock := l\<rparr>,
      pcs := (pcs s)(c := (if ends then Holding op else Spinning op))\<rparr>)"
| read: "pcs s c = Holding op \<Longrightarrow>
    system_step P s (s\<lparr>pcs := (pcs s)(c := Computing op (thread_map (shared s)))\<rparr>)"
| store: "pcs s c = Computing op m \<Longrightarrow>
    registry_body P op m (environment s) = Done (r, m', w') \<Longrightarrow>
    system_step P s (s\<lparr>shared := (shared s)\<lparr>thread_map := m'\<rparr>,
      pcs := (pcs s)(c := Releasing), history := history s @ [(op, r)], environment := w'\<rparr>)"
| unlock: "pcs s c = Releasing \<Longrightarrow>
    system_step P s (s\<lparr>shared := (shared s)
        \<lparr>thread_map_lock := ubench_spinlock_unlock (thread_map_lock (shared s))\<rparr>,
      pcs := (pcs s)(c := Outside)\<rparr>)"

inductive_cases system_stepE: "system_step P s t"

definition initial_system :: "'w \<Rightarrow> 'w system" where
  "initial_system w =
    \<lparr>shared = initial_registry, pcs = (\<lambda>c. Outside), history = [], environment = w\<rparr>"

inductive reachable :: "('w, 'x) c_platform_scheme \<Rightarrow> 'w system \<Rightarrow> bool"
  for P :: "('w, 'x) c_platform_scheme" where
  start: "reachable P (initial_system w)"
| step: "reachable P s \<Longrightarrow> system_step P s t \<Longrightarrow> reachable P t"

section \<open>The invariant\<close>

fun in_body :: "pc \<Rightarrow> bool" where
  "in_body (Holding op) = True"
| "in_body (Computing op m) = True"
| "in_body Releasing = True"
| "in_body _ = False"

text \<open>A sequential execution of a history on the abstract map.\<close>

fun sequential ::
    "(java_tid_t \<Rightarrow> native_tid_t option) \<Rightarrow> (registry_op \<times> registry_result) list \<Rightarrow>
      (java_tid_t \<Rightarrow> native_tid_t option) \<Rightarrow> bool" where
  "sequential a [] b \<longleftrightarrow> b = a"
| "sequential a ((op, r) # h) b \<longleftrightarrow> (\<exists>a'. registry_spec a op r a' \<and> sequential a' h b)"

lemma sequential_append:
  "sequential a (h @ h') b \<longleftrightarrow> (\<exists>a'. sequential a h a' \<and> sequential a' h' b)"
  by (induction h arbitrary: a) (simp, clarsimp, blast)

text \<open>The clients between their lock and their unlock.\<close>

definition bodies :: "(client \<Rightarrow> pc) \<Rightarrow> client set" where
  "bodies f = {c. in_body (f c)}"

lemma mem_bodies [simp]: "c \<in> bodies f \<longleftrightarrow> in_body (f c)"
  by (simp add: bodies_def)

lemma bodies_upd:
  "bodies (f(c := x)) = (if in_body x then insert c (bodies f) else bodies f - {c})"
  by (auto simp: bodies_def)

definition system_inv :: "('w, 'x) c_platform_scheme \<Rightarrow> 'w system \<Rightarrow> bool" where
  "system_inv P s \<longleftrightarrow>
    spin.holders (thread_map_lock (shared s)) (bodies (pcs s)) \<and>
    (\<forall>c op m. pcs s c = Computing op m \<longrightarrow> m = thread_map (shared s)) \<and>
    tm_inv (thread_map (shared s)) \<and>
    sequential Map.empty (history s) (tm_abs (thread_map (shared s)))"

lemma system_inv_initial: "system_inv P (initial_system w)"
  by (simp add: system_inv_def initial_system_def initial_registry_def spin.holders_def bodies_def
    UBENCH_SPINLOCK_INITIALIZER_def spin_wf_def spin_free_def tm_inv_empty)
     (simp add: empty_thread_map_def tm_abs_def tm_list_def assoc_of_def)

text \<open>Only a client in its body can unlock, and it is then the holder.\<close>

lemma system_step_inv:
  assumes "system_step P s t" and inv: "system_inv P s"
  shows "system_inv P t"
  using assms(1)
proof cases
  case (call c op)
  with inv show ?thesis
    by (auto simp: system_inv_def bodies_upd)
next
  case (spins c op ends l)
  have H: "spin.holders (thread_map_lock (shared s)) (bodies (pcs s))"
    using inv by (simp add: system_inv_def)
  have "spin.holders l (bodies ((pcs s)(c := if ends then Holding op else Spinning op)))"
    using spin.holders_attempt [OF H spins(3), of c] H spins(2) by (auto simp: bodies_upd)
  with inv spins show ?thesis
    by (auto simp: system_inv_def)
next
  case (read c op)
  with inv show ?thesis
    by (auto simp: system_inv_def bodies_upd insert_absorb)
next
  case (store c op m r m' w')
  have m: "m = thread_map (shared s)" "tm_inv m"
    using inv store(2) by (auto simp: system_inv_def)
  have body: "tm_inv m'" "registry_spec (tm_abs m) op r (tm_abs m')"
    using registry_body_spec [OF m(2) store(3)] by simp_all
  have H: "spin.holders (thread_map_lock (shared s)) (bodies (pcs s))"
    using inv by (simp add: system_inv_def)
  have sole: "d = c" if "pcs s d = Computing op' m2" for d op' m2
    using spin.holders_unique [OF H, of d c] that store(2) by simp
  have "spin.holders (thread_map_lock (shared s)) (bodies ((pcs s)(c := Releasing)))"
    using H store(2) by (simp add: bodies_upd insert_absorb)
  moreover have "sequential Map.empty (history s @ [(op, r)]) (tm_abs m')"
    using inv m(1) body(2) by (simp add: sequential_append system_inv_def) blast
  ultimately show ?thesis
    using body(1) sole by (simp add: store(1) system_inv_def) blast
next
  case (unlock c)
  with inv spin.holders_unlock [of "thread_map_lock (shared s)" "bodies (pcs s)" c]
  show ?thesis
    by (auto simp: system_inv_def bodies_upd)
qed

lemma reachable_inv: "reachable P s \<Longrightarrow> system_inv P s"
  by (induction rule: reachable.induct) (auto intro: system_inv_initial system_step_inv)

section \<open>Guarantees\<close>

text \<open>Two clients of the sample platform: 0 holds the lock, 1 spins.\<close>

definition sample_contended :: "nat system" where
  "sample_contended =
    \<lparr>shared = initial_registry\<lparr>thread_map_lock := \<lparr>spin_value = 1\<rparr>\<rparr>,
     pcs = (\<lambda>c. Outside)(0 := Holding (Put 7 42), 1 := Spinning (Put 7 43)),
     history = [], environment = 0\<rparr>"

lemma reachable_sample_contended: "reachable sample_platform sample_contended"
proof -
  let ?s0 = "initial_system 0 :: nat system"
  let ?s1 = "?s0\<lparr>pcs := (pcs ?s0)(0 := Spinning (Put 7 42))\<rparr>"
  let ?s2 = "?s1\<lparr>pcs := (pcs ?s1)(1 := Spinning (Put 7 43))\<rparr>"
  have "reachable sample_platform ?s1"
    by (rule reachable.step [OF reachable.start system_step.call]) (simp add: initial_system_def)
  then have "reachable sample_platform ?s2"
    by (rule reachable.step [OF _ system_step.call]) (simp add: initial_system_def)
  moreover have "system_step sample_platform ?s2 sample_contended"
    using system_step.spins [of ?s2 0 "Put 7 42" sample_platform True "\<lparr>spin_value = 1\<rparr>"]
    by (simp add: initial_system_def initial_registry_def sample_contended_def
      ubench_spinlock_attempt_def sample_platform_def UBENCH_SPINLOCK_INITIALIZER_def
      fun_upd_twist)
  ultimately show ?thesis
    by (rule reachable.step)
qed

text \<open>
  C24: Mutual exclusion. In every reachable state of any number of threads, at most one of them is
  between the end of its spin loop and its unlock, and the lock's value is 1 exactly when there is
  one, else 0.
\<close>

theorem registry_mutual_exclusion:
  assumes "reachable P s"
  shows "(\<forall>c d. in_body (pcs s c) \<longrightarrow> in_body (pcs s d) \<longrightarrow> d = c) \<and>
    spin_value (thread_map_lock (shared s)) = (if \<exists>c. in_body (pcs s c) then 1 else 0)"
proof -
  from reachable_inv [OF assms]
  have H: "spin.holders (thread_map_lock (shared s)) (bodies (pcs s))"
    by (simp add: system_inv_def)
  have "spin_value (thread_map_lock (shared s)) = 0 \<longleftrightarrow> bodies (pcs s) = {}"
    "spin_value (thread_map_lock (shared s)) \<in> {0, 1}"
    using H by (auto simp: spin.holders_def spin_wf_def spin_free_def split: if_splits)
  moreover have "bodies (pcs s) = {} \<longleftrightarrow> \<not> (\<exists>c. in_body (pcs s c))"
    by (auto simp: bodies_def)
  ultimately show ?thesis
    using spin.holders_unique [OF H] by auto
qed

theorem registry_mutual_exclusion_witness:
  "\<not> in_body (pcs sample_contended 1) \<and> spin_value (thread_map_lock (shared sample_contended)) = 1"
proof -
  have b: "in_body (pcs sample_contended 0)"
    by (simp add: sample_contended_def)
  from registry_mutual_exclusion [OF reachable_sample_contended] b show ?thesis
    by (metis zero_neq_one)
qed

text \<open>
  C13: Linearisability. In every reachable state, the operations that finished, with the results they
  gave and in the order of their writes, are a sequential run of the abstract map from empty that
  ends in the map the shared array stands for: no update is lost and no result is stale.
\<close>

theorem registry_linearisable:
  assumes "reachable P s"
  shows "tm_inv (thread_map (shared s)) \<and>
    sequential Map.empty (history s) (registry_abs (shared s))"
  using reachable_inv [OF assms] by (simp add: system_inv_def)

theorem registry_linearisable_witness:
  "sequential Map.empty (history sample_contended) (registry_abs (shared sample_contended))"
  using registry_linearisable [OF reachable_sample_contended] by simp

section \<open>Progress\<close>

text \<open>Runs of the system, and those in which only the client \<open>c\<close> moves.\<close>

abbreviation system_runs :: "('w, 'x) c_platform_scheme \<Rightarrow> 'w system \<Rightarrow> 'w system \<Rightarrow> bool" where
  "system_runs P \<equiv> (system_step P)\<^sup>*\<^sup>*"

lemma system_runs_inv: "system_runs P s t \<Longrightarrow> system_inv P s \<Longrightarrow> system_inv P t"
  by (induction rule: rtranclp_induct) (auto intro: system_step_inv)

text \<open>
  The rest of the critical section, from its last step backwards. It has no undefined behaviour as
  long as the map has room.
\<close>

lemma releasing_ends:
  assumes "pcs s c = Releasing"
  shows "\<exists>t. system_runs P s t \<and> pcs t = (pcs s)(c := Outside)"
  by (intro exI conjI, rule r_into_rtranclp, rule system_step.unlock [OF assms]) simp

lemma computing_ends:
  assumes inv: "system_inv P s" and room: "card (dom (registry_abs (shared s))) < INT_MAX"
    and c: "pcs s c = Computing op m"
  shows "\<exists>t. system_runs P s t \<and> pcs t = (pcs s)(c := Outside)"
proof -
  have "m = thread_map (shared s)" "tm_inv m"
    using inv c by (auto simp: system_inv_def)
  then obtain r m' w' where body: "registry_body P op m (environment s) = Done (r, m', w')"
    using registry_body_returns [of m P op "environment s"] room by auto
  let ?s = "s\<lparr>shared := (shared s)\<lparr>thread_map := m'\<rparr>, pcs := (pcs s)(c := Releasing),
    history := history s @ [(op, r)], environment := w'\<rparr>"
  have step: "system_step P s ?s" by (rule system_step.store [OF c body])
  obtain t where "system_runs P ?s t" "pcs t = (pcs ?s)(c := Outside)"
    using releasing_ends [of ?s c P] by auto
  with step show ?thesis
    by (intro exI [of _ t]) (auto intro: converse_rtranclp_into_rtranclp)
qed

lemma holding_ends:
  assumes inv: "system_inv P s" and room: "card (dom (registry_abs (shared s))) < INT_MAX"
    and c: "pcs s c = Holding op"
  shows "\<exists>t. system_runs P s t \<and> pcs t = (pcs s)(c := Outside)"
proof -
  let ?s = "s\<lparr>pcs := (pcs s)(c := Computing op (thread_map (shared s)))\<rparr>"
  have step: "system_step P s ?s" by (rule system_step.read [OF c])
  have "\<exists>t. system_runs P ?s t \<and> pcs t = (pcs ?s)(c := Outside)"
    by (rule computing_ends [OF system_step_inv [OF step inv]]) (use room in simp_all)
  with step show ?thesis
    by (auto intro: converse_rtranclp_into_rtranclp)
qed

lemma body_ends:
  assumes "system_inv P s" and "card (dom (registry_abs (shared s))) < INT_MAX" and "in_body (pcs s c)"
  shows "\<exists>t. system_runs P s t \<and> pcs t = (pcs s)(c := Outside)"
  using assms releasing_ends computing_ends holding_ends by (cases "pcs s c") auto

lemma free_lock_taken:
  assumes inv: "system_inv P s" and free: "\<forall>d. \<not> in_body (pcs s d)" and c: "pcs s c = Spinning op"
  shows "\<exists>t. system_step P s t \<and> pcs t = (pcs s)(c := Holding op)"
proof -
  have "spin.holders (thread_map_lock (shared s)) ({} :: client set)"
    using inv free by (simp add: system_inv_def bodies_def)
  then have "spin_wf (thread_map_lock (shared s))" "spin_free (thread_map_lock (shared s))"
    by (auto simp: spin.holders_def split: if_splits)
  then have "ubench_spinlock_attempt P (thread_map_lock (shared s)) =
      (True, (thread_map_lock (shared s))\<lparr>spin_value := 1\<rparr>)"
    by (simp add: spinlock_attempt_cases)
  from system_step.spins [OF c this] show ?thesis by fastforce
qed



end
