(* ===== verification/JvmUtil.thy ===== *)
theory JvmUtil
  imports Counters
begin

text \<open>
  JVMTI contexts (\<open>jvmutil.c\<close>): a description of the events a module listens to, the environment
  that the virtual machine gives it, and the operations that obtain, enable and dispose it.
\<close>

section \<open>Contexts\<close>

text \<open>
  The array \<open>events\<close> is the list up to its terminating zero; \<open>callbacks\<close> lists the members of the
  structure that are not null.
\<close>

record jvmti_context =
  jvmti :: "jvmti_env option"
  callbacks :: "(jvmti_event \<times> jvmti_callback) list"
  events :: "jvmti_event list"
  has_capabilities :: bool
  capabilities :: jvmti_capabilities

text \<open>The virtual machine \<open>jvm\<close> and the context are never null: all callers pass their own.\<close>

definition ubench_jvmti_context_init ::
    "'w platform \<Rightarrow> jvmti_context \<Rightarrow> ('w, bool \<times> jvmti_context) ext" where
  "ubench_jvmti_context_init P context w =
    (case jvm_GetEnv_jvmti P w of ((env_error, env), w') \<Rightarrow>
     if env_error \<noteq> JNI_OK P then ((False, context), w')
     else ((True, context\<lparr>jvmti := Some env\<rparr>), w'))"

text \<open>The loop that enables the events one by one.\<close>

fun enable_events :: "'w platform \<Rightarrow> jvmti_env \<Rightarrow> jvmti_event list \<Rightarrow> ('w, bool) ext" where
  "enable_events P env [] w = (True, w)"
| "enable_events P env (event # es) w =
     (case jvmti_SetEventNotificationMode_enable P env event w of (event_err, w') \<Rightarrow>
      if event_err \<noteq> JVMTI_ERROR_NONE P then (False, w') else enable_events P env es w')"

definition ubench_jvmti_context_enable :: "'w platform \<Rightarrow> jvmti_context \<Rightarrow> 'w \<Rightarrow> (bool \<times> 'w) outcome"
where
  "ubench_jvmti_context_enable P context w =
    (case jvmti context of
       None \<Rightarrow> Fault AssertionFailed
     | Some env \<Rightarrow>
         (case (if has_capabilities context
             then jvmti_AddCapabilities P env (capabilities context) w
             else (JVMTI_ERROR_NONE P, w)) of (cap_error, w1) \<Rightarrow>
          if cap_error \<noteq> JVMTI_ERROR_NONE P then Done (False, w1)
          else case enable_events P env (events context) w1 of (enabled, w2) \<Rightarrow>
            if \<not> enabled then Done (False, w2)
            else case jvmti_SetEventCallbacks P env (callbacks context) w2 of (cb_error, w3) \<Rightarrow>
              if cb_error \<noteq> JVMTI_ERROR_NONE P then Done (False, w3) else Done (True, w3)))"

definition ubench_jvmti_context_destroy ::
    "'w platform \<Rightarrow> jvmti_context \<Rightarrow> ('w, bool \<times> jvmti_context) ext" where
  "ubench_jvmti_context_destroy P context w =
    (case jvmti context of
       Some env \<Rightarrow>
         (case jvmti_DisposeEnvironment P env w of (dispose_error, w') \<Rightarrow>
          ((dispose_error = JVMTI_ERROR_NONE P, context\<lparr>jvmti := None\<rparr>), w'))
     | None \<Rightarrow> ((False, context), w))"

definition ubench_jvmti_context_init_and_enable ::
    "'w platform \<Rightarrow> jvmti_context \<Rightarrow> 'w \<Rightarrow> (bool \<times> jvmti_context \<times> 'w) outcome" where
  "ubench_jvmti_context_init_and_enable P context w =
    (case ubench_jvmti_context_init P context w of ((init_ok, context1), w1) \<Rightarrow>
     if init_ok then
       obind (ubench_jvmti_context_enable P context1 w1) (\<lambda>(enabled, w2).
         if enabled then Done (True, context1, w2)
         else case ubench_jvmti_context_destroy P context1 w2 of ((destroyed, context2), w3) \<Rightarrow>
           Done (False, context2, w3))
     else Done (False, context1, w1))"

section \<open>All or nothing\<close>

text \<open>What it takes to enable a context in the environment \<open>w\<close>: every single call succeeds.\<close>

definition enables :: "'w platform \<Rightarrow> jvmti_context \<Rightarrow> jvmti_env \<Rightarrow> 'w \<Rightarrow> 'w \<Rightarrow> bool" where
  "enables P context env w w3 \<longleftrightarrow> (\<exists>w1 w2.
    (if has_capabilities context
     then jvmti_AddCapabilities P env (capabilities context) w = (JVMTI_ERROR_NONE P, w1)
     else w1 = w) \<and>
    enable_events P env (events context) w1 = (True, w2) \<and>
    jvmti_SetEventCallbacks P env (callbacks context) w2 = (JVMTI_ERROR_NONE P, w3))"

lemma context_enable_spec:
  assumes "jvmti context = Some env"
  shows "returns (ubench_jvmti_context_enable P context w) (\<lambda>(ok, w'). ok \<longrightarrow> enables P context env w w')"
  using assms by (auto simp: ubench_jvmti_context_enable_def enables_def split: prod.splits if_splits)

lemma enable_events_all:
  "enable_events P env es w = (True, w') \<Longrightarrow>
    \<forall>e \<in> set es. \<exists>w1 w2. jvmti_SetEventNotificationMode_enable P env e w1 = (JVMTI_ERROR_NONE P, w2)"
  by (induction es arbitrary: w) (auto split: prod.splits if_splits)

text \<open>
  The two ends of a failure: no environment was obtained, or the one that was obtained could not be
  enabled, and disposing it is the last thing that happens.
\<close>

definition set_up_fails :: "'w platform \<Rightarrow> jvmti_context \<Rightarrow> 'w \<Rightarrow> 'w \<Rightarrow> bool" where
  "set_up_fails P context w w' \<longleftrightarrow>
    (\<exists>err env. jvm_GetEnv_jvmti P w = ((err, env), w') \<and> err \<noteq> JNI_OK P) \<or>
    (\<exists>env w1 w2. jvm_GetEnv_jvmti P w = ((JNI_OK P, env), w1) \<and>
      ubench_jvmti_context_enable P (context\<lparr>jvmti := Some env\<rparr>) w1 = Done (False, w2) \<and>
      w' = snd (jvmti_DisposeEnvironment P env w2))"

lemma init_and_enable_spec:
  assumes "jvmti context = None"
  shows "returns (ubench_jvmti_context_init_and_enable P context w) (\<lambda>(ok, context', w').
    (ok \<longleftrightarrow> jvmti context' \<noteq> None) \<and> context' = context\<lparr>jvmti := jvmti context'\<rparr> \<and>
    (\<forall>env. jvmti context' = Some env \<longrightarrow> (\<exists>w1.
      jvm_GetEnv_jvmti P w = ((JNI_OK P, env), w1) \<and> enables P context env w1 w')) \<and>
    (\<not> ok \<longrightarrow> set_up_fails P context w w'))"
proof -
  obtain err env w1 where e: "jvm_GetEnv_jvmti P w = ((err, env), w1)" by (metis prod.exhaust)
  let ?ctx = "context\<lparr>jvmti := Some env\<rparr>"
  obtain ok w2 where en: "ubench_jvmti_context_enable P ?ctx w1 = Done (ok, w2)"
    "ok \<longrightarrow> enables P ?ctx env w1 w2"
    using context_enable_spec [of ?ctx env P w1] by (auto simp: returns_iff)
  moreover have "enables P ?ctx env w1 w2 = enables P context env w1 w2"
    by (simp add: enables_def)
  moreover have "context\<lparr>jvmti := None\<rparr> = context" using assms by simp
  moreover have "set_up_fails P context w w1" if "err \<noteq> JNI_OK P"
    using that e by (simp add: set_up_fails_def)
  moreover have "set_up_fails P context w (snd (jvmti_DisposeEnvironment P env w2))"
    if "err = JNI_OK P" "\<not> ok"
    using that e en(1) by (auto simp: set_up_fails_def)
  ultimately show ?thesis
    using assms e
    by (auto simp: ubench_jvmti_context_init_and_enable_def ubench_jvmti_context_init_def
        ubench_jvmti_context_destroy_def split: prod.splits)
qed

text \<open>
  C36: Setting up a JVMTI context is all or nothing: either it reports success and the context holds
  the environment that the virtual machine returned, with the capabilities added, every event
  enabled and, only then, the callbacks registered; or it reports failure, the context holds no
  environment, and either the virtual machine gave none or \<open>DisposeEnvironment\<close> was called, as the last
  thing, on the one that could not be enabled. No assertion fails.
\<close>

theorem context_setup_all_or_nothing:
  assumes "jvmti context = None"
  shows "returns (ubench_jvmti_context_init_and_enable P context w) (\<lambda>(ok, context', w').
    (ok \<longleftrightarrow> jvmti context' \<noteq> None) \<and> context' = context\<lparr>jvmti := jvmti context'\<rparr> \<and>
    (\<forall>env. jvmti context' = Some env \<longrightarrow> (\<exists>w1 w2 w3.
      jvm_GetEnv_jvmti P w = ((JNI_OK P, env), w1) \<and>
      (if has_capabilities context
       then jvmti_AddCapabilities P env (capabilities context) w1 = (JVMTI_ERROR_NONE P, w2)
       else w2 = w1) \<and>
      enable_events P env (events context) w2 = (True, w3) \<and>
      jvmti_SetEventCallbacks P env (callbacks context) w3 = (JVMTI_ERROR_NONE P, w'))) \<and>
    (\<not> ok \<longrightarrow> (\<exists>err env. jvm_GetEnv_jvmti P w = ((err, env), w') \<and> err \<noteq> JNI_OK P) \<or>
      (\<exists>env w1 w2. jvm_GetEnv_jvmti P w = ((JNI_OK P, env), w1) \<and>
        ubench_jvmti_context_enable P (context\<lparr>jvmti := Some env\<rparr>) w1 = Done (False, w2) \<and>
        w' = snd (jvmti_DisposeEnvironment P env w2))))"
  by (rule returns_mono [OF init_and_enable_spec [OF assms]]) (auto simp: enables_def set_up_fails_def)

definition sample_context :: jvmti_context where
  "sample_context =
    \<lparr>jvmti = None, callbacks = [(JVMTI_EVENT_VM_INIT, On_vm_init)], events = [JVMTI_EVENT_VM_INIT],
     has_capabilities = False,
     capabilities = \<lparr>can_generate_compiled_method_load_events = False,
       can_generate_garbage_collection_events = False\<rparr>\<rparr>"

text \<open>A virtual machine that refuses the event and marks the disposal in its state.\<close>

definition refusing_platform :: "nat platform" where
  "refusing_platform = sample_platform\<lparr>jvmti_SetEventNotificationMode_enable := (\<lambda>env event w. (99, w)),
     jvmti_DisposeEnvironment := (\<lambda>env w. (0, 1000 * env + w))\<rparr>"

theorem context_setup_all_or_nothing_witness:
  "returns (ubench_jvmti_context_init_and_enable refusing_platform sample_context 4)
    (\<lambda>(ok, context', w'). \<not> ok \<and> jvmti context' = None \<and> 1000 * 4 \<le> w')"
  by (rule returns_mono [OF context_setup_all_or_nothing])
     (auto simp: sample_context_def refusing_platform_def sample_platform_def)

end
