(* ===== verification/Startup.thy ===== *)
theory Startup
  imports JvmUtil EventSets
begin

text \<open>
  How the agent starts (\<open>ubench.c\<close>, and the initialisation parts of \<open>counter.c\<close> and \<open>threads.c\<close>): the
  guards against a second start, the modules in their order, and the registration of threads
  that waits for the virtual machine when it is not ready yet.
\<close>

section \<open>The state of the modules\<close>

text \<open>
  The static variables that the initialisation touches. \<open>thread_get_id_method\<close> says whether the
  cached method identifier is not null.
\<close>

record modules =
  startup_guard :: ubench_atomic_int_t
  shutdown_guard :: ubench_atomic_int_t
  counters_context :: jvmti_context
  init_context :: jvmti_context
  threads_context :: jvmti_context
  thread_get_id_method :: bool
  timer_frequency :: c_long

definition no_capabilities :: jvmti_capabilities where
  "no_capabilities =
    \<lparr>can_generate_compiled_method_load_events = False, can_generate_garbage_collection_events = False\<rparr>"

definition initial_counters_context :: jvmti_context where
  "initial_counters_context =
    \<lparr>jvmti = None,
     callbacks = [(JVMTI_EVENT_COMPILED_METHOD_LOAD, On_compiled_method_load),
       (JVMTI_EVENT_GARBAGE_COLLECTION_FINISH, On_garbage_collection_finish)],
     events = [JVMTI_EVENT_COMPILED_METHOD_LOAD, JVMTI_EVENT_GARBAGE_COLLECTION_FINISH],
     has_capabilities = True,
     capabilities =
       \<lparr>can_generate_compiled_method_load_events = True, can_generate_garbage_collection_events = True\<rparr>\<rparr>"

definition initial_init_context :: jvmti_context where
  "initial_init_context =
    \<lparr>jvmti = None, callbacks = [(JVMTI_EVENT_VM_INIT, On_vm_init)], events = [JVMTI_EVENT_VM_INIT],
     has_capabilities = False, capabilities = no_capabilities\<rparr>"

definition initial_threads_context :: jvmti_context where
  "initial_threads_context =
    \<lparr>jvmti = None,
     callbacks = [(JVMTI_EVENT_THREAD_START, On_thread_start), (JVMTI_EVENT_THREAD_END, On_thread_end)],
     events = [JVMTI_EVENT_THREAD_START, JVMTI_EVENT_THREAD_END],
     has_capabilities = False, capabilities = no_capabilities\<rparr>"

definition initial_modules :: modules where
  "initial_modules =
    \<lparr>startup_guard = \<lparr>atomic_value = 0\<rparr>, shutdown_guard = \<lparr>atomic_value = 0\<rparr>,
     counters_context = initial_counters_context, init_context = initial_init_context,
     threads_context = initial_threads_context, thread_get_id_method = False, timer_frequency = 0\<rparr>"

section \<open>The modules\<close>

definition ubench_counters_init :: "'w platform \<Rightarrow> modules \<Rightarrow> 'w \<Rightarrow> (bool \<times> modules \<times> 'w) outcome" where
  "ubench_counters_init P m w =
    obind (ubench_jvmti_context_init_and_enable P (counters_context m) w) (\<lambda>(ok, context, w').
      Done (ok, m\<lparr>counters_context := context\<rparr>, w'))"

definition enable_automatic_threads_registration ::
    "'w platform \<Rightarrow> modules \<Rightarrow> 'w \<Rightarrow> (bool \<times> modules \<times> 'w) outcome" where
  "enable_automatic_threads_registration P m w =
    (case jni_FindClass P ''java/lang/Thread'' w of (thread_class, w1) \<Rightarrow>
     if \<not> thread_class then Done (False, m, w1)
     else case jni_GetMethodID P ''java/lang/Thread'' ''getId'' ''()J'' w1 of (method, w2) \<Rightarrow>
       let m1 = m\<lparr>thread_get_id_method := method\<rparr> in
       if \<not> method then Done (False, m1, w2)
       else obind (ubench_jvmti_context_init_and_enable P (threads_context m1) w2)
         (\<lambda>(ok, context, w3). Done (ok, m1\<lparr>threads_context := context\<rparr>, w3)))"

definition jvmti_callback_on_vm_init :: "'w platform \<Rightarrow> modules \<Rightarrow> 'w \<Rightarrow> (modules \<times> 'w) outcome" where
  "jvmti_callback_on_vm_init P m w =
    (case jni_GetJavaVM P w of (jvm_err, w1) \<Rightarrow>
     if jvm_err = JNI_OK P then
       obind (enable_automatic_threads_registration P m w1) (\<lambda>(ok, m', w2). Done (m', w2))
     else Done (m, w1))"

definition ubench_threads_init :: "'w platform \<Rightarrow> modules \<Rightarrow> 'w \<Rightarrow> (bool \<times> modules \<times> 'w) outcome" where
  "ubench_threads_init P m w =
    (case jvm_GetEnv_jni P w of (env_error, w1) \<Rightarrow>
     if env_error = JNI_OK P then
       obind (enable_automatic_threads_registration P m w1) (\<lambda>(ok, m', w2).
         if ok then Done (True, m', w2) else Done (False, m', w2))
     else
       obind (ubench_jvmti_context_init_and_enable P (init_context m) w1) (\<lambda>(ok, context, w2).
         let m' = m\<lparr>init_context := context\<rparr> in
         if \<not> ok then Done (False, m', w2) else Done (True, m', w2)))"

section \<open>Startup and shutdown\<close>

text \<open>The first two modules may fail; only warnings are printed.\<close>

definition ubench_startup :: "'w platform \<Rightarrow> modules \<Rightarrow> 'w \<Rightarrow> (bool \<times> modules \<times> 'w) outcome" where
  "ubench_startup P m w =
    (case ubench_atomic_int_inc P (startup_guard m) of (old, guard) \<Rightarrow>
     let m0 = m\<lparr>startup_guard := guard\<rparr>; initialized = (old \<noteq> 0) in
     if initialized then Done (True, m0, w)
     else
       obind (ubench_counters_init P m0 w) (\<lambda>(counters_ok, m1, w1).
       obind (ubench_threads_init P m1 w1) (\<lambda>(threads_ok, m2, w2).
       obind (ubench_measurement_init P w2) (\<lambda>(measurement_ok, w3).
       if \<not> measurement_ok then Done (False, m2, w3)
       else case ubench_event_init P (timer_frequency m2) w3 of ((freq, event_init_ok), w4) \<Rightarrow>
         let m3 = m2\<lparr>timer_frequency := freq\<rparr> in
         if \<not> event_init_ok then Done (False, m3, w4) else Done (True, m3, w4)))))"

definition ubench_shutdown :: "('w, 'x) c_platform_scheme \<Rightarrow> modules \<Rightarrow> modules" where
  "ubench_shutdown P m =
    (case ubench_atomic_int_inc P (shutdown_guard m) of (old, guard) \<Rightarrow> m\<lparr>shutdown_guard := guard\<rparr>)"

definition UbenchAgent_nativeIsLoaded :: bool where
  "UbenchAgent_nativeIsLoaded = True"

definition Agent_OnLoad :: "'w platform \<Rightarrow> modules \<Rightarrow> 'w \<Rightarrow> (c_int \<times> modules \<times> 'w) outcome" where
  "Agent_OnLoad P m w =
    obind (ubench_startup P m w) (\<lambda>(success, m', w').
      Done (if success then JNI_OK P else JNI_ERR P, m', w'))"

definition Agent_OnUnload :: "('w, 'x) c_platform_scheme \<Rightarrow> modules \<Rightarrow> modules" where
  "Agent_OnUnload P m = ubench_shutdown P m"

definition JNI_OnLoad :: "'w platform \<Rightarrow> modules \<Rightarrow> 'w \<Rightarrow> (c_int \<times> modules \<times> 'w) outcome" where
  "JNI_OnLoad P m w =
    obind (ubench_startup P m w) (\<lambda>(success, m', w').
      Done (if success then JNI_VERSION_1_8 P else 0, m', w'))"

definition JNI_OnUnload :: "('w, 'x) c_platform_scheme \<Rightarrow> modules \<Rightarrow> modules" where
  "JNI_OnUnload P m = ubench_shutdown P m"

section \<open>What startup guarantees\<close>

text \<open>
  A context before or after its setup. The thread events may only come with the identifier of
  \<open>Thread.getId\<close> cached, which their callback uses without a check.
\<close>

definition modules_inv :: "modules \<Rightarrow> bool" where
  "modules_inv m \<longleftrightarrow> (jvmti (threads_context m) \<noteq> None \<longrightarrow> thread_get_id_method m)"

lemma modules_inv_timer [simp]: "modules_inv (m\<lparr>timer_frequency := freq\<rparr>) = modules_inv m"
  by (simp add: modules_inv_def)

definition unset :: "modules \<Rightarrow> bool" where
  "unset m \<longleftrightarrow> jvmti (counters_context m) = None \<and> jvmti (init_context m) = None \<and>
    jvmti (threads_context m) = None"

lemma context_setup:
  "jvmti context = None \<Longrightarrow> returns (ubench_jvmti_context_init_and_enable P context w)
    (\<lambda>(ok, context', w'). ok \<longleftrightarrow> jvmti context' \<noteq> None)"
  by (rule returns_mono [OF init_and_enable_spec]) auto

lemma counters_init_spec:
  assumes "unset m"
  shows "returns (ubench_counters_init P m w) (\<lambda>(ok, m', w'). jvmti (threads_context m') = None \<and>
    jvmti (init_context m') = None \<and> startup_guard m' = startup_guard m \<and>
    (ok \<longleftrightarrow> jvmti (counters_context m') \<noteq> None))"
proof -
  have "jvmti (counters_context m) = None" using assms by (simp add: unset_def)
  from context_setup [OF this, of P w] obtain ok ctx w' where
    "ubench_jvmti_context_init_and_enable P (counters_context m) w = Done (ok, ctx, w')"
    "ok \<longleftrightarrow> jvmti ctx \<noteq> None"
    by (auto simp: returns_iff)
  then show ?thesis using assms by (simp add: ubench_counters_init_def unset_def)
qed

lemma enable_threads_spec:
  assumes "jvmti (threads_context m) = None"
  shows "returns (enable_automatic_threads_registration P m w) (\<lambda>(ok, m', w'). modules_inv m' \<and>
    startup_guard m' = startup_guard m \<and> counters_context m' = counters_context m \<and>
    (ok \<longleftrightarrow> jvmti (threads_context m') \<noteq> None))"
proof -
  obtain c w1 where c: "jni_FindClass P ''java/lang/Thread'' w = (c, w1)" by (metis prod.exhaust)
  obtain i w2 where i: "jni_GetMethodID P ''java/lang/Thread'' ''getId'' ''()J'' w1 = (i, w2)"
    by (metis prod.exhaust)
  obtain ok ctx w3 where "ubench_jvmti_context_init_and_enable P (threads_context m) w2 =
      Done (ok, ctx, w3)" "ok \<longleftrightarrow> jvmti ctx \<noteq> None"
    using context_setup [OF assms, of P w2] by (auto simp: returns_iff)
  then show ?thesis
    using assms
    by (simp add: enable_automatic_threads_registration_def c i Let_def modules_inv_def)
qed

lemma threads_init_spec:
  assumes "jvmti (threads_context m) = None" and "jvmti (init_context m) = None"
  shows "returns (ubench_threads_init P m w) (\<lambda>(ok, m', w'). modules_inv m' \<and>
    startup_guard m' = startup_guard m \<and> counters_context m' = counters_context m)"
proof -
  obtain e w1 where e: "jvm_GetEnv_jni P w = (e, w1)" by (metis prod.exhaust)
  obtain ok m' w2 where now: "enable_automatic_threads_registration P m w1 = Done (ok, m', w2)"
    "modules_inv m'" "startup_guard m' = startup_guard m" "counters_context m' = counters_context m"
    using enable_threads_spec [OF assms(1), of P w1] by (auto simp: returns_iff)
  obtain ok' ctx w3 where later: "ubench_jvmti_context_init_and_enable P (init_context m) w1 =
      Done (ok', ctx, w3)"
    using context_setup [OF assms(2), of P w1] by (auto simp: returns_iff)
  show ?thesis
    using now later assms(1) by (simp add: ubench_threads_init_def e Let_def modules_inv_def)
qed

text \<open>PAPI may report another version or an error when the agent starts it.\<close>

definition papi_refuses :: "('w, 'x) papi_platform_scheme \<Rightarrow> bool" where
  "papi_refuses P \<longleftrightarrow> HAS_PAPI P \<and>
    (\<exists>w. fst (PAPI_library_init P w) \<noteq> PAPI_VER_CURRENT P \<or>
      sint (fst (PAPI_library_init P w)) < 0 \<or> sint (fst (PAPI_thread_init P w)) < 0)"

lemma measurement_init_spec: "safe (papi_refuses P) (ubench_measurement_init P w) (\<lambda>(ok, w'). ok)"
proof (cases "papi_refuses P")
  case True
  then show ?thesis
    by (auto simp: ubench_measurement_init_def check_papi_error_def safe_bind split: prod.splits)
next
  case False
  then have "HAS_PAPI P \<Longrightarrow> fst (PAPI_library_init P v) = PAPI_VER_CURRENT P \<and>
      0 \<le> sint (PAPI_VER_CURRENT P) \<and> 0 \<le> sint (fst (PAPI_thread_init P v))" for v
    unfolding papi_refuses_def by (metis not_less)
  with False show ?thesis
    by (auto simp: ubench_measurement_init_def check_papi_error_def safe_bind split: prod.splits)
       (metis fst_conv not_less)+
qed

lemma vm_init_spec:
  assumes "jvmti (threads_context m) = None"
  shows "returns (jvmti_callback_on_vm_init P m w) (\<lambda>(m', w'). modules_inv m')"
proof -
  obtain j w1 where j: "jni_GetJavaVM P w = (j, w1)" by (metis prod.exhaust)
  obtain ok m' w2 where "enable_automatic_threads_registration P m w1 = Done (ok, m', w2)" "modules_inv m'"
    using enable_threads_spec [OF assms, of P w1] by (auto simp: returns_iff)
  then show ?thesis
    using assms by (simp add: jvmti_callback_on_vm_init_def j modules_inv_def)
qed

text \<open>
  C29: The first startup never reports failure: it returns, though the counters and the threads may stay
  unavailable, or it ends the process, which happens only on a build with PAPI and only when PAPI
  does not initialise. Afterwards, and after the virtual machine's own initialisation event, the
  events about threads are only enabled when the identifier of \<open>Thread.getId\<close> that their callback
  uses is cached.
\<close>

theorem startup_spec:
  assumes "atomic_value (startup_guard m) = 0" and "unset m"
  shows "safe (papi_refuses P) (ubench_startup P m w) (\<lambda>(ok, m', w'). ok \<and>
    atomic_value (startup_guard m') = 1 \<and> modules_inv m' \<and>
    (jvmti (threads_context m') = None \<longrightarrow>
      returns (jvmti_callback_on_vm_init P m' v) (\<lambda>(m2, v2). modules_inv m2)))"
proof -
  obtain guard where guard: "ubench_atomic_int_inc P (startup_guard m) = (0, guard)" "atomic_value guard = 1"
    using assms(1) by (simp add: ubench_atomic_int_inc_def Let_def)
  let ?m0 = "m\<lparr>startup_guard := guard\<rparr>"
  have "unset ?m0" using assms(2) by (simp add: unset_def)
  then obtain ok1 m1 w1 where m1: "ubench_counters_init P ?m0 w = Done (ok1, m1, w1)"
    "jvmti (threads_context m1) = None" "jvmti (init_context m1) = None" "startup_guard m1 = guard"
    using counters_init_spec [of ?m0 P w] by (auto simp: returns_iff)
  obtain ok2 m2 w2 where m2: "ubench_threads_init P m1 w1 = Done (ok2, m2, w2)" "modules_inv m2"
    "startup_guard m2 = guard"
    using threads_init_spec [OF m1(2,3), of P w1] m1(4) by (auto simp: returns_iff)
  let ?events = "\<lambda>w3. case ubench_event_init P (timer_frequency m2) w3 of ((freq, event_init_ok), w4) \<Rightarrow>
         let m3 = m2\<lparr>timer_frequency := freq\<rparr> in
         if \<not> event_init_ok then Done (False, m3, w4) else Done (True, m3, w4)"
  have run: "ubench_startup P m w = obind (ubench_measurement_init P w2) (\<lambda>(measurement_ok, w3).
       if \<not> measurement_ok then Done (False, m2, w3) else ?events w3)"
    by (simp only: ubench_startup_def guard(1) Let_def m1(1) m2(1) obind.simps prod.case simp_thms if_False)
  have events: "returns (?events w3) (\<lambda>(ok, m', w'). ok \<and> atomic_value (startup_guard m') = 1 \<and>
      modules_inv m' \<and>
      (jvmti (threads_context m') = None \<longrightarrow>
        returns (jvmti_callback_on_vm_init P m' v) (\<lambda>(m2, v2). modules_inv m2)))" for w3
    using m2 guard(2)
    by (auto simp: ubench_event_init_def Let_def split: prod.splits intro!: vm_init_spec)
  show ?thesis
    unfolding run safe_bind
    by (rule safe_mono [OF measurement_init_spec]) (use events in \<open>auto intro: returns_safe\<close>)
qed

theorem startup_spec_witness:
  "returns (ubench_startup (sample_platform\<lparr>HAS_PAPI := False\<rparr>) initial_modules 0) (\<lambda>(ok, m', w').
    ok \<and> modules_inv m')"
proof -
  let ?P = "sample_platform\<lparr>HAS_PAPI := False\<rparr>"
  have start: "atomic_value (startup_guard initial_modules) = 0" "unset initial_modules"
    by (simp_all add: initial_modules_def unset_def initial_counters_context_def
      initial_init_context_def initial_threads_context_def)
  have "\<not> papi_refuses ?P"
    by (simp add: papi_refuses_def)
  with startup_spec [OF start, of ?P 0 0] show ?thesis
    by (simp only: safe_returns) (erule returns_mono, auto)
qed

text \<open>
  Loading the library again, as an agent or by \<open>loadLibrary\<close>, does nothing but count: it calls
  nothing, changes no module and always reports success, even when the startup it repeats did not
  get as far (the second call cannot tell).
\<close>

lemma second_load_does_nothing:
  assumes "atomic_value (startup_guard m) \<noteq> 0"
  shows "Agent_OnLoad P m w = Done (JNI_OK P,
      m\<lparr>startup_guard := \<lparr>atomic_value = atomic_value (startup_guard m) + 1\<rparr>\<rparr>, w) \<and>
    JNI_OnLoad P m w = Done (JNI_VERSION_1_8 P,
      m\<lparr>startup_guard := \<lparr>atomic_value = atomic_value (startup_guard m) + 1\<rparr>\<rparr>, w)"
  using assms
  by (auto simp: Agent_OnLoad_def JNI_OnLoad_def ubench_startup_def ubench_atomic_int_inc_def Let_def)

end
