(* ===== verification/Barrier.thy ===== *)
theory Barrier
  imports SamplePlatform
begin

text \<open>
  The barrier between processes (\<open>barrier.c\<close> and the program \<open>c-barrier/main.c\<close> that creates it in
  shared memory). Shared memory is outside the repository; the model keeps what the code does with
  the results of the calls.
\<close>

section \<open>The operating system\<close>

text \<open>
  Names of segments are strings. \<open>map_shared\<close> is \<open>mmap\<close> of a descriptor: an address, or \<open>None\<close> for
  \<open>MAP_FAILED\<close>. \<open>barrier_attr_setpshared\<close> and \<open>barrier_init\<close> are given initialised attribute objects;
  POSIX leaves their behaviour undefined for any other object.
\<close>

record ('w, 'attr) shared_memory =
  shm_open :: "string \<Rightarrow> bool \<Rightarrow> ('w, c_int) ext"
  ftruncate :: "c_int \<Rightarrow> ('w, c_int) ext"
  map_shared :: "c_int \<Rightarrow> ('w, nat option) ext"
  barrier_attr_setpshared :: "'attr \<Rightarrow> 'attr"
  barrier_init :: "nat \<Rightarrow> 'attr \<Rightarrow> c_uint \<Rightarrow> ('w, c_int) ext"
  barrier_wait :: "nat \<Rightarrow> ('w, unit) ext"

section \<open>The agent's side\<close>

text \<open>The pointer is null, \<open>MAP_FAILED\<close>, or the address of the mapping.\<close>

datatype barrier_pointer = Barrier_null | Barrier_map_failed | Barrier_at nat

record barrier_state =
  shared_mem_id :: c_int
  shared_mem_barrier :: barrier_pointer

definition initial_barrier :: barrier_state where
  "initial_barrier = \<lparr>shared_mem_id = - 1, shared_mem_barrier = Barrier_null\<rparr>"

text \<open>\<open>name\<close> is what \<open>GetStringUTFChars\<close> returned; it is released right after \<open>shm_open\<close>.\<close>

definition Barrier_initNative ::
    "('w, 'x) c_platform_scheme \<Rightarrow> ('w, 'attr) shared_memory \<Rightarrow> string \<Rightarrow> barrier_state \<Rightarrow> 'w \<Rightarrow>
      barrier_state \<times> 'w" where
  "Barrier_initNative P O' name b w =
    (if UNIX P then
       case shm_open O' name False w of (id', w1) \<Rightarrow>
       let b1 = b\<lparr>shared_mem_id := id'\<rparr> in
       if id' = - 1 then (b1, w1)
       else case map_shared O' id' w1 of (address, w2) \<Rightarrow>
         (case address of
            None \<Rightarrow> (b1\<lparr>shared_mem_barrier := Barrier_map_failed\<rparr>, w2)
          | Some a \<Rightarrow> (b1\<lparr>shared_mem_barrier := Barrier_at a\<rparr>, w2))
     else (b, w))"

definition Barrier_barrier ::
    "('w, 'x) c_platform_scheme \<Rightarrow> ('w, 'attr) shared_memory \<Rightarrow> barrier_state \<Rightarrow> 'w \<Rightarrow> 'w outcome" where
  "Barrier_barrier P O' b w =
    (if UNIX P then
       (case shared_mem_barrier b of
          Barrier_null \<Rightarrow> Fault NullDeref
        | Barrier_map_failed \<Rightarrow> Fault OutOfBounds
        | Barrier_at a \<Rightarrow> Done (snd (barrier_wait O' a w)))
     else Done w)"

section \<open>The program that creates the barrier\<close>

definition BARRIER_NAME_PREFIX :: string where
  "BARRIER_NAME_PREFIX = ''java-ubench-agent''"

text \<open>
  The end of \<open>main\<close> with its local variable \<open>attr\<close>: \<open>None\<close> is an object that was never initialised.
\<close>

definition pthread_barrierattr_setpshared ::
    "('w, 'attr) shared_memory \<Rightarrow> 'attr option \<Rightarrow> 'attr outcome" where
  "pthread_barrierattr_setpshared O' attr =
    (case attr of None \<Rightarrow> Fault Indeterminate | Some a \<Rightarrow> Done (barrier_attr_setpshared O' a))"

definition barrier_main_init ::
    "('w, 'attr) shared_memory \<Rightarrow> 'attr option \<Rightarrow> nat \<Rightarrow> c_uint \<Rightarrow> 'w \<Rightarrow> (nat \<times> 'w) outcome" where
  "barrier_main_init O' attr barrier barrier_size w =
    obind (pthread_barrierattr_setpshared O' attr) (\<lambda>attr'.
    case barrier_init O' barrier attr' barrier_size w of (err, w') \<Rightarrow>
    if err \<noteq> 0 then Exit else Done (0, w'))"

text \<open>
  \<open>main\<close> with the arguments \<open>argv\<close>: the exit code. The declaration of \<open>attr\<close> leaves it uninitialised.
\<close>

definition barrier_main ::
    "('w, 'x) c_platform_scheme \<Rightarrow> ('w, 'attr) shared_memory \<Rightarrow> string list \<Rightarrow> (string \<Rightarrow> c_uint) \<Rightarrow>
      'w \<Rightarrow> (nat \<times> 'w) outcome" where
  "barrier_main P O' argv atoi w =
    (if \<not> UNIX P then Done (0, w)
     else case argv of
       [program, barrier_name_suffix, size_arg] \<Rightarrow>
         (let barrier_size = atoi size_arg in
          case malloc_ok P w of (got_memory, w0) \<Rightarrow>
          if \<not> got_memory then Fault NullDeref
          else
            let barrier_name = BARRIER_NAME_PREFIX @ barrier_name_suffix in
            case shm_open O' barrier_name True w0 of (shared_mem_fd, w1) \<Rightarrow>
            if shared_mem_fd = - 1 then Exit
            else case ftruncate O' shared_mem_fd w1 of (err, w2) \<Rightarrow>
            if err = - 1 then Exit
            else case map_shared O' shared_mem_fd w2 of (barrier, w3) \<Rightarrow>
            (case barrier of
               None \<Rightarrow> Exit
             | Some a \<Rightarrow> let attr = None in barrier_main_init O' attr a barrier_size w3))
     | _ \<Rightarrow> Done (1, w))"

text \<open>
  On a Unix system \<open>main\<close> never exits with 0 on a defined path: it reports wrong usage, dies, or runs into
  undefined behaviour, in any case once the segment of the given name is created and mapped.
\<close>

lemma barrier_main_undefined:
  assumes "UNIX P"
  shows "barrier_main P O' argv atoi w \<noteq> Done (0, w')"
    and "shm_open O' (''java-ubench-agent'' @ suffix) True (snd (malloc_ok P w)) = (fd, w1) \<Longrightarrow>
      fst (malloc_ok P w) \<Longrightarrow> fd \<noteq> - 1 \<Longrightarrow> ftruncate O' fd w1 = (err, w2) \<Longrightarrow> err \<noteq> - 1 \<Longrightarrow>
      map_shared O' fd w2 = (Some a, w3) \<Longrightarrow>
      barrier_main P O' [program, suffix, size_arg] atoi w = Fault Indeterminate"
proof -
  have init: "barrier_main_init O' None a n w = Fault Indeterminate" for a n w
    by (simp add: barrier_main_init_def pthread_barrierattr_setpshared_def)
  show "barrier_main P O' argv atoi w \<noteq> Done (0, w')"
    using assms by (auto simp: barrier_main_def Let_def init split: list.splits prod.splits option.splits)
  show "shm_open O' (''java-ubench-agent'' @ suffix) True (snd (malloc_ok P w)) = (fd, w1) \<Longrightarrow>
      fst (malloc_ok P w) \<Longrightarrow> fd \<noteq> - 1 \<Longrightarrow> ftruncate O' fd w1 = (err, w2) \<Longrightarrow> err \<noteq> - 1 \<Longrightarrow>
      map_shared O' fd w2 = (Some a, w3) \<Longrightarrow>
      barrier_main P O' [program, suffix, size_arg] atoi w = Fault Indeterminate"
    using assms by (simp add: barrier_main_def BARRIER_NAME_PREFIX_def Let_def init split_beta)
qed

section \<open>Using the barrier\<close>

text \<open>
  A program that calls \<open>Barrier.init\<close> any number of times, each with a name and in any environment.
\<close>

fun init_calls ::
    "('w, 'x) c_platform_scheme \<Rightarrow> ('w, 'attr) shared_memory \<Rightarrow> (string \<times> 'w) list \<Rightarrow> barrier_state \<Rightarrow>
      barrier_state" where
  "init_calls P O' [] b = b"
| "init_calls P O' ((name, w) # calls) b =
     init_calls P O' calls (fst (Barrier_initNative P O' name b w))"

text \<open>What \<open>mmap\<close> answered to the calls for which \<open>shm_open\<close> found a segment.\<close>

fun mappings :: "('w, 'attr) shared_memory \<Rightarrow> (string \<times> 'w) list \<Rightarrow> nat option list" where
  "mappings O' [] = []"
| "mappings O' ((name, w) # calls) =
     (case shm_open O' name False w of (fd, w1) \<Rightarrow>
      if fd = - 1 then mappings O' calls else fst (map_shared O' fd w1) # mappings O' calls)"

definition pointer_of :: "nat option \<Rightarrow> barrier_pointer" where
  "pointer_of a = (case a of None \<Rightarrow> Barrier_map_failed | Some a \<Rightarrow> Barrier_at a)"

lemma initNative_pointer:
  assumes "UNIX P" and "shm_open O' name False w = (fd, w1)"
  shows "shared_mem_barrier (fst (Barrier_initNative P O' name b w)) =
    (if fd = - 1 then shared_mem_barrier b else pointer_of (fst (map_shared O' fd w1)))"
  using assms
  by (auto simp: Barrier_initNative_def Let_def pointer_of_def split: prod.splits option.splits)

lemma init_calls_pointer:
  assumes "UNIX P"
  shows "shared_mem_barrier (init_calls P O' calls b) =
    last (shared_mem_barrier b # map pointer_of (mappings O' calls))"
proof (induction calls arbitrary: b)
  case (Cons x calls)
  obtain name w where x: "x = (name, w)" by (cases x)
  obtain fd w1 where fd: "shm_open O' name False w = (fd, w1)" by (metis prod.exhaust)
  show ?case
    by (simp add: x fd Cons.IH initNative_pointer [OF assms fd])
qed simp

text \<open>
  C37: After any sequence of calls of \<open>Barrier.init\<close> since the agent was loaded on a Unix system, \<open>barrier\<close>
  waits at the address that the last \<open>mmap\<close> returned, among the calls that found a segment. If that
  \<open>mmap\<close> failed, though earlier ones may have succeeded, or no call found a segment, \<open>barrier\<close> has
  undefined behaviour: \<open>initNative\<close> tells Java nothing about its failures.
\<close>

theorem barrier_uses_last_mapping:
  assumes "UNIX P"
  shows "Barrier_barrier P O' (init_calls P O' calls initial_barrier) w =
    (if mappings O' calls = [] then Fault NullDeref
     else case last (mappings O' calls) of
       None \<Rightarrow> Fault OutOfBounds
     | Some a \<Rightarrow> Done (snd (barrier_wait O' a w)))"
proof -
  have "shared_mem_barrier (init_calls P O' calls initial_barrier) =
      (if mappings O' calls = [] then Barrier_null else pointer_of (last (mappings O' calls)))"
    by (simp add: init_calls_pointer [OF assms] last_map initial_barrier_def)
  then show ?thesis
    using assms by (auto simp: Barrier_barrier_def pointer_of_def split: option.splits)
qed

text \<open>No segment in the environment 0; in the environment 1 the mapping fails.\<close>

definition sample_memory :: "(nat, nat) shared_memory" where
  "sample_memory =
    \<lparr>shm_open = (\<lambda>name create w. (if w = 0 then - 1 else 3, w)), ftruncate = (\<lambda>fd w. (0, w)),
     map_shared = (\<lambda>fd w. (if w = 1 then None else Some w, w)), barrier_attr_setpshared = id,
     barrier_init = (\<lambda>a attr n w. (0, w)), barrier_wait = (\<lambda>a w. ((), w + a))\<rparr>"

theorem barrier_uses_last_mapping_witness:
  "Barrier_barrier sample_platform sample_memory
      (init_calls sample_platform sample_memory [(''x'', 7), (''y'', 0)] initial_barrier) 100 = Done 107 \<and>
    Barrier_barrier sample_platform sample_memory
      (init_calls sample_platform sample_memory [(''x'', 7), (''y'', 1)] initial_barrier) 100 =
      Fault OutOfBounds"
proof -
  have "UNIX sample_platform" by (simp add: sample_platform_def)
  note law = barrier_uses_last_mapping [OF this, of sample_memory]
  show ?thesis
    unfolding law by (simp add: sample_memory_def)
qed

end
