(* ===== verification/Estimations.thy ===== *)
theory Estimations
  imports Platform
begin

text \<open>
  The two native methods with which Java programs estimate what a native call costs
  (\<open>estimations.c\<close>). They touch no variable of the agent: one does nothing, the other asks the
  operating system for the resource usage of the process and drops the answer.
\<close>

definition OverheadEstimations_emptyNativeCall :: "'w \<Rightarrow> 'w" where
  "OverheadEstimations_emptyNativeCall w = w"

definition OverheadEstimations_resourceUsageCall :: "('w, 'x) c_platform_scheme \<Rightarrow> 'w \<Rightarrow> 'w" where
  "OverheadEstimations_resourceUsageCall P w =
    (if HAS_GETRUSAGE P then snd (getrusage_self P w) else w)"

end
