(* ===== verification/Logging.thy ===== *)
theory Logging
  imports ThreadMap
begin

text \<open>
  The messages on the standard error output (\<open>logging.h\<close>) as the lines that are written, and the
  printing of the thread map that the debugging build does before and after every change
  (\<open>debug_thread_map_print_entries\<close> in \<open>threads.c\<close>). Printing has a precondition: it reads every cell of the
  map.
\<close>

section \<open>Levels\<close>

definition UBENCH_PREFIX :: string where
  "UBENCH_PREFIX = ''[ubench-agent]''"

definition LEVEL_PRINTF :: "string \<Rightarrow> string \<Rightarrow> string" where
  "LEVEL_PRINTF level text = UBENCH_PREFIX @ '': '' @ level @ text @ ''\<newline>''"

text \<open>\<open>debug\<close> says whether \<open>UBENCH_DEBUG\<close> is defined; without it the arguments are not even evaluated.\<close>

definition DEBUG_PRINTF :: "bool \<Rightarrow> string \<Rightarrow> string list" where
  "DEBUG_PRINTF debug text = (if debug then [LEVEL_PRINTF '''' text] else [])"

definition WARN_PRINTF :: "string \<Rightarrow> string list" where
  "WARN_PRINTF text = [LEVEL_PRINTF ''WARNING: '' text]"

definition ERROR_PRINTF :: "string \<Rightarrow> string list" where
  "ERROR_PRINTF text = [LEVEL_PRINTF ''ERROR: '' text]"

definition FATAL_PRINTF :: "string \<Rightarrow> string list" where
  "FATAL_PRINTF text = [LEVEL_PRINTF ''FATAL: '' text]"

section \<open>Numbers\<close>

text \<open>The conversions \<open>%d\<close> and \<open>%ld\<close> of \<open>printf\<close>.\<close>

fun print_nat :: "nat \<Rightarrow> string" where
  "print_nat n = (if n < 10 then [char_of (48 + n)] else print_nat (n div 10) @ [char_of (48 + n mod 10)])"

declare print_nat.simps [simp del]

definition print_int :: "int \<Rightarrow> string" where
  "print_int i = (if i < 0 then CHR ''-'' # print_nat (nat (- i)) else print_nat (nat i))"

definition read_nat :: "string \<Rightarrow> nat" where
  "read_nat = foldl (\<lambda>n c. 10 * n + (of_char c - 48)) 0"

lemma read_print_nat: "read_nat (print_nat n) = n"
proof (induction n rule: print_nat.induct)
  case (1 n)
  have "of_char (char_of (48 + k) :: char) - 48 = k" if "k < 10" for k :: nat
    using that by simp
  with 1 show ?case
    by (subst print_nat.simps) (auto simp: read_nat_def)
qed

lemma print_nat_inject: "print_nat m = print_nat n \<longleftrightarrow> m = n"
  by (metis read_print_nat)

lemma minus_not_in_print_nat: "CHR ''-'' \<notin> set (print_nat n)"
proof (induction n rule: print_nat.induct)
  case (1 n)
  have "char_of (48 + k) \<noteq> CHR ''-''" if "k < 10" for k :: nat
  proof
    assume "char_of (48 + k) = CHR ''-''"
    then have "of_char (char_of (48 + k) :: char) = (of_char CHR ''-'' :: nat)" by simp
    then show False using that by simp
  qed
  from 1 this [of n] this [of "n mod 10"] show ?case
    by (subst print_nat.simps) (auto simp: eq_commute)
qed

text \<open>Different numbers are printed differently.\<close>

lemma print_int_inject: "print_int i = print_int j \<longleftrightarrow> i = j"
proof -
  have minus: "CHR ''-'' # cs \<noteq> print_nat n" "print_nat n \<noteq> CHR ''-'' # cs" for n cs
    using minus_not_in_print_nat [of n] by (metis list.set_intros(1))+
  show ?thesis
    by (auto simp: print_int_def print_nat_inject minus split: if_splits)
qed

section \<open>Printing the thread map\<close>

definition entry_line :: "c_int \<Rightarrow> thread_map_entry_t \<Rightarrow> string" where
  "entry_line i e = ''       .['' @ print_int (sint i) @ ''] = { .java_id = '' @ print_int (sint (java_id e)) @
     '', .native_id = '' @ print_int (sint (native_id e)) @ '' }''"

function print_entries_from :: "thread_map_t \<Rightarrow> c_int \<Rightarrow> string list outcome" where
  "print_entries_from m i =
    (if sint i < sint (tm_length m) then
       obind (thread_map_entry_at m i) (\<lambda>e.
       obind (print_entries_from m (i + 1)) (\<lambda>lines.
         Done (DEBUG_PRINTF True (entry_line i e) @ lines)))
     else Done [])"
  by pat_completeness auto
termination
  by (relation "measure (\<lambda>(m, i). nat (sint (tm_length m) - sint i))")
     (auto simp: sint_inc_below)

declare print_entries_from.simps [simp del]

text \<open>\<open>address\<close> is what \<open>%p\<close> makes of the pointer to the map; the pointer to the map is never null.\<close>

definition debug_thread_map_print_entries ::
    "bool \<Rightarrow> string \<Rightarrow> thread_map_t \<Rightarrow> string option \<Rightarrow> string list outcome" where
  "debug_thread_map_print_entries debug address m prefix =
    (if \<not> debug then Done []
     else
       obind (if 0 < sint (tm_length m) then
           obind (print_entries_from m 0) (\<lambda>lines.
             Done (DEBUG_PRINTF True ''    .entries = {'' @ lines @ DEBUG_PRINTF True ''    }''))
         else Done (DEBUG_PRINTF True ''    .entries = {}''))
       (\<lambda>lines. Done (DEBUG_PRINTF True ((case prefix of None \<Rightarrow> '''' | Some p \<Rightarrow> p) @ ''thread_map_t('' @ address @ '') = {'') @
          DEBUG_PRINTF True (''    .length = '' @ print_int (sint (tm_length m))) @
          DEBUG_PRINTF True (''    .capacity = '' @ print_int (sint (tm_capacity m))) @
          lines @ DEBUG_PRINTF True ''}'')))"

text \<open>One line for every entry, in order; no cell without an entry is read.\<close>

definition entry_lines :: "thread_map_t \<Rightarrow> nat \<Rightarrow> string list" where
  "entry_lines m k =
    map (\<lambda>k. LEVEL_PRINTF '''' (entry_line (of_nat k) (tm_list m ! k))) [k..<tm_count m]"

lemma print_entries_from_eq:
  "tm_inv m \<Longrightarrow> 0 \<le> sint i \<Longrightarrow> print_entries_from m i = Done (entry_lines m (nat (sint i)))"
proof (induction m i rule: print_entries_from.induct)
  case (1 m i)
  show ?case
  proof (cases "sint i < sint (tm_length m)")
    case True
    then have next_i: "sint (i + 1) = sint i + 1" by (rule sint_inc_below)
    have i: "of_nat (nat (sint i)) = i"
      using 1(3) by (simp add: of_nat_nat)
    have "nat (sint i) < tm_count m"
      using True 1(3) tm_count_int [OF 1(2)] by linarith
    then have lines: "entry_lines m (nat (sint i)) =
        LEVEL_PRINTF '''' (entry_line i (tm_list m ! nat (sint i))) # entry_lines m (nat (sint (i + 1)))"
      using 1(3) by (simp add: entry_lines_def upt_conv_Cons i next_i nat_add_distrib)
    note entry = thread_map_entry_at_list [OF 1(2,3) True]
    have "print_entries_from m (i + 1) = Done (entry_lines m (nat (sint (i + 1))))"
      using 1(3) by (intro 1(1) [OF True entry] 1(2)) (simp add: next_i)
    with True entry lines show ?thesis
      by (subst print_entries_from.simps) (simp add: DEBUG_PRINTF_def)
  next
    case False
    then show ?thesis
      by (simp add: print_entries_from.simps entry_lines_def tm_count_def)
  qed
qed

text \<open>
  Printing a well-formed map, as all maps between two operations are, has no undefined behaviour; and
  the debugging build prints as many lines as the map has entries, and five or six others. The
  other builds print nothing.
\<close>

theorem debug_print_never_faults:
  assumes "tm_inv m"
  shows "returns (debug_thread_map_print_entries debug address m prefix) (\<lambda>lines.
    length lines = (if \<not> debug then 0 else if tm_count m = 0 then 5 else tm_count m + 6) \<and>
    (debug \<longrightarrow> set (entry_lines m 0) \<subseteq> set lines))"
proof -
  have "0 < sint (tm_length m) \<longleftrightarrow> tm_count m \<noteq> 0"
    by (auto simp: tm_count_def not_le)
  then show ?thesis
    using print_entries_from_eq [OF assms, of 0]
    by (auto simp: debug_thread_map_print_entries_def DEBUG_PRINTF_def entry_lines_def returns_iff)
qed

end
