(* ===== verification/Spec2Isabelle.thy ===== *)
theory Spec2Isabelle
  imports EndToEnd Borrowing RegistryThreads Startup Barrier Estimations Logging
begin

text \<open>
  \<^bold>\<open>The native agent of java-ubench-agent.\<close>

  The agent is a C library that the Java virtual machine loads. Java code creates event sets, starts
  and stops measurements on them and reads the results; meanwhile the virtual machine calls the
  agent back when it compiles a method, finishes a garbage collection, or starts and ends a thread.
  This development models the library's C sources, all of them but most of the printing, and
  proves what each part does.

  \<^bold>\<open>Parts and theories.\<close> A theory imports those whose code it calls.

  \<^item> \<open>Prelude\<close>: C integers (\<open>32 word\<close>, \<open>64 word\<close>, \<open>size_t\<close> with its wrap-around written out), the
    outcome of running C (\<open>Done\<close> a value, \<open>Fault\<close> for undefined behaviour, \<open>Exit\<close> for \<open>exit(1)\<close>, \<open>Hang\<close>
    for a loop that never ends), memory blocks with bounds and life time. \<open>returns m Q\<close> says that \<open>m\<close>
    returns a value with \<open>Q\<close>; \<open>safe quits m Q\<close> that it does so or ends the process in a case \<open>quits\<close>.
  \<^item> \<open>Platform\<close>: the data of \<open>ubench.h\<close> as records, and one record \<open>platform\<close> of everything outside the
    repository: build flags, the C library, PAPI, JNI and JVMTI. Each of its functions reads and
    updates an abstract environment. \<open>SamplePlatform\<close> is a concrete one for the examples.
  \<^item> \<open>StrUtil\<close> (\<open>strutil.h\<close>), \<open>Counters\<close> (\<open>myatomic.h\<close>, \<open>counter.c\<close>), \<open>SpinLock\<close> (\<open>mylock.h\<close>).
  \<^item> \<open>ThreadMap\<close>, \<open>ThreadRegistry\<close>, \<open>RegistryThreads\<close> (\<open>threads.c\<close>): the array-based map from Java to native
    thread identifiers; the operations that lock it, the callbacks and the methods of \<open>NativeThreads\<close>;
    any number of threads using it at once, as a step relation.
  \<^item> \<open>Getters\<close>, \<open>Events\<close> (\<open>events.c\<close>): what an event reports from two snapshots; the table of events,
    resolving a name and listing the names.
  \<^item> \<open>Measure\<close> (\<open>measure.c\<close>): taking one snapshot, reading by reading.
  \<^item> \<open>EventSets\<close>, \<open>Recording\<close>, \<open>Results\<close> (\<open>measurement.c\<close>): the table of event sets with creation,
    attachment to threads and destruction; \<open>start\<close>, \<open>stop\<close>, \<open>sample\<close> and \<open>reset\<close>; the results.
    \<open>Creation\<close> proves more about the first of these (\<open>create_attached\<close> is either attaching method);
    \<open>Usage\<close> is about whole programs, as an inductive relation over every native method on event sets,
    attaching ones included, and the callbacks of the virtual machine; \<open>EndToEnd\<close> follows one
    measurement from \<open>start\<close> to \<open>getResults\<close>; \<open>LogTable\<close> is the abstract machine that all these methods
    implement; \<open>Borrowing\<close> keeps the accounts of the strings and arrays that they borrow from the virtual
    machine, of the blocks they allocate and of the names of events they copy.
  \<^item> \<open>JvmUtil\<close> (\<open>jvmutil.c\<close>), \<open>Startup\<close> (\<open>ubench.c\<close> and the initialisation in \<open>counter.c\<close> and \<open>threads.c\<close>).
  \<^item> \<open>Barrier\<close> (\<open>barrier.c\<close>, \<open>c-barrier/main.c\<close>), \<open>Estimations\<close> (\<open>estimations.c\<close>).
  \<^item> \<open>Logging\<close> (\<open>logging.h\<close>, the printing of the thread map in \<open>threads.c\<close>): messages as the lines written.

  Definitions have the names of the C functions; \<open>Measurement_start\<close> is
  \<open>Java_cz_cuni_mff_d3s_perf_Measurement_start\<close>, and so on. A long function is composed of
  definitions for its loops and blocks.

  \<^bold>\<open>State.\<close> The record \<open>agent\<close> (in \<open>EventSets\<close>) holds the static variables that the native methods use,
  the message of a pending Java exception, the environment, and three numbers that no code reads: the
  strings and arrays borrowed from the virtual machine (\<open>borrowed\<close>), the blocks of measurements and
  event descriptions allocated and not freed (\<open>allocated\<close>, counted by \<open>count_blocks\<close> where the code
  calls \<open>calloc\<close> and \<open>free\<close>), and the copies of event names (\<open>names_allocated\<close>, counted by \<open>count_name\<close>
  after \<open>ubench_event_resolve\<close> made one; no code frees them). \<open>registry\<close> is the thread map with its
  lock, \<open>counters\<close> the atomic counters, \<open>modules\<close> what startup initialises; the frequency of the
  Windows timer appears in \<open>modules\<close>, where it is written, and in \<open>agent\<close>, where it is read.

  \<^bold>\<open>Interfaces.\<close> Where one part relies on another, a locale states the contract and the model of the
  provider interprets it: \<open>atomic_counter\<close> (\<open>counter\<close>), \<open>test_and_set_lock\<close> (\<open>spin\<close>), \<open>thread_registry\<close>
  (\<open>tm\<close>: the array refines the map), \<open>difference_getter\<close> (\<open>timespecs\<close>, \<open>compiled\<close>, \<open>switches\<close>, \<open>rusages\<close>),
  \<open>name_matching\<close> (\<open>icase\<close>), \<open>slot_operation\<close> (\<open>starting\<close>, \<open>stopping\<close>, \<open>sampling\<close>, \<open>resetting\<close>),
  \<open>recording_spec\<close> (\<open>starts\<close>, \<open>stops\<close>, \<open>samples\<close>, \<open>resets\<close>), which has \<open>slot_operation\<close> as a sublocale.

  \<^bold>\<open>What is shown.\<close>

  \<^item> Event sets: \<open>agent_inv\<close> says that the table and every valid configuration are well-formed (blocks
    live and of the recorded sizes, indices in range, events resolved, PAPI indices right). Every
    native method keeps it, on every path; creation returns a fresh empty set or throws. The set
    holds the events that were named, in their order, and each PAPI event reads the counter that PAPI
    was asked for with its code, up to 20 codes; without PAPI the outcome is exactly known.
    Destroying never frees twice.
  \<^item> Recording and results: \<open>start\<close>, \<open>stop\<close>, \<open>sample\<close>, \<open>reset\<close> act on the log of snapshots that an event set
    stands for (\<open>snapshot_log\<close>); the results are a function of the log (\<open>completed\<close>). Together: after
    \<open>n\<close> measurements with room for \<open>m\<close>, the first \<open>m - 1\<close> and the last one are reported.
  \<^item> Refinement: for any sequence of calls the agent gives the answers of a table from identifiers to
    the types of the recorded snapshots, and goes wrong only at a \<open>stop\<close> on a log that the table says
    is full, and at an attaching creation that fails.
  \<^item> Usage: a discipline of calls (stop only after a start, or while the log cannot be full) under
    which no call of any program has undefined behaviour, exits or hangs, except an attaching
    creation that fails; event sets on which starts and stops alternate report every recorded pair.
  \<^item> Measuring: which members a snapshot fills, and that the wall clock is read innermost.
  \<^item> End to end: a measurement adds one row, with the time between the two clock readings and the number
    of compilations that the virtual machine reported in between, whatever else the program, the
    callbacks and other event sets do meanwhile (the inductive relation \<open>meanwhile\<close>).
  \<^item> Events: what a name resolves to, legacy names, PAPI names with and without prefix, the listing,
    and that what is listed resolves again; the getters as differences, exact within stated ranges.
  \<^item> Threads: putting a thread into the map and removing it undo each other; the registry holds
    exactly the live threads; with any number of threads there is
    mutual exclusion (the lock's value says whether a thread is inside), the operations are
    linearisable, and nobody is stuck for good: who is inside can get out, who waits can get in.
  \<^item> Memory: after any sequence of calls, exactly the calls that a theorem names have not given back
    what they borrowed from the virtual machine; the blocks allocated are those of the event
    sets that are alive and of the creations refused for their PAPI components, and besides them
    the copies of event names, which are never freed.
  \<^item> Startup: it never fails by itself, runs once, ends the process only when PAPI does not initialise,
    and JVMTI contexts are set up completely, or not at all and their environment is disposed of.
  \<^item> Barrier: \<open>barrier\<close> waits at the last mapping, if there is one. The helper program of \<open>c-barrier\<close>
    passes an uninitialised attribute object to \<open>pthread_barrierattr_setpshared\<close>: undefined behaviour, in
    the model too (\<open>barrier_main_undefined\<close>).
  \<^item> Where the code goes wrong, a theorem says when: \<open>stop\<close> on a full log, attaching after a failed
    creation, arrays and strings never released, the blocks of a creation with mixed PAPI components and
    the names of events never freed, a barrier without a mapping, more than \<open>2^31\<close> compilations, two creations at once, a negative number of measurements, too many PAPI events, the range of the Windows timer.

  \<^bold>\<open>Bounds and fuel.\<close> The loop of \<open>getResults\<close> (\<open>rows_of_results\<close>) has the fuel \<open>data_index + 1\<close>: every round
  advances the index by at least one, and the lemmas show that the fuel never runs out. The spin
  lock and PAPI's enumerations are \<open>partial_function\<close>s, \<open>None\<close> when they do not end. The other loops are
  structural or come with a measure. Signed overflow is two's complement. The counts that the code
  keeps in an \<open>int\<close> (of event sets, of threads) are 32 bits wide: theorems about new event sets and
  new threads ask for fewer than \<open>2^31 - 1\<close> of them, and \<open>thread_map_put_full\<close> shows that one thread more
  is written outside the array. The counts that it keeps in a \<open>size_t\<close> are \<open>nat\<close>, as memory bounds them.

  \<^bold>\<open>Not modelled.\<close> The effect of messages (\<open>Logging\<close> has the macros and the printing of the thread map; the operations do
  not record what they print) and the printing of JVMTI contexts, compiler attributes (\<open>compiler.h\<close>),
  null references passed from Java, the memory of the table of event sets itself (it only grows; \<open>allocated\<close>
  does not count it), data races on the event sets (the code has no lock there), and the Java
  sources.
\<close>

end
